(* ===== verification/Prelude.thy ===== *)
theory Prelude
  imports Main "HOL-Library.Word" "HOL-Library.Signed_Division"
begin

text \<open>
  What the components share: Go's 64-bit integers, wall-clock time and durations,
  errors and panics, and a few facts on lists and maps.

  \<^item> A Go \<open>int\<close> or \<open>int64\<close> is an \<open>int\<close> that satisfies \<open>int64\<close>; every addition,
    subtraction or multiplication of the source is followed by \<open>wrap64\<close>, which reads
    the 64-bit word back as two's complement.  Division and remainder truncate
    (\<open>sdiv\<close>, \<open>smod\<close>).
  \<^item> A \<open>time.Time\<close> is the number of nanoseconds since the Unix epoch (an unbounded
    \<open>int\<close>; the zero \<open>Time\<close> is the first of January of the year 1), a \<open>time.Duration\<close>
    a number of nanoseconds that satisfies \<open>int64\<close>.  \<open>time.Now()\<close> is an argument of
    the operation that calls it, one argument for each call.
  \<^item> A Go error is a value of \<open>go_error\<close>: a sentinel compared by identity, a message, or
    a message that wraps another error.  A panic is a value of \<open>panic\<close>.
\<close>

named_theorems go_int \<open>ranges and wrap-around of 64-bit integers\<close>
named_theorems go_time \<open>time and durations\<close>

section \<open>64-bit integers\<close>

abbreviation min_int64 :: int where
  "min_int64 \<equiv> - 9223372036854775808"

abbreviation max_int64 :: int where
  "max_int64 \<equiv> 9223372036854775807"

definition int64 :: "int \<Rightarrow> bool" where
  "int64 x \<longleftrightarrow> min_int64 \<le> x \<and> x \<le> max_int64"

definition wrap64 :: "int \<Rightarrow> int" where
  "wrap64 x = sint (word_of_int x :: 64 word)"

lemma wrap64_signed_take_bit: "wrap64 x = signed_take_bit 63 x"
  by (simp add: wrap64_def sint_sbintrunc')

lemma wrap64_mod: "wrap64 x = (x + 2 ^ 63) mod 2 ^ 64 - 2 ^ 63"
  by (simp add: wrap64_signed_take_bit signed_take_bit_eq_take_bit_shift take_bit_eq_mod)

lemma wrap64_id [go_int, simp]: "int64 x \<Longrightarrow> wrap64 x = x"
  by (simp add: wrap64_mod int64_def)

lemma int64_wrap64 [go_int, simp, intro]: "int64 (wrap64 x)"
  unfolding int64_def wrap64_mod
  using pos_mod_bound [of "2 ^ 64" "x + 2 ^ 63"] pos_mod_sign [of "2 ^ 64" "x + 2 ^ 63"] by simp

lemma wrap64_overflow: "wrap64 (max_int64 + 1) = min_int64"
  by (simp add: wrap64_mod)

lemma int64_between: "int64 a \<Longrightarrow> int64 b \<Longrightarrow> a \<le> x \<Longrightarrow> x \<le> b \<Longrightarrow> int64 x"
  by (auto simp: int64_def)

lemma int64_Suc_below: "int64 b \<Longrightarrow> int64 x \<Longrightarrow> x < b \<Longrightarrow> int64 (x + 1)"
  by (auto simp: int64_def)

lemma Suc_nat_plus1: "0 \<le> x \<Longrightarrow> Suc (nat x) = nat (x + 1)"
  by linarith

lemma wrap64_succ_below: "int64 b \<Longrightarrow> int64 x \<Longrightarrow> x < b \<Longrightarrow> wrap64 (x + 1) = x + 1"
  by (simp add: int64_Suc_below)

section \<open>Time and durations\<close>

type_synonym time = int
type_synonym duration = int

text \<open>A sequence of readings of the clock: \<open>ts i\<close> is what call number \<open>i\<close> of
  \<open>time.Now()\<close> inside one operation returns.\<close>

type_synonym clock = "nat \<Rightarrow> time"

abbreviation Second :: duration where "Second \<equiv> 1000000000"
abbreviation Minute :: duration where "Minute \<equiv> 60000000000"
abbreviation Hour :: duration where "Hour \<equiv> 3600000000000"

text \<open>The zero \<open>time.Time\<close>.\<close>

definition zero_time :: time where
  "zero_time = - 62135596800 * Second"

text \<open>\<open>t.Sub(u)\<close> saturates at the limits of a \<open>Duration\<close>.\<close>

definition time_Sub :: "time \<Rightarrow> time \<Rightarrow> duration" where
  "time_Sub t u = max min_int64 (min max_int64 (t - u))"

definition time_Add :: "time \<Rightarrow> duration \<Rightarrow> time" where
  "time_Add t d = t + d"

text \<open>\<open>t.Unix()\<close>: whole seconds since the epoch, rounded down.\<close>

definition time_Unix :: "time \<Rightarrow> int" where
  "time_Unix t = t div Second"

lemma int64_time_Sub [go_time, simp, intro]: "int64 (time_Sub t u)"
  by (auto simp: time_Sub_def int64_def)

lemma time_Sub_greater [go_time]:
  "int64 d \<Longrightarrow> d < max_int64 \<Longrightarrow> d < time_Sub t u \<longleftrightarrow> u + d < t"
  by (auto simp: time_Sub_def int64_def)

lemma time_Sub_le [go_time]: "min_int64 \<le> d \<Longrightarrow> t \<le> u + d \<Longrightarrow> time_Sub t u \<le> d"
  by (auto simp: time_Sub_def)

lemma time_Sub_exact [go_time]: "int64 (t - u) \<Longrightarrow> time_Sub t u = t - u"
  by (auto simp: time_Sub_def int64_def)

section \<open>Errors and panics\<close>

datatype go_error =
    Sentinel string
  | Errors_New string
  | Errorf string go_error

datatype panic =
    IndexOutOfRange
  | IntegerDivideByZero
  | NilDereference
  | CloseOfClosedChannel
  | AbortHandler
  | InterfaceConversion
  | RouteConflict

type_synonym 'a outcome = "panic + 'a"

section \<open>Lists\<close>

text \<open>A Go slice indexed by a signed integer: out of range is a panic.\<close>

definition slice_index :: "'a list \<Rightarrow> int \<Rightarrow> 'a outcome" where
  "slice_index xs i =
     (if 0 \<le> i \<and> i < int (length xs) then Inr (xs ! nat i) else Inl IndexOutOfRange)"

lemma slice_index_Inr [simp]:
  "0 \<le> i \<Longrightarrow> i < int (length xs) \<Longrightarrow> slice_index xs i = Inr (xs ! nat i)"
  by (simp add: slice_index_def)

lemma slice_index_in_set: "slice_index xs i = Inr x \<Longrightarrow> x \<in> set xs"
  by (auto simp: slice_index_def split: if_splits)

lemma count_list_map_inj:
  "inj_on f (insert x (set xs)) \<Longrightarrow> count_list (map f xs) (f x) = count_list xs x"
  by (induction xs) (auto simp: inj_on_def)

lemma map_of_map_Pair: "x \<in> set xs \<Longrightarrow> map_of (map (\<lambda>x. (x, f x)) xs) x = Some (f x)"
  by (induction xs) auto

end
