(* ===== verification/Systems.thy ===== *)
theory Systems
  imports Prelude
begin

text \<open>
  Runs of a labelled step relation, and the two interfaces under which the components
  with concurrent callers are verified: a system with an inductive invariant, and a
  forward simulation of one system by another.  The circuit breaker, the connection
  counters, the health checker and the request logger interpret them.
\<close>

inductive run :: "('s \<Rightarrow> 'e \<Rightarrow> 's \<Rightarrow> bool) \<Rightarrow> 's \<Rightarrow> 'e list \<Rightarrow> 's \<Rightarrow> bool"
  for step :: "'s \<Rightarrow> 'e \<Rightarrow> 's \<Rightarrow> bool" where
  run_Nil: "run step s [] s"
| run_snoc: "run step s es t \<Longrightarrow> step t e u \<Longrightarrow> run step s (es @ [e]) u"

inductive_cases run_NilE: "run step s [] t"
inductive_cases run_snocE: "run step s (es @ [e]) u"

lemma run_Nil_iff [simp]: "run step s [] t \<longleftrightarrow> t = s"
  by (auto elim: run_NilE intro: run_Nil)

lemma run_snoc_iff: "run step s (es @ [e]) u \<longleftrightarrow> (\<exists>t. run step s es t \<and> step t e u)"
  by (auto elim: run_snocE intro: run_snoc)

lemma run_single [simp]: "run step s [e] u \<longleftrightarrow> step s e u"
  using run_snoc_iff [of step s "[]" e u] by simp

lemma run_append: "run step s (es @ fs) u \<longleftrightarrow> (\<exists>t. run step s es t \<and> run step t fs u)"
proof (induction fs arbitrary: u rule: rev_induct)
  case Nil
  then show ?case by simp
next
  case (snoc f fs)
  have "run step s (es @ fs @ [f]) u \<longleftrightarrow> (\<exists>v. run step s (es @ fs) v \<and> step v f u)"
    using run_snoc_iff [of step s "es @ fs" f u] by simp
  then show ?case
    unfolding snoc.IH run_snoc_iff by blast
qed

lemma run_Cons: "run step s (e # es) u \<longleftrightarrow> (\<exists>t. step s e t \<and> run step t es u)"
  using run_append [of step s "[e]" es u] by simp

section \<open>Invariants\<close>

locale invariant_system =
  fixes init :: "'s \<Rightarrow> bool"
    and step :: "'s \<Rightarrow> 'e \<Rightarrow> 's \<Rightarrow> bool"
    and inv :: "'s \<Rightarrow> bool"
  assumes inv_init: "init s \<Longrightarrow> inv s"
    and inv_step: "inv s \<Longrightarrow> step s e t \<Longrightarrow> inv t"
begin

lemma inv_run: "run step s es t \<Longrightarrow> inv s \<Longrightarrow> inv t"
  by (induction rule: run.induct) (auto intro: inv_step)

lemma inv_reachable: "init s \<Longrightarrow> run step s es t \<Longrightarrow> inv t"
  by (rule inv_run [OF _ inv_init])

end

section \<open>Forward simulation\<close>

text \<open>
  \<open>spec\<close> is the abstract system, \<open>abs\<close> the abstraction of a concrete state; every
  concrete step from a state that satisfies the invariant is a step of \<open>spec\<close> with the
  same label.
\<close>

locale simulation = invariant_system +
  fixes spec :: "'a \<Rightarrow> 'e \<Rightarrow> 'a \<Rightarrow> bool"
    and abs :: "'s \<Rightarrow> 'a"
  assumes sim_step: "inv s \<Longrightarrow> step s e t \<Longrightarrow> spec (abs s) e (abs t)"
begin

lemma sim_run: "run step s es t \<Longrightarrow> inv s \<Longrightarrow> run spec (abs s) es (abs t)"
proof (induction rule: run.induct)
  case (run_Nil s)
  then show ?case by simp
next
  case (run_snoc s es t e u)
  then have "inv t" by (blast intro: inv_run)
  with run_snoc show ?case by (blast intro: run.run_snoc sim_step)
qed

lemma sim_reachable: "init s \<Longrightarrow> run step s es t \<Longrightarrow> run spec (abs s) es (abs t)"
  by (rule sim_run [OF _ inv_init])

end

end
