(* ===== verification/CircuitBreaker.thy ===== *)
theory CircuitBreaker
  imports Systems
begin

text \<open>
  The circuit breaker of \<open>src/internal/circuitbreaker\<close>: its states, \<open>New\<close>, the two
  critical sections of \<open>Call\<close>, \<open>Reset\<close> and \<open>Metrics\<close>.  \<open>Call\<close> holds the mutex before
  and after it runs the protected function, not while it runs, so the concurrent
  behaviour is a step relation with one step for each critical section (\<open>cb_step\<close>).
  The lemmas show the invariant of the counters under every interleaving, the
  simulation of a three-phase specification, and when the breaker opens, rejects,
  recovers and closes.
\<close>

section \<open>The states\<close>

datatype State = StateClosed | StateOpen | StateHalfOpen

fun State_String :: "State \<Rightarrow> string" where
  "State_String StateClosed = ''closed''"
| "State_String StateOpen = ''open''"
| "State_String StateHalfOpen = ''half-open''"

section \<open>The breaker\<close>

text \<open>The mutex \<open>mu\<close> has no field: each definition below is one critical section.\<close>

record CircuitBreaker =
  state :: State
  failureCount :: int
  successCount :: int
  lastFailureTime :: time
  lastStateChange :: time
  maxFailures :: int
  cb_timeout :: duration
  halfOpenSuccess :: int

record CBConfig =
  MaxFailures :: int
  Timeout :: duration
  HalfOpenSuccess :: int

definition ErrCircuitOpen :: go_error where
  "ErrCircuitOpen = Sentinel ''circuit breaker is open''"

text \<open>\<open>New\<close>: a configuration value that is not positive is replaced by its default.\<close>

definition CircuitBreaker_New :: "CBConfig \<Rightarrow> time \<Rightarrow> CircuitBreaker" where
  "CircuitBreaker_New cfg now =
     (let mf = (if MaxFailures cfg \<le> 0 then 5 else MaxFailures cfg);
          to = (if Timeout cfg \<le> 0 then 30 * Second else Timeout cfg);
          hs = (if HalfOpenSuccess cfg \<le> 0 then 1 else HalfOpenSuccess cfg)
      in \<lparr>state = StateClosed, failureCount = 0, successCount = 0,
          lastFailureTime = zero_time, lastStateChange = now,
          maxFailures = mf, cb_timeout = to, halfOpenSuccess = hs\<rparr>)"

definition setState :: "State \<Rightarrow> time \<Rightarrow> CircuitBreaker \<Rightarrow> CircuitBreaker" where
  "setState newState now cb =
     (if state cb \<noteq> newState then cb\<lparr>state := newState, lastStateChange := now\<rparr> else cb)"

definition onFailure :: "time \<Rightarrow> time \<Rightarrow> CircuitBreaker \<Rightarrow> CircuitBreaker" where
  "onFailure now now' cb0 =
     (let cb = cb0\<lparr>failureCount := wrap64 (failureCount cb0 + 1), lastFailureTime := now\<rparr>
      in if state cb = StateHalfOpen then (setState StateOpen now' cb)\<lparr>successCount := 0\<rparr>
         else if failureCount cb \<ge> maxFailures cb then setState StateOpen now' cb
         else cb)"

definition onSuccess :: "time \<Rightarrow> CircuitBreaker \<Rightarrow> CircuitBreaker" where
  "onSuccess now cb0 =
     (case state cb0 of
        StateHalfOpen \<Rightarrow>
          (let cb = cb0\<lparr>successCount := wrap64 (successCount cb0 + 1)\<rparr>
           in if successCount cb \<ge> halfOpenSuccess cb
              then (setState StateClosed now cb)\<lparr>failureCount := 0\<rparr> else cb)
      | StateClosed \<Rightarrow> cb0\<lparr>failureCount := 0\<rparr>
      | StateOpen \<Rightarrow> cb0)"

text \<open>
  \<open>Call\<close>, first critical section: \<open>None\<close> is the early return of \<open>ErrCircuitOpen\<close>,
  \<open>Some cb\<close> lets the call through.  \<open>now\<close> is read by \<open>time.Since\<close>, \<open>now'\<close> by
  \<open>setState\<close>.
\<close>

definition Call_begin :: "time \<Rightarrow> time \<Rightarrow> CircuitBreaker \<Rightarrow> CircuitBreaker option" where
  "Call_begin now now' cb =
     (if state cb = StateOpen
      then if time_Sub now (lastFailureTime cb) > cb_timeout cb
           then Some ((setState StateHalfOpen now' cb)\<lparr>successCount := 0\<rparr>)
           else None
      else Some cb)"

text \<open>\<open>Call\<close>, second critical section, given what the protected function returned.\<close>

definition Call_end :: "go_error option \<Rightarrow> time \<Rightarrow> time \<Rightarrow> CircuitBreaker \<Rightarrow> CircuitBreaker" where
  "Call_end err now now' cb =
     (case err of Some _ \<Rightarrow> onFailure now now' cb | None \<Rightarrow> onSuccess now cb)"

text \<open>
  \<open>Call\<close> with no other caller in between: \<open>fn\<close> acts on a state of its own and returns
  an optional error or panics, \<open>ts\<close> gives the four clock readings in the order the code
  takes them.  A panic leaves \<open>Call\<close> between its two critical sections: neither a failure
  nor a success is counted.
\<close>

definition Call ::
  "clock \<Rightarrow> ('w \<Rightarrow> go_error option outcome \<times> 'w) \<Rightarrow> 'w \<Rightarrow> CircuitBreaker \<Rightarrow>
   (go_error option outcome \<times> 'w) \<times> CircuitBreaker" where
  "Call ts fn w cb =
     (case Call_begin (ts 0) (ts 1) cb of
        None \<Rightarrow> ((Inr (Some ErrCircuitOpen), w), cb)
      | Some cb' \<Rightarrow>
          (case fn w of
             (Inl p, w') \<Rightarrow> ((Inl p, w'), cb')
           | (Inr err, w') \<Rightarrow> ((Inr err, w'), Call_end err (ts 2) (ts 3) cb')))"

definition CircuitBreaker_Reset :: "time \<Rightarrow> CircuitBreaker \<Rightarrow> CircuitBreaker" where
  "CircuitBreaker_Reset now cb =
     cb\<lparr>state := StateClosed, failureCount := 0, successCount := 0, lastStateChange := now\<rparr>"

definition CircuitBreaker_State :: "CircuitBreaker \<Rightarrow> State" where
  "CircuitBreaker_State cb = state cb"

record Metrics =
  m_State :: State
  m_FailureCount :: int
  m_SuccessCount :: int
  m_LastFailureTime :: time
  m_LastStateChange :: time

definition CircuitBreaker_Metrics :: "CircuitBreaker \<Rightarrow> Metrics" where
  "CircuitBreaker_Metrics cb =
     \<lparr>m_State = state cb, m_FailureCount = failureCount cb, m_SuccessCount = successCount cb,
      m_LastFailureTime = lastFailureTime cb, m_LastStateChange = lastStateChange cb\<rparr>"

lemmas cb_defs = setState_def onFailure_def onSuccess_def Call_begin_def Call_end_def
  CircuitBreaker_Reset_def

section \<open>Concurrent callers\<close>

text \<open>
  \<open>inflight\<close> counts the calls between their two critical sections.  A call that was let
  through ends later, or panics and is abandoned, whatever other calls did to the breaker
  in the meantime.
\<close>

record cb_sys =
  breaker :: CircuitBreaker
  inflight :: nat

datatype cb_event =
    Admitted time time
  | Rejected time
  | Ended "go_error option" time time
  | Abandoned
  | Was_reset time

inductive cb_step :: "cb_sys \<Rightarrow> cb_event \<Rightarrow> cb_sys \<Rightarrow> bool" where
  admit: "Call_begin now now' (breaker s) = Some cb \<Longrightarrow>
    cb_step s (Admitted now now') \<lparr>breaker = cb, inflight = Suc (inflight s)\<rparr>"
| reject: "Call_begin now now' (breaker s) = None \<Longrightarrow> cb_step s (Rejected now) s"
| finish: "inflight s = Suc n \<Longrightarrow>
    cb_step s (Ended err now now')
      \<lparr>breaker = Call_end err now now' (breaker s), inflight = n\<rparr>"
| abandon: "inflight s = Suc n \<Longrightarrow> cb_step s Abandoned (s\<lparr>inflight := n\<rparr>)"
| reset: "cb_step s (Was_reset now)
      (s\<lparr>breaker := CircuitBreaker_Reset now (breaker s)\<rparr>)"

inductive_cases cb_step_AdmittedE: "cb_step s (Admitted now now') t"
inductive_cases cb_step_RejectedE: "cb_step s (Rejected now) t"
inductive_cases cb_step_EndedE: "cb_step s (Ended err now now') t"
inductive_cases cb_step_resetE: "cb_step s (Was_reset now) t"

definition cb_init :: "cb_sys \<Rightarrow> bool" where
  "cb_init s \<longleftrightarrow>
     (\<exists>cfg now. int64 (MaxFailures cfg) \<and> int64 (Timeout cfg) \<and> int64 (HalfOpenSuccess cfg) \<and>
        s = \<lparr>breaker = CircuitBreaker_New cfg now, inflight = 0\<rparr>)"

section \<open>The invariant\<close>

text \<open>
  The limits are positive; the counters are 64-bit values; while the circuit is closed
  the failure counter is below its limit, and while it is half-open the success counter
  is below its.  Only the open state lets a counter wrap around, and there its value is
  not read.
\<close>

definition cb_inv :: "CircuitBreaker \<Rightarrow> bool" where
  "cb_inv cb \<longleftrightarrow>
     0 < maxFailures cb \<and> 0 < cb_timeout cb \<and> 0 < halfOpenSuccess cb \<and>
     int64 (maxFailures cb) \<and> int64 (cb_timeout cb) \<and> int64 (halfOpenSuccess cb) \<and>
     int64 (failureCount cb) \<and> int64 (successCount cb) \<and>
     (state cb = StateClosed \<longrightarrow> 0 \<le> failureCount cb \<and> failureCount cb < maxFailures cb) \<and>
     (state cb = StateHalfOpen \<longrightarrow> 0 \<le> successCount cb \<and> successCount cb < halfOpenSuccess cb)"

lemma int64_zero [simp]: "int64 0"
  by (simp add: int64_def)

lemma cb_inv_New:
  "int64 (MaxFailures cfg) \<Longrightarrow> int64 (Timeout cfg) \<Longrightarrow> int64 (HalfOpenSuccess cfg) \<Longrightarrow>
   cb_inv (CircuitBreaker_New cfg now)"
  by (auto simp: cb_inv_def CircuitBreaker_New_def Let_def int64_def)

lemma cb_inv_begin: "cb_inv cb \<Longrightarrow> Call_begin now now' cb = Some cb' \<Longrightarrow> cb_inv cb'"
  by (auto simp: cb_inv_def cb_defs split: if_splits)

lemma cb_inv_onFailure: "cb_inv cb \<Longrightarrow> cb_inv (onFailure now now' cb)"
  by (cases "state cb")
     (auto simp: cb_inv_def onFailure_def setState_def Let_def wrap64_succ_below)

lemma cb_inv_onSuccess: "cb_inv cb \<Longrightarrow> cb_inv (onSuccess now cb)"
  by (auto simp: cb_inv_def onSuccess_def setState_def Let_def wrap64_succ_below
           split: State.splits)

lemma cb_inv_end: "cb_inv cb \<Longrightarrow> cb_inv (Call_end err now now' cb)"
  by (simp add: Call_end_def cb_inv_onFailure cb_inv_onSuccess split: option.split)

lemma cb_inv_Reset: "cb_inv cb \<Longrightarrow> cb_inv (CircuitBreaker_Reset now cb)"
  by (auto simp: cb_inv_def CircuitBreaker_Reset_def)

lemmas cb_inv_intros = cb_inv_begin cb_inv_end cb_inv_Reset

lemma cb_inv_Call: "cb_inv cb \<Longrightarrow> Call ts fn w cb = (r, cb') \<Longrightarrow> cb_inv cb'"
  by (auto simp: Call_def intro: cb_inv_intros split: option.splits prod.splits sum.splits)

lemma cb_inv_step: "cb_inv (breaker s) \<Longrightarrow> cb_step s e t \<Longrightarrow> cb_inv (breaker t)"
  by (auto elim!: cb_step.cases intro: cb_inv_intros)

section \<open>The specification: three phases\<close>

text \<open>
  What the breaker promises, without its bookkeeping: closed after so many failures in a
  row, open since the last failure, or half-open after so many trial successes.
\<close>

datatype phase = Closed_after nat | Open_since time | Half_open_after nat

record cb_spec =
  phase :: phase
  pending :: nat
  lim_failures :: nat
  lim_timeout :: duration
  lim_successes :: nat

definition spec_failed :: "nat \<Rightarrow> time \<Rightarrow> phase \<Rightarrow> phase" where
  "spec_failed mf now p =
     (case p of
        Closed_after n \<Rightarrow> if Suc n < mf then Closed_after (Suc n) else Open_since now
      | _ \<Rightarrow> Open_since now)"

definition spec_succeeded :: "nat \<Rightarrow> phase \<Rightarrow> phase" where
  "spec_succeeded hs p =
     (case p of
        Closed_after _ \<Rightarrow> Closed_after 0
      | Open_since t \<Rightarrow> Open_since t
      | Half_open_after k \<Rightarrow> if Suc k < hs then Half_open_after (Suc k) else Closed_after 0)"

fun spec_admits :: "duration \<Rightarrow> time \<Rightarrow> phase \<Rightarrow> phase option" where
  "spec_admits to now (Open_since t) = (if t + to < now then Some (Half_open_after 0) else None)"
| "spec_admits to now p = Some p"

inductive spec_step :: "cb_spec \<Rightarrow> cb_event \<Rightarrow> cb_spec \<Rightarrow> bool" where
  "spec_admits (lim_timeout a) now (phase a) = Some p \<Longrightarrow>
    spec_step a (Admitted now now') (a\<lparr>phase := p, pending := Suc (pending a)\<rparr>)"
| "spec_admits (lim_timeout a) now (phase a) = None \<Longrightarrow> spec_step a (Rejected now) a"
| "pending a = Suc n \<Longrightarrow>
    spec_step a (Ended (Some err) now now')
      (a\<lparr>phase := spec_failed (lim_failures a) now (phase a), pending := n\<rparr>)"
| "pending a = Suc n \<Longrightarrow>
    spec_step a (Ended None now now')
      (a\<lparr>phase := spec_succeeded (lim_successes a) (phase a), pending := n\<rparr>)"
| "pending a = Suc n \<Longrightarrow> spec_step a Abandoned (a\<lparr>pending := n\<rparr>)"
| "spec_step a (Was_reset now) (a\<lparr>phase := Closed_after 0\<rparr>)"

definition phase_of :: "CircuitBreaker \<Rightarrow> phase" where
  "phase_of cb =
     (case state cb of
        StateClosed \<Rightarrow> Closed_after (nat (failureCount cb))
      | StateOpen \<Rightarrow> Open_since (lastFailureTime cb)
      | StateHalfOpen \<Rightarrow> Half_open_after (nat (successCount cb)))"

definition abs_cb :: "cb_sys \<Rightarrow> cb_spec" where
  "abs_cb s =
     \<lparr>phase = phase_of (breaker s), pending = inflight s,
      lim_failures = nat (maxFailures (breaker s)),
      lim_timeout = cb_timeout (breaker s),
      lim_successes = nat (halfOpenSuccess (breaker s))\<rparr>"

text \<open>The largest \<open>Duration\<close> is excluded: with it \<open>time.Since\<close> saturates at the
  timeout and never exceeds it.\<close>

definition cb_timed :: "cb_sys \<Rightarrow> bool" where
  "cb_timed s \<longleftrightarrow> cb_inv (breaker s) \<and> cb_timeout (breaker s) < max_int64"

lemma phase_of_end_failed:
  "cb_inv cb \<Longrightarrow> phase_of (onFailure now now' cb) =
     spec_failed (nat (maxFailures cb)) now (phase_of cb)"
  by (cases "state cb")
     (auto simp: phase_of_def spec_failed_def onFailure_def setState_def Let_def cb_inv_def
                 wrap64_succ_below Suc_nat_plus1)

lemma phase_of_end_succeeded:
  "cb_inv cb \<Longrightarrow> phase_of (onSuccess now cb) =
     spec_succeeded (nat (halfOpenSuccess cb)) (phase_of cb)"
  by (cases "state cb")
     (auto simp: phase_of_def spec_succeeded_def onSuccess_def setState_def Let_def cb_inv_def
                 wrap64_succ_below Suc_nat_plus1)

lemma phase_of_begin:
  assumes "cb_inv cb" and "cb_timeout cb < max_int64"
  shows "spec_admits (cb_timeout cb) now (phase_of cb) =
           map_option phase_of (Call_begin now now' cb)"
  using assms
  by (cases "state cb")
     (auto simp: phase_of_def Call_begin_def setState_def cb_inv_def time_Sub_greater)

lemma limits_frame [simp]:
  "maxFailures (Call_end err now now' cb) = maxFailures cb"
  "cb_timeout (Call_end err now now' cb) = cb_timeout cb"
  "halfOpenSuccess (Call_end err now now' cb) = halfOpenSuccess cb"
  "maxFailures (CircuitBreaker_Reset now cb) = maxFailures cb"
  "cb_timeout (CircuitBreaker_Reset now cb) = cb_timeout cb"
  "halfOpenSuccess (CircuitBreaker_Reset now cb) = halfOpenSuccess cb"
  by (simp_all add: cb_defs Let_def split: option.splits State.splits)

lemma limits_begin:
  "Call_begin now now' cb = Some cb' \<Longrightarrow>
     maxFailures cb' = maxFailures cb \<and> cb_timeout cb' = cb_timeout cb \<and>
     halfOpenSuccess cb' = halfOpenSuccess cb"
  by (auto simp: Call_begin_def setState_def split: if_splits)

interpretation breaker_system: invariant_system cb_init cb_step "\<lambda>s. cb_inv (breaker s)"
  by unfold_locales (auto simp: cb_init_def cb_inv_New intro: cb_inv_step)

lemma spec_step_abs:
  assumes "cb_timed s" and "cb_step s e t"
  shows "spec_step (abs_cb s) e (abs_cb t)"
  using assms(2,1)
proof cases
  case (admit now now' cb)
  with assms(1) have "spec_admits (cb_timeout (breaker s)) now (phase_of (breaker s)) = Some (phase_of cb)"
    using phase_of_begin [of "breaker s" now now'] by (simp add: cb_timed_def)
  then show ?thesis
    using admit limits_begin [OF admit(3)]
      spec_step.intros(1) [of "abs_cb s" now "phase_of cb" now'] by (simp add: abs_cb_def)
next
  case (reject now now')
  then show ?thesis
    using assms(1) phase_of_begin [of "breaker s" now now']
    by (auto simp: cb_timed_def abs_cb_def intro: spec_step.intros(2))
next
  case (finish n err now now')
  note limits = limits_frame(1-3) [of err now now' "breaker s"]
  from finish assms(1) limits show ?thesis
    using spec_step.intros(3) [of "abs_cb s" n _ now now'] spec_step.intros(4) [of "abs_cb s" n now now']
    by (cases err)
       (simp_all add: cb_timed_def abs_cb_def Call_end_def phase_of_end_failed
                      phase_of_end_succeeded)
next
  case (abandon n)
  then show ?thesis using spec_step.intros(5) [of "abs_cb s" n] by (simp add: abs_cb_def)
next
  case (reset now)
  then show ?thesis
    using spec_step.intros(6) [of "abs_cb s" now]
    by (simp add: abs_cb_def phase_of_def CircuitBreaker_Reset_def)
qed

lemma cb_timed_step: "cb_timed s \<Longrightarrow> cb_step s e t \<Longrightarrow> cb_timed t"
  unfolding cb_timed_def
  by (erule cb_step.cases) (auto intro: cb_inv_intros dest: limits_begin)

interpretation breaker_sim: simulation
  "\<lambda>s. cb_init s \<and> cb_timeout (breaker s) < max_int64" cb_step cb_timed spec_step abs_cb
proof unfold_locales
  fix s assume "cb_init s \<and> cb_timeout (breaker s) < max_int64"
  then show "cb_timed s"
    by (simp add: cb_timed_def breaker_system.inv_init)
qed (blast intro: cb_timed_step spec_step_abs)+

section \<open>Sequences of calls\<close>

text \<open>Calls one after the other; each gives its clock readings and what the protected
  function would return.\<close>

fun run_calls :: "(clock \<times> go_error option) list \<Rightarrow> CircuitBreaker \<Rightarrow> CircuitBreaker" where
  "run_calls [] cb = cb"
| "run_calls ((ts, r) # cs) cb = run_calls cs (snd (Call ts (Pair (Inr r)) () cb))"

lemma run_calls_append: "run_calls (cs @ ds) cb = run_calls ds (run_calls cs cb)"
  by (induction cs cb rule: run_calls.induct) auto

text \<open>The failures in a row at the end of a list of results.\<close>

definition streak :: "(clock \<times> go_error option) list \<Rightarrow> nat" where
  "streak cs = length (takeWhile (\<lambda>(ts, r). r \<noteq> None) (rev cs))"

lemma streak_simps [simp]:
  "streak [] = 0"
  "streak (cs @ [(ts, None)]) = 0"
  "streak (cs @ [(ts, Some e)]) = Suc (streak cs)"
  by (simp_all add: streak_def)

lemma Call_closed:
  "state cb = StateClosed \<Longrightarrow>
     snd (Call ts (Pair (Inr r)) () cb) = Call_end r (ts 2) (ts 3) cb"
  by (simp add: Call_def Call_begin_def)

lemma run_calls_closed:
  assumes "cb_inv cb" and "state cb = StateClosed" and "failureCount cb = 0"
    and "\<forall>k < length cs. int (streak (take k cs)) < maxFailures cb"
  shows "state (run_calls cs cb) =
           (if int (streak cs) < maxFailures cb then StateClosed else StateOpen) \<and>
         failureCount (run_calls cs cb) = int (streak cs) \<and>
         maxFailures (run_calls cs cb) = maxFailures cb \<and> cb_inv (run_calls cs cb)"
  using assms
proof (induction cs rule: rev_induct)
  case Nil
  then show ?case by (simp add: cb_inv_def)
next
  case (snoc c cs)
  obtain ts r where c: "c = (ts, r)" by (cases c)
  from snoc.prems(4) have below: "int (streak cs) < maxFailures cb"
    by (auto dest: spec [of _ "length cs"])
  have "\<forall>k < length cs. int (streak (take k cs)) < maxFailures cb"
    using snoc.prems(4) by (auto simp: less_SucI)
  with snoc have IH: "state (run_calls cs cb) = StateClosed"
      "failureCount (run_calls cs cb) = int (streak cs)"
      "maxFailures (run_calls cs cb) = maxFailures cb" "cb_inv (run_calls cs cb)"
    using below by simp_all
  have eq: "run_calls (cs @ [(ts, r)]) cb = Call_end r (ts 2) (ts 3) (run_calls cs cb)"
    by (simp add: run_calls_append Call_closed [OF IH(1)])
  have inv: "cb_inv (run_calls (cs @ [(ts, r)]) cb)"
    unfolding eq by (rule cb_inv_end [OF IH(4)])
  have "wrap64 (int (streak cs) + 1) = int (streak cs) + 1"
    using IH below by (intro wrap64_succ_below [of "maxFailures cb"]) (auto simp: cb_inv_def)
  moreover have "0 < maxFailures cb" using snoc.prems(1) by (simp add: cb_inv_def)
  ultimately show ?case
    using IH(1-3) inv eq unfolding c
    by (cases r) (simp_all add: Call_end_def onFailure_def onSuccess_def setState_def Let_def)
qed

section \<open>A breaker to try things on\<close>

definition demo_cb :: CircuitBreaker where
  "demo_cb = CircuitBreaker_New \<lparr>MaxFailures = 2, Timeout = 10, HalfOpenSuccess = 2\<rparr> 0"

definition demo_open :: CircuitBreaker where
  "demo_open = demo_cb\<lparr>state := StateOpen, failureCount := 2, lastFailureTime := 5,
                       lastStateChange := 5\<rparr>"

lemma demo_cb_eq:
  "demo_cb = \<lparr>state = StateClosed, failureCount = 0, successCount = 0,
     lastFailureTime = zero_time, lastStateChange = 0, maxFailures = 2, cb_timeout = 10,
     halfOpenSuccess = 2\<rparr>"
  by (simp add: demo_cb_def CircuitBreaker_New_def)

lemma demo_cb_init: "cb_init \<lparr>breaker = demo_cb, inflight = 0\<rparr>"
  unfolding cb_init_def demo_cb_def
  by (rule exI [of _ "\<lparr>MaxFailures = 2, Timeout = 10, HalfOpenSuccess = 2\<rparr>"])
     (auto simp: int64_def)

lemma demo_cb_run:
  "run cb_step \<lparr>breaker = demo_cb, inflight = 0\<rparr> [Admitted 1 1]
     \<lparr>breaker = demo_cb, inflight = 1\<rparr>"
  using cb_step.admit [of 1 1 "\<lparr>breaker = demo_cb, inflight = 0\<rparr>" demo_cb]
  by (simp add: Call_begin_def demo_cb_eq)

lemma demo_inv: "cb_inv demo_cb" "cb_inv demo_open"
  by (simp_all add: cb_inv_def demo_open_def demo_cb_eq int64_def)

section \<open>Properties\<close>

text \<open>whatever concurrent callers, completions and manual resets do, in every
  reachable state of a breaker built by \<open>New\<close> the limits are positive, the counters are
  64-bit values, a closed breaker has counted fewer failures than its limit and a
  half-open one fewer successes than its limit (even though the counters of an open
  breaker may wrap around).\<close>

theorem breaker_reachable_inv:
  assumes "cb_init s" and "run cb_step s es t"
  shows "cb_inv (breaker t)"
  using assms by (rule breaker_system.inv_reachable)


theorem breaker_reachable_inv_witness:
  "cb_init \<lparr>breaker = demo_cb, inflight = 0\<rparr> \<and> cb_inv demo_cb"
  using breaker_reachable_inv [OF demo_cb_init demo_cb_run] demo_cb_init by simp

text \<open>C8: the breaker refines the three-phase specification: every interleaving of
  admissions, rejections, completions and resets is a run of the specification with the
  same events, for every timeout below the largest \<open>Duration\<close>.\<close>

theorem breaker_refines_spec:
  assumes "cb_init s" and "cb_timeout (breaker s) < max_int64" and "run cb_step s es t"
  shows "run spec_step (abs_cb s) es (abs_cb t)"
  using assms by (intro breaker_sim.sim_reachable) simp_all


theorem breaker_refines_spec_witness:
  "run spec_step (abs_cb \<lparr>breaker = demo_cb, inflight = 0\<rparr>) [Admitted 1 1]
     (abs_cb \<lparr>breaker = demo_cb, inflight = 1\<rparr>)"
  by (rule breaker_refines_spec [OF demo_cb_init _ demo_cb_run]) (simp add: demo_cb_eq)

text \<open>C26: a closed breaker with no failure counted opens exactly when the calls end in
  \<open>maxFailures\<close> failures in a row: as long as no proper prefix of the calls does, it is
  open after them if they do and closed otherwise, with the length of the last streak of
  failures as its counter.\<close>

theorem breaker_opens_on_streak:
  assumes "cb_inv cb" and "state cb = StateClosed" and "failureCount cb = 0"
    and "\<forall>k < length cs. int (streak (take k cs)) < maxFailures cb"
  shows "state (run_calls cs cb) =
           (if int (streak cs) < maxFailures cb then StateClosed else StateOpen) \<and>
         failureCount (run_calls cs cb) = int (streak cs)"
  using run_calls_closed [OF assms] by simp


theorem breaker_opens_on_streak_witness:
  "state (run_calls [(\<lambda>_. 1, Some (Errors_New ''e'')), (\<lambda>_. 2, None),
     (\<lambda>_. 3, Some (Errors_New ''e'')), (\<lambda>_. 4, Some (Errors_New ''e''))] demo_cb) = StateOpen"
  using breaker_opens_on_streak [OF demo_inv(1), of
    "[(\<lambda>_. 1, Some (Errors_New ''e'')), (\<lambda>_. 2, None),
      (\<lambda>_. 3, Some (Errors_New ''e'')), (\<lambda>_. 4, Some (Errors_New ''e''))]"]
  by (simp add: demo_cb_eq streak_def less_Suc_eq numeral_eq_Suc)

lemma open_step:
  assumes "cb_step s e t" and "state (breaker s) = StateOpen"
    and "T \<le> lastFailureTime (breaker s)" and "cb_timeout (breaker s) = d"
    and "0 < d" and "d < max_int64"
    and "\<forall>n n'. e = Admitted n n' \<longrightarrow> n \<le> T + d"
    and "\<forall>x n n'. e = Ended (Some x) n n' \<longrightarrow> T \<le> n"
    and "\<forall>n. e \<noteq> Was_reset n"
  shows "(\<forall>n n'. e \<noteq> Admitted n n') \<and> state (breaker t) = StateOpen \<and>
         T \<le> lastFailureTime (breaker t) \<and> cb_timeout (breaker t) = d"
  using assms
proof cases
  case (admit now now' cb)
  then have "time_Sub now (lastFailureTime (breaker s)) > d"
    using assms(2,4) by (auto simp: Call_begin_def split: if_splits)
  then have "lastFailureTime (breaker s) + d < now"
    using assms(5,6) by (simp add: time_Sub_greater int64_def)
  with admit assms(3,7) show ?thesis by auto
next
  case (finish n err now now')
  with assms show ?thesis
    by (cases err) (auto simp: Call_end_def onFailure_def onSuccess_def setState_def Let_def)
qed (use assms in auto)

text \<open>an open breaker protects the backend for the whole timeout: as long as nobody
  resets it, no call is let through before the timeout has passed since the last failure
  it recorded, whatever the calls still in flight return and in whatever order (their
  failures are recorded at times no earlier than that last failure).\<close>

theorem open_breaker_admits_nothing:
  assumes "run cb_step s es t" and "state (breaker s) = StateOpen"
    and "0 < cb_timeout (breaker s)" and "cb_timeout (breaker s) < max_int64"
    and "\<forall>n n'. Admitted n n' \<in> set es \<longrightarrow>
           n \<le> lastFailureTime (breaker s) + cb_timeout (breaker s)"
    and "\<forall>x n n'. Ended (Some x) n n' \<in> set es \<longrightarrow> lastFailureTime (breaker s) \<le> n"
    and "\<forall>n. Was_reset n \<notin> set es"
  shows "(\<forall>n n'. Admitted n n' \<notin> set es) \<and> state (breaker t) = StateOpen"
proof -
  let ?T = "lastFailureTime (breaker s)" and ?d = "cb_timeout (breaker s)"
  have "(\<forall>n n'. Admitted n n' \<notin> set es) \<and> state (breaker t) = StateOpen \<and>
        ?T \<le> lastFailureTime (breaker t) \<and> cb_timeout (breaker t) = ?d"
    using assms(1) assms(5-7)
  proof (induction es arbitrary: t rule: rev_induct)
    case Nil
    then show ?case using assms(2) by simp
  next
    case (snoc e es)
    from snoc.prems(1) obtain u where u: "run cb_step s es u" and e: "cb_step u e t"
      unfolding run_snoc_iff by blast
    have "(\<forall>n n'. Admitted n n' \<notin> set es) \<and> state (breaker u) = StateOpen \<and>
        ?T \<le> lastFailureTime (breaker u) \<and> cb_timeout (breaker u) = ?d"
      by (rule snoc.IH [OF u]) (use snoc.prems(2-4) in auto)
    then have IH: "\<forall>n n'. Admitted n n' \<notin> set es" "state (breaker u) = StateOpen"
        "?T \<le> lastFailureTime (breaker u)" "cb_timeout (breaker u) = ?d"
      by blast+
    have "(\<forall>n n'. e \<noteq> Admitted n n') \<and> state (breaker t) = StateOpen \<and>
          ?T \<le> lastFailureTime (breaker t) \<and> cb_timeout (breaker t) = ?d"
      by (rule open_step [OF e IH(2-4) assms(3,4)]) (use snoc.prems(2-4) in auto)
    with IH(1) show ?case by auto
  qed
  then show ?thesis by blast
qed


theorem open_breaker_admits_nothing_witness:
  "(\<forall>n n'. Admitted n n' \<notin> set [Rejected 15, Ended (Some (Errors_New ''e'')) 9 9]) \<and>
   lastFailureTime (Call_end (Some (Errors_New ''e'')) 9 9 demo_open) = 9"
proof -
  let ?s = "\<lparr>breaker = demo_open, inflight = 1\<rparr>"
  have "cb_step ?s (Rejected 15) ?s"
    using cb_step.reject [of 15 15 ?s]
    by (simp add: Call_begin_def demo_open_def demo_cb_eq time_Sub_def)
  moreover have "cb_step ?s (Ended (Some (Errors_New ''e'')) 9 9)
      \<lparr>breaker = Call_end (Some (Errors_New ''e'')) 9 9 demo_open, inflight = 0\<rparr>"
    using cb_step.finish [of ?s 0] by simp
  ultimately have r: "run cb_step ?s [Rejected 15, Ended (Some (Errors_New ''e'')) 9 9]
      \<lparr>breaker = Call_end (Some (Errors_New ''e'')) 9 9 demo_open, inflight = 0\<rparr>"
    by (auto simp: run_Cons)
  from open_breaker_admits_nothing [OF r] show ?thesis
    by (simp add: demo_open_def demo_cb_eq Call_end_def onFailure_def setState_def int64_def Let_def)
qed

lemma run_calls_halfopen:
  assumes "cb_inv cb" and "state cb = StateHalfOpen"
    and "\<forall>c \<in> set cs. snd c = None" and "successCount cb + int (length cs) \<le> halfOpenSuccess cb"
  shows "(if successCount cb + int (length cs) < halfOpenSuccess cb
          then state (run_calls cs cb) = StateHalfOpen \<and>
               successCount (run_calls cs cb) = successCount cb + int (length cs)
          else state (run_calls cs cb) = StateClosed \<and> failureCount (run_calls cs cb) = 0)"
  using assms
proof (induction cs cb rule: run_calls.induct)
  case (1 cb)
  then show ?case by (simp add: cb_inv_def)
next
  case (2 ts r cs cb)
  define cb' where "cb' = onSuccess (ts 2) cb"
  have call: "snd (Call ts (Pair (Inr r)) () cb) = cb'"
    using 2(3,4) by (simp add: cb'_def Call_def Call_begin_def Call_end_def)
  have inv: "cb_inv cb'" unfolding cb'_def by (rule cb_inv_onSuccess [OF 2(2)])
  have w: "wrap64 (successCount cb + 1) = successCount cb + 1"
    using 2(2,3) by (intro wrap64_succ_below [of "halfOpenSuccess cb"]) (auto simp: cb_inv_def)
  show ?case
  proof (cases "successCount cb + 1 < halfOpenSuccess cb")
    case True
    then have "state cb' = StateHalfOpen" "successCount cb' = successCount cb + 1"
        "halfOpenSuccess cb' = halfOpenSuccess cb"
      using 2(3) w by (simp_all add: cb'_def onSuccess_def Let_def)
    with 2(1) [unfolded call] inv 2(4,5) call show ?thesis by (simp add: add.assoc)
  next
    case False
    then have "cs = []" using 2(5) by (cases cs) auto
    with False 2(3) w call show ?thesis by (simp add: cb'_def onSuccess_def setState_def Let_def)
  qed
qed

text \<open>C28: an open breaker recovers: once the timeout has passed since its last failure,
  successful calls bring it to half-open and, at the \<open>halfOpenSuccess\<close>-th one and not
  before, to closed with no failure counted.\<close>

theorem breaker_recovers:
  assumes "cb_inv cb" and "state cb = StateOpen" and "cb_timeout cb < max_int64"
    and "cs = (ts, r) # ds" and "lastFailureTime cb + cb_timeout cb < ts 0"
    and "\<forall>c \<in> set cs. snd c = None" and "int (length cs) \<le> halfOpenSuccess cb"
  shows "(if int (length cs) < halfOpenSuccess cb
          then state (run_calls cs cb) = StateHalfOpen \<and>
               successCount (run_calls cs cb) = int (length cs)
          else state (run_calls cs cb) = StateClosed \<and> failureCount (run_calls cs cb) = 0)"
proof -
  define hb where "hb = (setState StateHalfOpen (ts 1) cb)\<lparr>successCount := 0\<rparr>"
  have b: "Call_begin (ts 0) (ts 1) cb = Some hb"
    using assms(1-3,5) by (simp add: Call_begin_def hb_def time_Sub_greater cb_inv_def)
  then have inv: "cb_inv hb" using assms(1) by (blast intro: cb_inv_begin)
  have h: "state hb = StateHalfOpen" "successCount hb = 0" "halfOpenSuccess hb = halfOpenSuccess cb"
    using assms(2) by (simp_all add: hb_def setState_def)
  then have "Call_begin (ts 0) (ts 1) hb = Some hb" by (simp add: Call_begin_def)
  with b have "run_calls cs cb = run_calls cs hb"
    by (simp add: assms(4) Call_def)
  with run_calls_halfopen [OF inv h(1) assms(6)] h assms(7) show ?thesis by simp
qed


theorem breaker_recovers_witness:
  "state (run_calls [(\<lambda>_. 16, None)] demo_open) = StateHalfOpen \<and>
   state (run_calls [(\<lambda>_. 16, None), (\<lambda>_. 17, None)] demo_open) = StateClosed"
  using breaker_recovers [OF demo_inv(2), of "[(\<lambda>_. 16, None)]" "\<lambda>_. 16" None "[]"]
    breaker_recovers [OF demo_inv(2), of "[(\<lambda>_. 16, None), (\<lambda>_. 17, None)]" "\<lambda>_. 16" None
      "[(\<lambda>_. 17, None)]"]
  by (simp add: demo_open_def demo_cb_eq)

text \<open>a half-open breaker does not limit the calls it lets through: from any
  half-open state, any number of callers is admitted one after the other before the
  first of them completes, and the breaker stays as it was.\<close>

theorem half_open_admits_all:
  assumes "state cb = StateHalfOpen"
  shows "run cb_step \<lparr>breaker = cb, inflight = k\<rparr> (replicate n (Admitted now now'))
           \<lparr>breaker = cb, inflight = k + n\<rparr>"
proof (induction n arbitrary: k)
  case 0
  then show ?case by simp
next
  case (Suc n)
  have "cb_step \<lparr>breaker = cb, inflight = k\<rparr> (Admitted now now') \<lparr>breaker = cb, inflight = Suc k\<rparr>"
    using cb_step.admit [of now now' "\<lparr>breaker = cb, inflight = k\<rparr>" cb] assms
    by (simp add: Call_begin_def)
  with Suc.IH [of "Suc k"] show ?case by (auto simp: run_Cons)
qed


theorem half_open_admits_all_witness:
  "state (demo_cb\<lparr>state := StateHalfOpen\<rparr>) = StateHalfOpen \<and>
   run cb_step \<lparr>breaker = demo_cb\<lparr>state := StateHalfOpen\<rparr>, inflight = 0\<rparr>
     (replicate 100 (Admitted 1 1)) \<lparr>breaker = demo_cb\<lparr>state := StateHalfOpen\<rparr>, inflight = 100\<rparr>"
  using half_open_admits_all [of "demo_cb\<lparr>state := StateHalfOpen\<rparr>" 0 100 1 1] by simp

end
