(* ===== verification/LoadBalancer.thy ===== *)
theory LoadBalancer
  imports Systems "HOL-Library.Multiset"
begin

text \<open>
  The load-balancing strategies of \<open>src/internal/loadbalancer\<close>: round robin, random and
  least connections, the \<open>Strategy\<close> interface as a locale that each of them interprets,
  and the factory \<open>NewStrategy\<close>.  The lemmas show that a strategy always picks one of
  the targets it is given, that round robin is fair, that least connections picks a
  target of least load, and that its counters are the numbers of requests in flight.
\<close>

section \<open>Round robin\<close>

record RoundRobin =
  current :: int

definition NewRoundRobin :: RoundRobin where
  "NewRoundRobin = \<lparr>current = 0\<rparr>"

definition RoundRobin_Next :: "string list \<Rightarrow> RoundRobin \<Rightarrow> string outcome \<times> RoundRobin" where
  "RoundRobin_Next targets r =
     (if targets = [] then (Inr '''', r)
      else case slice_index targets (current r smod int (length targets)) of
             Inl p \<Rightarrow> (Inl p, r)
           | Inr target \<Rightarrow> (Inr target, r\<lparr>current := wrap64 (current r + 1)\<rparr>))"

definition RoundRobin_Name :: string where
  "RoundRobin_Name = ''round_robin''"

section \<open>Random\<close>

text \<open>
  The generator \<open>*rand.Rand\<close> has a state of type \<open>'g\<close>; \<open>Intn\<close> is a parameter of the
  model with the documented law below: a number in \<open>[0, n)\<close> for positive \<open>n\<close>.
\<close>

type_synonym 'g intn = "int \<Rightarrow> 'g \<Rightarrow> int \<times> 'g"

definition Intn_law :: "'g intn \<Rightarrow> bool" where
  "Intn_law intn \<longleftrightarrow> (\<forall>n g. 0 < n \<longrightarrow> 0 \<le> fst (intn n g) \<and> fst (intn n g) < n)"

definition Random_Next :: "'g intn \<Rightarrow> string list \<Rightarrow> 'g \<Rightarrow> string outcome \<times> 'g" where
  "Random_Next intn targets rng =
     (if targets = [] then (Inr '''', rng)
      else let (i, rng') = intn (int (length targets)) rng in (slice_index targets i, rng'))"

definition Random_Name :: string where
  "Random_Name = ''random''"

section \<open>Least connections\<close>

record LeastConnections =
  connections :: "string \<rightharpoonup> int"

definition NewLeastConnections :: LeastConnections where
  "NewLeastConnections = \<lparr>connections = Map.empty\<rparr>"

text \<open>Reading a missing key of a Go map gives the zero value.\<close>

definition conn :: "LeastConnections \<Rightarrow> string \<Rightarrow> int" where
  "conn l target = (case connections l target of None \<Rightarrow> 0 | Some c \<Rightarrow> c)"

text \<open>The loop of \<open>Next\<close> over the targets, with its variables \<open>minConn\<close> and
  \<open>selected\<close>.\<close>

fun Next_loop :: "LeastConnections \<Rightarrow> string list \<Rightarrow> int \<Rightarrow> string \<Rightarrow> string" where
  "Next_loop l [] minConn selected = selected"
| "Next_loop l (target # ts) minConn selected =
     (if conn l target < minConn then Next_loop l ts (conn l target) target
      else Next_loop l ts minConn selected)"

definition LeastConnections_Next :: "string list \<Rightarrow> LeastConnections \<Rightarrow> string" where
  "LeastConnections_Next targets l =
     (case targets of
        [] \<Rightarrow> ''''
      | first # _ \<Rightarrow>
          (let selected = Next_loop l targets max_int64 ''''
           in if selected = '''' then first else selected))"

definition Increment :: "string \<Rightarrow> LeastConnections \<Rightarrow> LeastConnections" where
  "Increment target l =
     l\<lparr>connections := (connections l)(target \<mapsto> wrap64 (conn l target + 1))\<rparr>"

definition Decrement :: "string \<Rightarrow> LeastConnections \<Rightarrow> LeastConnections" where
  "Decrement target l =
     (if conn l target > 0
      then l\<lparr>connections := (connections l)(target \<mapsto> wrap64 (conn l target - 1))\<rparr>
      else l)"

definition LeastConnections_Name :: string where
  "LeastConnections_Name = ''least_connections''"

section \<open>The interface value and the factory\<close>

datatype 'g Strategy =
    StrategyRoundRobin RoundRobin
  | StrategyRandom 'g
  | StrategyLeastConnections LeastConnections

fun Strategy_Next :: "'g intn \<Rightarrow> string list \<Rightarrow> 'g Strategy \<Rightarrow> string outcome \<times> 'g Strategy" where
  "Strategy_Next intn targets (StrategyRoundRobin r) =
     (let (t, r') = RoundRobin_Next targets r in (t, StrategyRoundRobin r'))"
| "Strategy_Next intn targets (StrategyRandom g) =
     (let (t, g') = Random_Next intn targets g in (t, StrategyRandom g'))"
| "Strategy_Next intn targets (StrategyLeastConnections l) =
     (Inr (LeastConnections_Next targets l), StrategyLeastConnections l)"

fun Strategy_Name :: "'g Strategy \<Rightarrow> string" where
  "Strategy_Name (StrategyRoundRobin r) = RoundRobin_Name"
| "Strategy_Name (StrategyRandom g) = Random_Name"
| "Strategy_Name (StrategyLeastConnections l) = LeastConnections_Name"

text \<open>\<open>NewStrategy\<close>; \<open>rng\<close> is the freshly seeded generator of \<open>NewRandom\<close>.\<close>

definition NewStrategy :: "'g \<Rightarrow> string \<Rightarrow> go_error + 'g Strategy" where
  "NewStrategy rng strategyName =
     (if strategyName \<in> {''round-robin'', ''round_robin'', ''''}
      then Inr (StrategyRoundRobin NewRoundRobin)
      else if strategyName = ''random'' then Inr (StrategyRandom rng)
      else if strategyName \<in> {''least-connection'', ''least_connections''}
      then Inr (StrategyLeastConnections NewLeastConnections)
      else Inl (Errors_New (''unknown load balancing strategy: '' @ strategyName)))"

section \<open>The contract of a strategy\<close>

text \<open>A sequence of selections, each from its own list of targets.\<close>

fun selections ::
  "(string list \<Rightarrow> 's \<Rightarrow> string outcome \<times> 's) \<Rightarrow> string list list \<Rightarrow> 's \<Rightarrow> string outcome list" where
  "selections nxt [] s = []"
| "selections nxt (ts # tss) s = fst (nxt ts s) # selections nxt tss (snd (nxt ts s))"

text \<open>
  \<open>ready n s\<close>: the strategy can serve \<open>n\<close> more selections.  Round robin needs it, since
  its counter is a 64-bit integer.
\<close>

locale strategy =
  fixes nxt :: "string list \<Rightarrow> 's \<Rightarrow> string outcome \<times> 's"
    and ready :: "nat \<Rightarrow> 's \<Rightarrow> bool"
  assumes next_empty: "nxt [] s = (Inr '''', s)"
    and next_member: "ready (Suc n) s \<Longrightarrow> ts \<noteq> [] \<Longrightarrow> \<exists>t \<in> set ts. fst (nxt ts s) = Inr t"
    and next_ready: "ready (Suc n) s \<Longrightarrow> ready n (snd (nxt ts s))"
    and ready_less: "ready (Suc n) s \<Longrightarrow> ready n s"
begin

lemma ready_mono: "ready n s \<Longrightarrow> m \<le> n \<Longrightarrow> ready m s"
  by (induction n) (auto simp: le_Suc_eq intro: ready_less)

lemma selections_members:
  "ready (length tss) s \<Longrightarrow> \<forall>ts \<in> set tss. ts \<noteq> [] \<Longrightarrow>
   list_all2 (\<lambda>ts r. \<exists>t \<in> set ts. r = Inr t) tss (selections nxt tss s)"
proof (induction tss arbitrary: s)
  case Nil
  then show ?case by simp
next
  case (Cons ts tss)
  from Cons.prems have "\<exists>t \<in> set ts. fst (nxt ts s) = Inr t"
    by (intro next_member) auto
  moreover have "ready (length tss) (snd (nxt ts s))"
    using Cons.prems(1) by (intro next_ready) simp
  ultimately show ?case using Cons by simp
qed

end

section \<open>The strategies satisfy the contract\<close>

definition rr_ready :: "nat \<Rightarrow> RoundRobin \<Rightarrow> bool" where
  "rr_ready n r \<longleftrightarrow> n = 0 \<or> 0 \<le> current r \<and> current r + int n \<le> max_int64 + 1"

lemma smod_nonneg: "0 \<le> a \<Longrightarrow> 0 < b \<Longrightarrow> a smod b = a mod (b::int)"
  by (simp add: signed_modulo_int_def signed_divide_int_def minus_div_mult_eq_mod [symmetric] sgn_if)

lemma RoundRobin_Next_nonempty:
  assumes "0 \<le> current r" and "targets \<noteq> []"
  shows "RoundRobin_Next targets r =
    (Inr (targets ! (nat (current r) mod length targets)), r\<lparr>current := wrap64 (current r + 1)\<rparr>)"
proof -
  let ?n = "int (length targets)"
  have n: "0 < ?n" using assms(2) by simp
  then have "nat (current r mod ?n) = nat (current r) mod length targets"
    using assms(1) by (simp add: nat_mod_distrib)
  with n assms show ?thesis
    by (simp add: RoundRobin_Next_def smod_nonneg)
qed

lemma rr_ready_Next: "rr_ready (Suc n) r \<Longrightarrow> rr_ready n (snd (RoundRobin_Next ts r))"
  by (cases "ts = []"; cases "n = 0")
     (auto simp: rr_ready_def RoundRobin_Next_nonempty int64_def, auto simp: RoundRobin_Next_def)

interpretation round_robin: strategy RoundRobin_Next rr_ready
proof unfold_locales
  show "RoundRobin_Next [] s = (Inr '''', s)" for s
    by (simp add: RoundRobin_Next_def)
  show "\<exists>t \<in> set ts. fst (RoundRobin_Next ts s) = Inr t" if "rr_ready (Suc n) s" "ts \<noteq> []" for n s ts
    using that by (auto simp: rr_ready_def RoundRobin_Next_nonempty)
  show "rr_ready n (snd (RoundRobin_Next ts s))" if "rr_ready (Suc n) s" for n s ts
    using that by (rule rr_ready_Next)
  show "rr_ready n s" if "rr_ready (Suc n) s" for n s
    using that by (auto simp: rr_ready_def)
qed

lemma Random_Next_member:
  assumes "Intn_law intn" and "ts \<noteq> []"
  shows "\<exists>t \<in> set ts. fst (Random_Next intn ts g) = Inr t"
proof -
  have "0 \<le> fst (intn (int (length ts)) g)" "fst (intn (int (length ts)) g) < int (length ts)"
    using assms by (auto simp: Intn_law_def)
  with assms(2) show ?thesis
    by (auto simp: Random_Next_def split: prod.splits intro!: nth_mem)
qed

text \<open>The law of the loop of \<open>Next\<close>: starting from \<open>minConn\<close>, it returns the first of the
  targets of least count among those below \<open>minConn\<close>, and \<open>selected\<close> if there is none.\<close>

definition first_least :: "(string \<Rightarrow> int) \<Rightarrow> string list \<Rightarrow> string \<Rightarrow> bool" where
  "first_least f ts t \<longleftrightarrow>
     (\<exists>us vs. ts = us @ t # vs \<and> (\<forall>u \<in> set us. f t < f u) \<and> (\<forall>v \<in> set vs. f t \<le> f v))"

lemma first_least_min: "first_least f ts t \<Longrightarrow> t \<in> set ts \<and> (\<forall>u \<in> set ts. f t \<le> f u)"
  by (fastforce simp: first_least_def)

lemma first_least_hd: "\<forall>u \<in> set ts. f t \<le> f u \<Longrightarrow> first_least f (t # ts) t"
  unfolding first_least_def by (rule exI [of _ "[]"], rule exI [of _ ts]) simp

lemma first_least_Cons: "first_least f ts u \<Longrightarrow> f u < f t \<Longrightarrow> first_least f (t # ts) u"
  unfolding first_least_def by (metis append_Cons set_ConsD)

lemma Next_loop_spec:
  "(if \<exists>t \<in> set ts. conn l t < m
    then first_least (conn l) ts (Next_loop l ts m s) \<and> conn l (Next_loop l ts m s) < m
    else Next_loop l ts m s = s)"
proof (induction ts arbitrary: m s)
  case Nil
  then show ?case by simp
next
  case (Cons t ts)
  show ?case
  proof (cases "conn l t < m")
    case True
    note IH = Cons.IH [of "conn l t" t]
    show ?thesis
    proof (cases "\<exists>u \<in> set ts. conn l u < conn l t")
      case ex: True
      then have "first_least (conn l) ts (Next_loop l ts (conn l t) t)"
          "conn l (Next_loop l ts (conn l t) t) < conn l t"
        using IH by simp_all
      with True show ?thesis by (simp add: first_least_Cons)
    next
      case False
      then have "Next_loop l ts (conn l t) t = t" using IH by simp
      moreover have "first_least (conn l) (t # ts) t"
        using False by (intro first_least_hd) force
      ultimately show ?thesis using True by simp
    qed
  next
    case False
    note IH = Cons.IH [of m s]
    show ?thesis
    proof (cases "\<exists>u \<in> set ts. conn l u < m")
      case ex: True
      then have "first_least (conn l) ts (Next_loop l ts m s)" "conn l (Next_loop l ts m s) < m"
        using IH by simp_all
      with False ex show ?thesis by (simp add: first_least_Cons)
    next
      case no: False
      then have "Next_loop l ts m s = s" using IH by simp
      with False no show ?thesis by simp
    qed
  qed
qed

lemma LeastConnections_Next_eq:
  "ts \<noteq> [] \<Longrightarrow> LeastConnections_Next ts l =
     (if Next_loop l ts max_int64 '''' = '''' then hd ts else Next_loop l ts max_int64 '''')"
  by (cases ts) (simp_all add: LeastConnections_Next_def Let_def del: Next_loop.simps)

lemma LeastConnections_Next_first_least:
  assumes "ts \<noteq> []" and "'''' \<notin> set ts" and "\<forall>t \<in> set ts. conn l t \<le> max_int64"
  shows "first_least (conn l) ts (LeastConnections_Next ts l)"
proof (cases "\<exists>t \<in> set ts. conn l t < max_int64")
  case True
  then have "first_least (conn l) ts (Next_loop l ts max_int64 '''')"
    using Next_loop_spec [of ts l max_int64 "''''"] by simp
  moreover from this assms(2) have "Next_loop l ts max_int64 '''' \<noteq> ''''"
    by (metis first_least_min)
  ultimately show ?thesis using assms(1) by (simp add: LeastConnections_Next_eq)
next
  case False
  then have "LeastConnections_Next ts l = hd ts"
    using Next_loop_spec [of ts l max_int64 "''''"] assms(1) by (simp add: LeastConnections_Next_eq)
  moreover have "\<forall>u \<in> set (tl ts). conn l (hd ts) \<le> conn l u"
    using False assms(1,3) by (cases ts) force+
  ultimately show ?thesis
    using first_least_hd [of "tl ts" "conn l" "hd ts"] assms(1) by simp
qed

lemma LeastConnections_Next_member:
  assumes "ts \<noteq> []"
  shows "LeastConnections_Next ts l \<in> set ts"
proof (cases "Next_loop l ts max_int64 '''' = ''''")
  case True
  with assms show ?thesis by (simp add: LeastConnections_Next_eq)
next
  case False
  then have "first_least (conn l) ts (Next_loop l ts max_int64 '''')"
    using Next_loop_spec [of ts l max_int64 "''''"] by (simp split: if_splits)
  then show ?thesis
    using assms False by (simp add: LeastConnections_Next_eq first_least_min)
qed

definition strategy_ready :: "'g intn \<Rightarrow> nat \<Rightarrow> 'g Strategy \<Rightarrow> bool" where
  "strategy_ready intn n s \<longleftrightarrow>
     Intn_law intn \<and> (case s of StrategyRoundRobin r \<Rightarrow> rr_ready n r | _ \<Rightarrow> True)"

interpretation balancer: strategy "Strategy_Next intn" "strategy_ready intn" for intn :: "'g intn"
proof unfold_locales
  show "Strategy_Next intn [] s = (Inr '''', s)" for s
    by (cases s) (simp_all add: round_robin.next_empty Random_Next_def LeastConnections_Next_def)
  show "\<exists>t \<in> set ts. fst (Strategy_Next intn ts s) = Inr t"
    if "strategy_ready intn (Suc n) s" "ts \<noteq> []" for n s ts
  proof (cases s)
    case (StrategyRoundRobin r)
    with that show ?thesis
      using round_robin.next_member [of n r ts]
      by (auto simp: strategy_ready_def split: prod.splits)
  next
    case (StrategyRandom g)
    with that show ?thesis
      using Random_Next_member [of intn ts g] by (auto simp: strategy_ready_def split: prod.splits)
  next
    case (StrategyLeastConnections l)
    with that show ?thesis using LeastConnections_Next_member [of ts l] by auto
  qed
  show "strategy_ready intn n (snd (Strategy_Next intn ts s))"
    if "strategy_ready intn (Suc n) s" for n s ts
    using that
    by (cases s) (auto simp: strategy_ready_def dest: rr_ready_Next [of _ _ ts] split: prod.splits)
  show "strategy_ready intn n s" if "strategy_ready intn (Suc n) s" for n s
    using that by (auto simp: strategy_ready_def round_robin.ready_less split: Strategy.splits)
qed

lemma NewStrategy_cases:
  assumes "NewStrategy rng name = Inr s"
  obtains "s = StrategyRoundRobin NewRoundRobin" | "s = StrategyRandom rng"
    | "s = StrategyLeastConnections NewLeastConnections"
  using assms unfolding NewStrategy_def by (metis Inl_Inr_False Inr_inject)

lemma NewStrategy_ready:
  assumes "Intn_law intn" and "NewStrategy rng name = Inr s" and "n \<le> 2 ^ 63"
  shows "strategy_ready intn n s"
proof -
  have "rr_ready n NewRoundRobin" using assms(3) by (simp add: rr_ready_def NewRoundRobin_def)
  with assms(1) show ?thesis
    by (rule_tac NewStrategy_cases [OF assms(2)]) (simp_all add: strategy_ready_def)
qed

section \<open>Fairness of round robin\<close>

lemma inj_on_shift_mod: "inj_on (\<lambda>i. (c + i) mod L) {0..<L::nat}"
proof (rule inj_onI)
  have "i = j" if "i < L" "(c + i) mod L = (c + j) mod L" "j \<le> i" for i j
  proof -
    have "L dvd i - j" using that mod_eq_dvd_iff_nat [of "c + j" "c + i" L] by simp
    then show ?thesis using that by (auto dest: dvd_imp_le)
  qed
  then show "i = j" if "i \<in> {0..<L}" "j \<in> {0..<L}" "(c + i) mod L = (c + j) mod L" for i j
    using that by (metis atLeastLessThan_iff linear)
qed

definition hits :: "nat \<Rightarrow> nat \<Rightarrow> nat \<Rightarrow> nat \<Rightarrow> nat" where
  "hits c L n j = card {i. i < n \<and> (c + i) mod L = j}"

lemma hits_short: "n \<le> L \<Longrightarrow> hits c L n j \<le> 1"
proof -
  assume n: "n \<le> L"
  have "inj_on (\<lambda>i. (c + i) mod L) {i. i < n \<and> (c + i) mod L = j}"
    by (rule inj_on_subset [OF inj_on_shift_mod]) (use n in auto)
  then have "hits c L n j \<le> card {j}"
    unfolding hits_def by (rule card_inj_on_le) auto
  then show ?thesis by simp
qed

lemma hits_round: "j < L \<Longrightarrow> hits c L L j = 1"
proof -
  assume j: "j < L"
  have "(\<lambda>i. (c + i) mod L) ` {0..<L} = {0..<L}"
    by (rule endo_inj_surj) (use j inj_on_shift_mod in auto)
  with j obtain i where "i < L" "(c + i) mod L = j"
    by (metis (no_types, lifting) atLeastLessThan_iff imageE zero_le)
  then have "0 < hits c L L j" unfolding hits_def by (auto simp: card_gt_0_iff)
  with hits_short [of L L c j] show ?thesis by simp
qed

lemma hits_plus: "hits c L (m + n) j = hits c L m j + hits (c + m) L n j"
proof -
  let ?A = "{i. i < m \<and> (c + i) mod L = j}" and ?B = "{i. i < n \<and> (c + m + i) mod L = j}"
  have "i \<in> ?A \<union> (+) m ` ?B" if "i < m + n" "(c + i) mod L = j" for i
    using that by (cases "i < m") (auto intro!: image_eqI [of i "(+) m" "i - m"])
  then have "{i. i < m + n \<and> (c + i) mod L = j} = ?A \<union> (+) m ` ?B"
    by (auto simp: add.assoc)
  moreover have "card (?A \<union> (+) m ` ?B) = card ?A + card ((+) m ` ?B)"
    by (rule card_Un_disjoint) auto
  moreover have "card ((+) m ` ?B) = card ?B" by (rule card_image) (simp add: inj_on_def)
  ultimately show ?thesis by (simp add: hits_def)
qed

lemma hits_rounds: "j < L \<Longrightarrow> hits c L (k * L) j = k"
proof (induction k arbitrary: c)
  case 0
  then show ?case by (simp add: hits_def)
next
  case (Suc k)
  then show ?case by (simp add: hits_plus hits_round)
qed

lemma hits_bounds: "j < L \<Longrightarrow> n div L \<le> hits c L n j \<and> hits c L n j \<le> n div L + 1"
proof -
  assume j: "j < L"
  have "hits c L n j = n div L + hits (c + n div L * L) L (n mod L) j"
    using hits_plus [of c L "n div L * L" "n mod L" j] hits_rounds [OF j, of c "n div L"] by simp
  moreover have "hits (c + n div L * L) L (n mod L) j \<le> 1"
    using j by (intro hits_short) simp
  ultimately show ?thesis by simp
qed

lemma count_list_filter_upt: "count_list (map f [0..<n]) y = card {i. i < n \<and> f i = y}"
proof (induction n)
  case 0
  then show ?case by simp
next
  case (Suc n)
  have "{i. i < Suc n \<and> f i = y} = {i. i < n \<and> f i = y} \<union> (if f n = y then {n} else {})"
    by (auto simp: less_Suc_eq)
  with Suc show ?case by auto
qed

lemma selections_round_robin:
  assumes "ts \<noteq> []" and "rr_ready n r"
  shows "selections RoundRobin_Next (replicate n ts) r =
           map (\<lambda>i. Inr (ts ! ((nat (current r) + i) mod length ts))) [0..<n]"
  using assms
proof (induction n arbitrary: r)
  case 0
  then show ?case by simp
next
  case (Suc n)
  let ?r = "r\<lparr>current := wrap64 (current r + 1)\<rparr>"
  have cur: "0 \<le> current r" using Suc.prems by (simp add: rr_ready_def)
  have step: "RoundRobin_Next ts r = (Inr (ts ! (nat (current r) mod length ts)), ?r)"
    by (rule RoundRobin_Next_nonempty [OF cur Suc.prems(1)])
  have "rr_ready n ?r" using rr_ready_Next [OF Suc.prems(2), of ts] step by simp
  note IH = Suc.IH [OF Suc.prems(1) this]
  have "nat (current ?r) = Suc (nat (current r))" if "0 < n"
    using Suc.prems(2) cur that wrap64_succ_below [of max_int64 "current r"]
    by (auto simp: rr_ready_def int64_def)
  then have "n = 0 \<or> nat (current ?r) = Suc (nat (current r))" by blast
  with IH step show ?case
    by (auto simp: upt_conv_Cons map_Suc_upt [symmetric] simp del: upt_Suc)
qed

section \<open>Connection counters under concurrent requests\<close>

text \<open>
  Each request that uses a target increments its counter before it calls the backend and
  decrements it afterwards; \<open>active\<close> is the multiset of the targets of the requests in
  between.
\<close>

record lc_sys =
  lc :: LeastConnections
  active :: "string multiset"

datatype lc_event = Started string | Finished string

inductive lc_step :: "lc_sys \<Rightarrow> lc_event \<Rightarrow> lc_sys \<Rightarrow> bool" where
  start: "lc_step s (Started t) \<lparr>lc = Increment t (lc s), active = add_mset t (active s)\<rparr>"
| finish: "t \<in># active s \<Longrightarrow>
    lc_step s (Finished t) \<lparr>lc = Decrement t (lc s), active = active s - {#t#}\<rparr>"

lemma conn_Increment:
  "conn (Increment t l) u = (if u = t then wrap64 (conn l t + 1) else conn l u)"
  by (simp add: conn_def Increment_def)

lemma conn_Decrement:
  "conn (Decrement t l) u =
     (if u = t \<and> conn l t > 0 then wrap64 (conn l t - 1) else conn l u)"
  by (auto simp: conn_def Decrement_def)

lemma conn_New [simp]: "conn NewLeastConnections t = 0"
  by (simp add: conn_def NewLeastConnections_def)

lemma conn_Decrement_Increment:
  "0 \<le> conn l t \<Longrightarrow> conn l t < max_int64 \<Longrightarrow> conn (Decrement t (Increment t l)) u = conn l u"
  by (auto simp: conn_Decrement conn_Increment int64_def)

definition lc_counts :: "nat \<Rightarrow> lc_sys \<Rightarrow> bool" where
  "lc_counts n s \<longleftrightarrow>
     size (active s) \<le> n \<and> (\<forall>t. conn (lc s) t = int (count (active s) t))"

lemma lc_counts_step:
  assumes "lc_counts n s" and "lc_step s e u" and "int n < max_int64"
  shows "lc_counts (Suc n) u"
proof -
  have c: "conn (lc s) t = int (count (active s) t)" "int (count (active s) t) \<le> int n" for t
    using assms(1) count_le_size [of "active s" t] by (auto simp: lc_counts_def simp del: count_le_size)
  from assms(2) show ?thesis
  proof cases
    case (start t)
    have "wrap64 (int (count (active s) t) + 1) = int (count (active s) t) + 1"
      using c(2) [of t] assms(3) by (simp add: int64_def)
    with start assms(1) c(1) show ?thesis
      by (auto simp: lc_counts_def conn_Increment)
  next
    case (finish t)
    then have "0 < count (active s) t" by simp
    moreover have "wrap64 (int (count (active s) t) - 1) = int (count (active s) t) - 1"
      using c(2) [of t] assms(3) calculation by (intro wrap64_id) (simp add: int64_def)
    moreover have "size (active s - {#t#}) \<le> Suc n"
      using assms(1) size_Diff1_le [of "active s" t] by (simp add: lc_counts_def)
    ultimately show ?thesis using finish c(1)
      by (auto simp: lc_counts_def conn_Decrement of_nat_diff Suc_leI)
  qed
qed

lemma lc_counts_run:
  assumes "run lc_step s es u" and "lc_counts 0 s" and "int (length es) \<le> max_int64"
  shows "lc_counts (length es) u"
  using assms
proof (induction rule: run.induct)
  case (run_snoc s es t e u)
  then show ?case using lc_counts_step [of "length es" t e u] by simp
qed simp

section \<open>Properties\<close>

text \<open>every strategy the factory makes serves at least \<open>2 ^ 63\<close> selections: it
  never panics, and each selection from a non-empty list of targets returns a member of
  that list, given the documented range of \<open>Intn\<close>.\<close>

theorem strategies_select_members:
  assumes "Intn_law intn" and "NewStrategy rng name = Inr s"
    and "length tss \<le> 2 ^ 63" and "\<forall>ts \<in> set tss. ts \<noteq> []"
  shows "list_all2 (\<lambda>ts r. \<exists>t \<in> set ts. r = Inr t) tss (selections (Strategy_Next intn) tss s)"
  using balancer.selections_members [OF NewStrategy_ready [OF assms(1-3)] assms(4)] .

theorem strategies_select_members_witness:
  "list_all2 (\<lambda>ts r. \<exists>t \<in> set ts. r = Inr t) [[''a'', ''b''], [''c'']]
     (selections (Strategy_Next (\<lambda>n g. (0, g))) [[''a'', ''b''], [''c'']]
        (StrategyLeastConnections NewLeastConnections :: unit Strategy))"
  by (rule strategies_select_members [of _ "()" "''least_connections''"])
     (simp_all add: Intn_law_def NewStrategy_def)

text \<open>C15: round robin is fair: over any \<open>n\<close> consecutive selections from the same list
  of distinct targets, each target is chosen \<open>n div length\<close> times or once more, and
  exactly that often when the length of the list divides \<open>n\<close> (as long as the 64-bit
  counter does not overflow).\<close>

theorem round_robin_fair:
  assumes "distinct ts" and "t \<in> set ts" and "rr_ready n r"
  defines "chosen \<equiv> count_list (selections RoundRobin_Next (replicate n ts) r) (Inr t)"
  shows "n div length ts \<le> chosen \<and> chosen \<le> n div length ts + 1 \<and>
         (length ts dvd n \<longrightarrow> chosen = n div length ts)"
proof -
  obtain j where j: "j < length ts" "ts ! j = t" using assms(2) by (auto simp: in_set_conv_nth)
  let ?idx = "\<lambda>i. (nat (current r) + i) mod length ts"
  have ne: "ts \<noteq> []" using assms(2) by auto
  have "chosen = card {i. i < n \<and> Inr (ts ! ?idx i) = (Inr t :: string outcome)}"
    unfolding chosen_def selections_round_robin [OF ne assms(3)] count_list_filter_upt ..
  also have "{i. i < n \<and> Inr (ts ! ?idx i) = (Inr t :: string outcome)} = {i. i < n \<and> ?idx i = j}"
    using j assms(1) ne by (auto simp: nth_eq_iff_index_eq)
  finally have c: "chosen = hits (nat (current r)) (length ts) n j" by (simp add: hits_def)
  then have "length ts dvd n \<longrightarrow> chosen = n div length ts"
    using hits_rounds [OF j(1), of "nat (current r)" "n div length ts"] by auto
  with c hits_bounds [OF j(1), of n "nat (current r)"] show ?thesis by simp
qed

theorem round_robin_fair_witness:
  "count_list (selections RoundRobin_Next (replicate 6 [''a'', ''b'', ''c'']) \<lparr>current = 2\<rparr>) (Inr ''b'') = 2"
  using round_robin_fair [of "[''a'', ''b'', ''c'']" "''b''" 6 "\<lparr>current = 2\<rparr>"]
  by (simp add: rr_ready_def numeral_3_eq_3 [symmetric])

text \<open>least connections returns the first target of least load: none of the given
  targets has fewer connections, and each target before it has more (for non-empty names
  of targets and counters that are 64-bit values).\<close>

theorem least_connections_first_least:
  assumes "ts \<noteq> []" and "'''' \<notin> set ts" and "\<forall>t \<in> set ts. int64 (conn l t)"
  shows "\<exists>us vs. ts = us @ LeastConnections_Next ts l # vs \<and>
           (\<forall>u \<in> set us. conn l (LeastConnections_Next ts l) < conn l u) \<and>
           (\<forall>v \<in> set vs. conn l (LeastConnections_Next ts l) \<le> conn l v)"
  using LeastConnections_Next_first_least [OF assms(1,2)] assms(3)
  by (simp add: first_least_def int64_def)

theorem least_connections_first_least_witness:
  "LeastConnections_Next [''a'', ''b''] (Increment ''a'' NewLeastConnections) = ''b''"
  using least_connections_first_least [of "[''a'', ''b'']" "Increment ''a'' NewLeastConnections"]
  by (auto simp: conn_Increment int64_def Cons_eq_append_conv)

text \<open>C33: under any interleaving of requests that increment the counter of their target
  when they start and decrement it when they end, the counter of each target is the number
  of its requests in flight.\<close>

theorem connection_counters_exact:
  assumes "run lc_step \<lparr>lc = NewLeastConnections, active = {#}\<rparr> es s"
    and "int (length es) \<le> max_int64"
  shows "conn (lc s) t = int (count (active s) t)"
  using lc_counts_run [OF assms(1) _ assms(2)] by (simp add: lc_counts_def)

theorem connection_counters_exact_witness:
  "conn (Decrement ''a'' (Increment ''b'' (Increment ''a'' NewLeastConnections))) ''b'' = 1"
proof -
  let ?s = "\<lparr>lc = NewLeastConnections, active = {#}\<rparr>"
  have "run lc_step ?s [Started ''a'', Started ''b'', Finished ''a'']
     \<lparr>lc = Decrement ''a'' (Increment ''b'' (Increment ''a'' NewLeastConnections)),
      active = {#''b''#}\<rparr>"
    using lc_step.start [of ?s "''a''"]
      lc_step.start [of "\<lparr>lc = Increment ''a'' NewLeastConnections, active = {#''a''#}\<rparr>" "''b''"]
      lc_step.finish [of "''a''" "\<lparr>lc = Increment ''b'' (Increment ''a'' NewLeastConnections),
        active = {#''b'', ''a''#}\<rparr>"]
    by (auto simp: run_Cons)
  from connection_counters_exact [OF this, of "''b''"] show ?thesis by simp
qed

end
