(* ===== verification/HealthCheck.thy ===== *)
theory HealthCheck
  imports Systems "HOL-Library.Multiset"
begin

text \<open>
  The health checker of \<open>src/internal/healthcheck\<close>: the status of each target, the
  recording of probe results, the list of healthy targets, \<open>Start\<close> and \<open>Stop\<close>.  The HTTP
  client is a parameter: a probe is what it did for one target.  The goroutines of
  \<open>checkAll\<close> run their critical sections in an order that is an argument of the model.
  The lemmas show that a target is healthy exactly while it has fewer than \<open>maxFailures\<close>
  failures in a row, that the order of the goroutines does not matter, that the published
  list is the list of healthy targets, and what repeated \<open>Start\<close> and \<open>Stop\<close> do.
\<close>

section \<open>Status\<close>

record Status =
  Target :: string
  IsHealthy :: bool
  LastCheck :: time
  LastSuccess :: time
  LastFailure :: time
  FailureCount :: int

datatype HealthStatus = Healthy | Degraded | Unhealthy

fun HealthStatus_String :: "HealthStatus \<Rightarrow> string" where
  "HealthStatus_String Healthy = ''healthy''"
| "HealthStatus_String Degraded = ''degraded''"
| "HealthStatus_String Unhealthy = ''unhealthy''"

section \<open>The checker\<close>

text \<open>\<open>stopClosed\<close> tells whether \<open>stopChan\<close> has been closed.\<close>

record Checker =
  targets :: "string list"
  healthStatus :: "string \<rightharpoonup> Status"
  healthyTargets :: "string list"
  endpoint :: string
  interval :: duration
  hc_timeout :: duration
  hc_maxFailures :: int
  stopClosed :: bool
  running :: bool

text \<open>A nil slice of targets is \<open>None\<close>.\<close>

record HCConfig =
  hc_Targets :: "string list option"
  hc_Endpoint :: string
  hc_Interval :: duration
  hc_Timeout :: duration
  hc_MaxFailures :: int

definition slice_of :: "'a list option \<Rightarrow> 'a list" where
  "slice_of xs = (case xs of None \<Rightarrow> [] | Some ys \<Rightarrow> ys)"

definition new_status :: "string \<Rightarrow> time \<Rightarrow> Status" where
  "new_status target now =
     \<lparr>Target = target, IsHealthy = True, LastCheck = now, LastSuccess = zero_time,
      LastFailure = zero_time, FailureCount = 0\<rparr>"

fun init_statuses :: "clock \<Rightarrow> string list \<Rightarrow> (string \<rightharpoonup> Status) \<Rightarrow> (string \<rightharpoonup> Status)" where
  "init_statuses ts [] m = m"
| "init_statuses ts (target # rest) m =
     init_statuses (\<lambda>i. ts (Suc i)) rest (m(target \<mapsto> new_status target (ts 0)))"

definition NewChecker :: "HCConfig \<Rightarrow> clock \<Rightarrow> Checker" where
  "NewChecker cfg ts =
     \<lparr>targets = slice_of (hc_Targets cfg),
      healthStatus = init_statuses ts (slice_of (hc_Targets cfg)) Map.empty,
      healthyTargets = [],
      endpoint = (if hc_Endpoint cfg = '''' then ''/health'' else hc_Endpoint cfg),
      interval = (if hc_Interval cfg \<le> 0 then 10 * Second else hc_Interval cfg),
      hc_timeout = (if hc_Timeout cfg \<le> 0 then 5 * Second else hc_Timeout cfg),
      hc_maxFailures = (if hc_MaxFailures cfg \<le> 0 then 3 else hc_MaxFailures cfg),
      stopClosed = False, running = False\<rparr>"

section \<open>Recording probe results\<close>

text \<open>The two functions work on the entry of the target; a missing entry is a nil
  pointer.  The two times are the two calls of \<open>time.Now()\<close>.\<close>

definition status_success :: "time \<Rightarrow> time \<Rightarrow> Status \<Rightarrow> Status" where
  "status_success now now' st0 =
     (let st = st0\<lparr>LastCheck := now, LastSuccess := now', FailureCount := 0\<rparr>
      in if \<not> IsHealthy st then st\<lparr>IsHealthy := True\<rparr> else st)"

definition status_failure :: "int \<Rightarrow> time \<Rightarrow> time \<Rightarrow> Status \<Rightarrow> Status" where
  "status_failure maxF now now' st0 =
     (let st = st0\<lparr>LastCheck := now, LastFailure := now',
                   FailureCount := wrap64 (FailureCount st0 + 1)\<rparr>
      in if IsHealthy st \<and> FailureCount st \<ge> maxF then st\<lparr>IsHealthy := False\<rparr> else st)"

definition recordSuccess :: "string \<Rightarrow> time \<Rightarrow> time \<Rightarrow> Checker \<Rightarrow> Checker outcome" where
  "recordSuccess target now now' c =
     (case healthStatus c target of
        None \<Rightarrow> Inl NilDereference
      | Some st \<Rightarrow> Inr (c\<lparr>healthStatus := (healthStatus c)(target \<mapsto> status_success now now' st)\<rparr>))"

definition recordFailure :: "string \<Rightarrow> time \<Rightarrow> time \<Rightarrow> Checker \<Rightarrow> Checker outcome" where
  "recordFailure target now now' c =
     (case healthStatus c target of
        None \<Rightarrow> Inl NilDereference
      | Some st \<Rightarrow>
          Inr (c\<lparr>healthStatus :=
                   (healthStatus c)(target \<mapsto> status_failure (hc_maxFailures c) now now' st)\<rparr>))"

text \<open>What building the request and sending it did: an error of either, or a response
  with a status code.\<close>

datatype probe = NewRequestError | DoError | Response int

type_synonym http_client = "string \<Rightarrow> probe"

definition checkTarget :: "http_client \<Rightarrow> string \<Rightarrow> time \<Rightarrow> time \<Rightarrow> Checker \<Rightarrow> Checker outcome" where
  "checkTarget http target now now' c =
     (case http (target @ endpoint c) of
        NewRequestError \<Rightarrow> recordFailure target now now' c
      | DoError \<Rightarrow> recordFailure target now now' c
      | Response code \<Rightarrow>
          if code \<ge> 200 \<and> code < 400 then recordSuccess target now now' c
          else recordFailure target now now' c)"

section \<open>Checking all targets\<close>

fun healthy_loop :: "(string \<rightharpoonup> Status) \<Rightarrow> string list \<Rightarrow> string list \<Rightarrow> string list outcome" where
  "healthy_loop m [] healthy = Inr healthy"
| "healthy_loop m (target # rest) healthy =
     (case m target of
        None \<Rightarrow> Inl NilDereference
      | Some st \<Rightarrow> healthy_loop m rest (if IsHealthy st then healthy @ [target] else healthy))"

definition updateHealthyTargets :: "Checker \<Rightarrow> Checker outcome" where
  "updateHealthyTargets c =
     (case healthy_loop (healthStatus c) (targets c) [] of
        Inl p \<Rightarrow> Inl p
      | Inr healthy \<Rightarrow> Inr (c\<lparr>healthyTargets := healthy\<rparr>))"

text \<open>The goroutines of \<open>checkAll\<close>, in the order in which they record their results;
  each job carries its target and its two clock readings.\<close>

type_synonym job = "string \<times> time \<times> time"

fun check_jobs :: "http_client \<Rightarrow> job list \<Rightarrow> Checker \<Rightarrow> Checker outcome" where
  "check_jobs http [] c = Inr c"
| "check_jobs http ((target, now, now') # jobs) c =
     (case checkTarget http target now now' c of
        Inl p \<Rightarrow> Inl p
      | Inr c' \<Rightarrow> check_jobs http jobs c')"

text \<open>One job for each target, in any order.\<close>

definition jobs_for :: "job list \<Rightarrow> string list \<Rightarrow> bool" where
  "jobs_for jobs ts \<longleftrightarrow> mset (map fst jobs) = mset ts"

definition checkAll :: "http_client \<Rightarrow> job list \<Rightarrow> Checker \<Rightarrow> Checker outcome" where
  "checkAll http jobs c =
     (case check_jobs http jobs c of
        Inl p \<Rightarrow> Inl p
      | Inr c' \<Rightarrow> updateHealthyTargets c')"

section \<open>Start and stop\<close>

text \<open>\<open>Start\<close> also tells whether it has started the goroutine of periodic checks.\<close>

definition Start :: "http_client \<Rightarrow> job list \<Rightarrow> Checker \<Rightarrow> (Checker \<times> bool) outcome" where
  "Start http jobs c =
     (if running c then Inr (c, False)
      else case checkAll http jobs (c\<lparr>running := True\<rparr>) of
             Inl p \<Rightarrow> Inl p
           | Inr c' \<Rightarrow> Inr (c', True))"

definition Stop :: "Checker \<Rightarrow> Checker outcome" where
  "Stop c =
     (if running c
      then if stopClosed c then Inl CloseOfClosedChannel
           else Inr (c\<lparr>stopClosed := True, running := False\<rparr>)
      else Inr c)"

section \<open>Readers\<close>

definition GetHealthyTargets :: "Checker \<Rightarrow> string list" where
  "GetHealthyTargets c = healthyTargets c"

definition GetAllTargets :: "Checker \<Rightarrow> string list" where
  "GetAllTargets c = targets c"

definition GetStatus :: "string \<Rightarrow> Checker \<Rightarrow> Status option" where
  "GetStatus target c = healthStatus c target"

definition GetAllStatus :: "Checker \<Rightarrow> (string \<rightharpoonup> Status)" where
  "GetAllStatus c = healthStatus c"

definition OverallHealth :: "Checker \<Rightarrow> HealthStatus" where
  "OverallHealth c =
     (if length (healthyTargets c) = 0 then Unhealthy
      else if length (healthyTargets c) < length (targets c) then Degraded
      else Healthy)"

section \<open>The system: starts, periodic checks and stops interleave\<close>

text \<open>
  \<open>starting\<close> counts the calls of \<open>Start\<close> that have marked the checker as running and not
  yet started their loop, \<open>loops\<close> the goroutines of periodic checks that have not
  returned.  There is one step for each critical section: a goroutine of \<open>checkAll\<close>
  records a probe, \<open>checkAll\<close> publishes the healthy targets, \<open>Start\<close> marks the checker
  and later starts its loop, \<open>Stop\<close> closes the channel, a loop notices it.
\<close>

record hc_sys =
  checker :: Checker
  starting :: nat
  loops :: nat

datatype hc_event =
    Probed http_client string time time
  | Published
  | Start_marked
  | Loop_started
  | Stop_called
  | Loop_returned

inductive hc_step :: "hc_sys \<Rightarrow> hc_event \<Rightarrow> hc_sys \<Rightarrow> bool" where
  probe: "0 < starting s + loops s \<Longrightarrow> target \<in> set (targets (checker s)) \<Longrightarrow>
    checkTarget http target now now' (checker s) = Inr c \<Longrightarrow>
    hc_step s (Probed http target now now') (s\<lparr>checker := c\<rparr>)"
| publish: "0 < starting s + loops s \<Longrightarrow> updateHealthyTargets (checker s) = Inr c \<Longrightarrow>
    hc_step s Published (s\<lparr>checker := c\<rparr>)"
| mark: "\<not> running (checker s) \<Longrightarrow>
    hc_step s Start_marked
      (s\<lparr>checker := (checker s)\<lparr>running := True\<rparr>, starting := Suc (starting s)\<rparr>)"
| loop: "starting s = Suc n \<Longrightarrow>
    hc_step s Loop_started (s\<lparr>starting := n, loops := Suc (loops s)\<rparr>)"
| stop: "Stop (checker s) = Inr c \<Longrightarrow> hc_step s Stop_called (s\<lparr>checker := c\<rparr>)"
| return: "stopClosed (checker s) \<Longrightarrow> loops s = Suc n \<Longrightarrow>
    hc_step s Loop_returned (s\<lparr>loops := n\<rparr>)"

section \<open>The invariant\<close>

definition status_ok :: "int \<Rightarrow> Status \<Rightarrow> bool" where
  "status_ok maxF st \<longleftrightarrow>
     int64 (FailureCount st) \<and> (IsHealthy st \<longrightarrow> 0 \<le> FailureCount st \<and> FailureCount st < maxF)"

definition checker_inv :: "Checker \<Rightarrow> bool" where
  "checker_inv c \<longleftrightarrow>
     0 < hc_maxFailures c \<and> int64 (hc_maxFailures c) \<and>
     0 < interval c \<and> 0 < hc_timeout c \<and> endpoint c \<noteq> '''' \<and>
     dom (healthStatus c) = set (targets c) \<and>
     (\<forall>t st. healthStatus c t = Some st \<longrightarrow> Target st = t \<and> status_ok (hc_maxFailures c) st) \<and>
     set (healthyTargets c) \<subseteq> set (targets c) \<and>
     length (healthyTargets c) \<le> length (targets c)"

lemma status_ok_success: "0 < maxF \<Longrightarrow> status_ok maxF st \<Longrightarrow> status_ok maxF (status_success now now' st)"
  by (simp add: status_ok_def status_success_def Let_def int64_def)

lemma status_ok_failure:
  "0 < maxF \<Longrightarrow> int64 maxF \<Longrightarrow> status_ok maxF st \<Longrightarrow> status_ok maxF (status_failure maxF now now' st)"
  by (auto simp: status_ok_def status_failure_def Let_def wrap64_succ_below intro: int64_Suc_below)

lemma Target_recorded [simp]:
  "Target (status_success now now' st) = Target st"
  "Target (status_failure maxF now now' st) = Target st"
  by (simp_all add: status_success_def status_failure_def Let_def)

lemma dom_init_statuses: "dom (init_statuses ts xs m) = dom m \<union> set xs"
  by (induction xs arbitrary: ts m) auto

lemma init_statuses_Some:
  "init_statuses ts xs m t = Some st \<Longrightarrow> m t = Some st \<or> (\<exists>now. st = new_status t now)"
  by (induction xs arbitrary: ts m) (fastforce split: if_splits)+

lemma status_ok_new: "0 < maxF \<Longrightarrow> status_ok maxF (new_status t now)"
  by (simp add: status_ok_def new_status_def int64_def)

lemma Target_new [simp]: "Target (new_status t now) = t"
  by (simp add: new_status_def)

lemma checker_inv_flags [simp]:
  "checker_inv (c\<lparr>running := b\<rparr>) = checker_inv c"
  "checker_inv (c\<lparr>stopClosed := b\<rparr>) = checker_inv c"
  by (simp_all add: checker_inv_def)

lemma NewChecker_fields [simp]:
  "targets (NewChecker cfg ts) = slice_of (hc_Targets cfg)"
  "running (NewChecker cfg ts) = False" "stopClosed (NewChecker cfg ts) = False"
  by (simp_all add: NewChecker_def)

lemma NewChecker_inv: "int64 (hc_MaxFailures cfg) \<Longrightarrow> checker_inv (NewChecker cfg ts)"
  by (auto simp: checker_inv_def NewChecker_def dom_init_statuses status_ok_new int64_def
           dest!: init_statuses_Some)

lemma healthy_loop_filter:
  "set ts \<subseteq> dom m \<Longrightarrow> healthy_loop m ts acc = Inr (acc @ filter (\<lambda>t. IsHealthy (the (m t))) ts)"
  by (induction ts arbitrary: acc) (auto split: option.splits)

lemma updateHealthyTargets_eq:
  "checker_inv c \<Longrightarrow> updateHealthyTargets c =
     Inr (c\<lparr>healthyTargets := filter (\<lambda>t. IsHealthy (the (healthStatus c t))) (targets c)\<rparr>)"
  by (simp add: updateHealthyTargets_def healthy_loop_filter checker_inv_def)

lemma checker_inv_update:
  "checker_inv c \<Longrightarrow> updateHealthyTargets c = Inr c' \<Longrightarrow> checker_inv c'"
  by (auto simp: updateHealthyTargets_eq) (auto simp: checker_inv_def)

text \<open>Whether the probe of a target with this checker counts as a success.\<close>

definition probe_ok :: "http_client \<Rightarrow> string \<Rightarrow> bool" where
  "probe_ok http url = (case http url of Response code \<Rightarrow> code \<ge> 200 \<and> code < 400 | _ \<Rightarrow> False)"

definition probed :: "http_client \<Rightarrow> time \<Rightarrow> time \<Rightarrow> Checker \<Rightarrow> string \<Rightarrow> Status \<Rightarrow> Status" where
  "probed http now now' c target st =
     (if probe_ok http (target @ endpoint c) then status_success now now' st
      else status_failure (hc_maxFailures c) now now' st)"

lemma probed_frame [simp]:
  "probed http now now' (c\<lparr>healthStatus := m\<rparr>) = probed http now now' c"
  by (simp add: fun_eq_iff probed_def)

lemma checkTarget_eq:
  "checkTarget http target now now' c =
     (case healthStatus c target of
        None \<Rightarrow> Inl NilDereference
      | Some st \<Rightarrow>
          Inr (c\<lparr>healthStatus := (healthStatus c)(target \<mapsto> probed http now now' c target st)\<rparr>))"
  by (auto simp: checkTarget_def probed_def probe_ok_def recordSuccess_def recordFailure_def
           split: probe.splits option.splits)

lemma checker_inv_checkTarget:
  assumes "checker_inv c" and "checkTarget http target now now' c = Inr c'"
  shows "checker_inv c'"
proof -
  obtain st where st: "healthStatus c target = Some st"
      "c' = c\<lparr>healthStatus := (healthStatus c)(target \<mapsto> probed http now now' c target st)\<rparr>"
    using assms(2) by (auto simp: checkTarget_eq split: option.splits)
  have "Target (probed http now now' c target st) = target \<and>
        status_ok (hc_maxFailures c) (probed http now now' c target st)"
    using assms(1) st(1) by (auto simp: checker_inv_def probed_def status_ok_success status_ok_failure)
  then show ?thesis using assms(1) st by (auto simp: checker_inv_def insert_absorb)
qed

lemma checkTarget_total:
  "checker_inv c \<Longrightarrow> target \<in> set (targets c) \<Longrightarrow> \<exists>c'. checkTarget http target now now' c = Inr c'"
  by (auto simp: checkTarget_eq checker_inv_def dom_def split: option.splits)

lemma healthStatus_Some: "checker_inv c \<Longrightarrow> t \<in> set (targets c) \<Longrightarrow> \<exists>st. healthStatus c t = Some st"
  by (auto simp: checker_inv_def)

lemma checker_frame:
  "checkTarget http target now now' c = Inr c' \<Longrightarrow>
     targets c' = targets c \<and> endpoint c' = endpoint c \<and> hc_maxFailures c' = hc_maxFailures c \<and>
     running c' = running c \<and> stopClosed c' = stopClosed c \<and> healthyTargets c' = healthyTargets c"
  by (auto simp: checkTarget_eq split: option.splits)

lemma checker_inv_Stop: "checker_inv c \<Longrightarrow> Stop c = Inr c' \<Longrightarrow> checker_inv c'"
  by (auto simp: Stop_def split: if_splits)

definition hc_init :: "hc_sys \<Rightarrow> bool" where
  "hc_init s \<longleftrightarrow> (\<exists>cfg ts. int64 (hc_MaxFailures cfg) \<and>
     s = \<lparr>checker = NewChecker cfg ts, starting = 0, loops = 0\<rparr>)"

interpretation checker_system: invariant_system hc_init hc_step "\<lambda>s. checker_inv (checker s)"
proof unfold_locales
  show "checker_inv (checker s)" if "hc_init s" for s
    using that by (auto simp: hc_init_def NewChecker_inv)
  show "checker_inv (checker t)" if "checker_inv (checker s)" "hc_step s e t" for s e t
    using that(2,1)
    by cases (auto intro: checker_inv_checkTarget checker_inv_update checker_inv_Stop)
qed

section \<open>Runs of \<open>checkAll\<close>\<close>

lemma check_jobs_total:
  "checker_inv c \<Longrightarrow> fst ` set jobs \<subseteq> set (targets c) \<Longrightarrow>
   \<exists>c'. check_jobs http jobs c = Inr c' \<and> checker_inv c' \<and> targets c' = targets c \<and>
        running c' = running c \<and> stopClosed c' = stopClosed c"
proof (induction http jobs c rule: check_jobs.induct)
  case (1 http c)
  then show ?case by simp
next
  case (2 http target now now' jobs c)
  from 2(3) have "target \<in> set (targets c)" by simp
  with 2(2) obtain c1 where c1: "checkTarget http target now now' c = Inr c1"
    by (blast dest: checkTarget_total)
  with 2 checker_inv_checkTarget [OF _ c1] checker_frame [OF c1] show ?case by simp
qed

lemma jobs_for_subset: "jobs_for jobs ts \<Longrightarrow> fst ` set jobs \<subseteq> set ts"
  by (metis eq_refl jobs_for_def list.set_map mset_eq_setD)

lemma checkAll_total:
  assumes "checker_inv c" and "jobs_for jobs (targets c)"
  obtains c' where "checkAll http jobs c = Inr c'" and "checker_inv c'"
    and "targets c' = targets c" and "running c' = running c" and "stopClosed c' = stopClosed c"
    and "healthyTargets c' = filter (\<lambda>t. IsHealthy (the (healthStatus c' t))) (targets c')"
proof -
  obtain c1 where c1: "check_jobs http jobs c = Inr c1" "checker_inv c1" "targets c1 = targets c"
      "running c1 = running c" "stopClosed c1 = stopClosed c"
    using check_jobs_total [OF assms(1) jobs_for_subset [OF assms(2)]] by blast
  let ?c = "c1\<lparr>healthyTargets := filter (\<lambda>t. IsHealthy (the (healthStatus c1 t))) (targets c1)\<rparr>"
  have u: "updateHealthyTargets c1 = Inr ?c" by (rule updateHealthyTargets_eq [OF c1(2)])
  from checker_inv_update [OF c1(2) u] c1 u show ?thesis
    by (intro that [of ?c]) (simp_all add: checkAll_def)
qed

text \<open>With distinct targets the result of the goroutines is a function of the set of jobs.\<close>

definition after_jobs ::
  "http_client \<Rightarrow> job list \<Rightarrow> Checker \<Rightarrow> (string \<rightharpoonup> Status) \<Rightarrow> (string \<rightharpoonup> Status)" where
  "after_jobs http jobs c m t =
     (case map_of jobs t of
        None \<Rightarrow> m t
      | Some (now, now') \<Rightarrow> map_option (probed http now now' c t) (m t))"

lemma after_jobs_frame [simp]: "after_jobs http jobs (c\<lparr>healthStatus := m'\<rparr>) = after_jobs http jobs c"
  by (simp add: fun_eq_iff after_jobs_def split: option.splits)

lemma after_jobs_Cons:
  "target \<notin> fst ` set jobs \<Longrightarrow> m target = Some st \<Longrightarrow>
   after_jobs http jobs c (m(target \<mapsto> probed http now now' c target st)) =
     after_jobs http ((target, now, now') # jobs) c m"
  by (rule ext) (auto simp: after_jobs_def map_of_eq_None_iff [symmetric] split: option.splits)

lemma check_jobs_distinct:
  "checker_inv c \<Longrightarrow> fst ` set jobs \<subseteq> set (targets c) \<Longrightarrow> distinct (map fst jobs) \<Longrightarrow>
   check_jobs http jobs c =
     Inr (c\<lparr>healthStatus := after_jobs http jobs c (healthStatus c)\<rparr>)"
proof (induction http jobs c rule: check_jobs.induct)
  case (1 http c)
  have "after_jobs http [] c (healthStatus c) = healthStatus c"
    by (simp add: fun_eq_iff after_jobs_def)
  then show ?case by simp
next
  case (2 http target now now' jobs c)
  from 2(3) have "target \<in> set (targets c)" by simp
  with 2(2) obtain st where st: "healthStatus c target = Some st"
    by (blast dest: healthStatus_Some)
  let ?c = "c\<lparr>healthStatus := (healthStatus c)(target \<mapsto> probed http now now' c target st)\<rparr>"
  have c1: "checkTarget http target now now' c = Inr ?c"
    by (simp add: checkTarget_eq st)
  have "check_jobs http jobs ?c =
      Inr (?c\<lparr>healthStatus := after_jobs http jobs ?c (healthStatus ?c)\<rparr>)"
    using 2 c1 checker_inv_checkTarget [OF _ c1] by simp
  with 2(4) c1 st show ?case by (simp add: after_jobs_Cons)
qed

lemma map_of_mset_eq:
  "mset xs = mset ys \<Longrightarrow> distinct (map fst xs) \<Longrightarrow> map_of xs = map_of ys"
  by (metis distinct_map map_of_inject_set mset_eq_setD mset_map mset_eq_imp_distinct_iff)

section \<open>Failures in a row\<close>

text \<open>The results of the probes of a target in a run, and the failures at their end.\<close>

fun results_of :: "string \<Rightarrow> string \<Rightarrow> hc_event list \<Rightarrow> bool list" where
  "results_of ep t [] = []"
| "results_of ep t (Probed http target now now' # es) =
     (if target = t then [probe_ok http (target @ ep)] else []) @ results_of ep t es"
| "results_of ep t (_ # es) = results_of ep t es"

lemma results_of_append: "results_of ep t (es @ fs) = results_of ep t es @ results_of ep t fs"
  by (induction ep t es rule: results_of.induct) auto

definition failures_in_a_row :: "bool list \<Rightarrow> nat" where
  "failures_in_a_row rs = length (takeWhile (\<lambda>ok. \<not> ok) (rev rs))"

lemma failures_in_a_row_simps [simp]:
  "failures_in_a_row [] = 0"
  "failures_in_a_row (rs @ [ok]) = (if ok then 0 else Suc (failures_in_a_row rs))"
  by (simp_all add: failures_in_a_row_def)

definition tracks :: "int \<Rightarrow> Status \<Rightarrow> nat \<Rightarrow> bool" where
  "tracks maxF st k \<longleftrightarrow>
     (IsHealthy st \<longleftrightarrow> int k < maxF) \<and> (IsHealthy st \<longrightarrow> FailureCount st = int k)"

lemma tracks_success: "0 < maxF \<Longrightarrow> tracks maxF (status_success now now' st) 0"
  by (simp add: tracks_def status_success_def Let_def)

lemma tracks_failure:
  "int64 maxF \<Longrightarrow> tracks maxF st k \<Longrightarrow> tracks maxF (status_failure maxF now now' st) (Suc k)"
  by (auto simp: tracks_def status_failure_def Let_def int64_def)

lemma tracks_checkTarget:
  assumes "checker_inv c" and "checkTarget http target now now' c = Inr c'"
    and "t \<in> set (targets c)" and "tracks (hc_maxFailures c) (the (healthStatus c t)) (failures_in_a_row rs)"
  shows "tracks (hc_maxFailures c') (the (healthStatus c' t))
           (failures_in_a_row (rs @ (if target = t then [probe_ok http (target @ endpoint c)] else [])))"
proof -
  obtain st where st: "healthStatus c target = Some st"
      "c' = c\<lparr>healthStatus := (healthStatus c)(target \<mapsto> probed http now now' c target st)\<rparr>"
    using assms(2) by (auto simp: checkTarget_eq split: option.splits)
  have "0 < hc_maxFailures c" "int64 (hc_maxFailures c)"
    using assms(1) by (auto simp: checker_inv_def)
  with assms(4) st show ?thesis
    by (auto simp: probed_def tracks_success tracks_failure)
qed

lemma tracks_run:
  assumes "run hc_step s es u" and "checker_inv (checker s)" and "t \<in> set (targets (checker s))"
    and "tracks (hc_maxFailures (checker s)) (the (healthStatus (checker s) t)) 0"
  shows "targets (checker u) = targets (checker s) \<and> endpoint (checker u) = endpoint (checker s) \<and>
         hc_maxFailures (checker u) = hc_maxFailures (checker s) \<and>
         tracks (hc_maxFailures (checker u)) (the (healthStatus (checker u) t))
           (failures_in_a_row (results_of (endpoint (checker s)) t es))"
  using assms
proof (induction rule: run.induct)
  case (run_Nil s)
  then show ?case by simp
next
  case (run_snoc s es v e u)
  then have IH: "targets (checker v) = targets (checker s)" "endpoint (checker v) = endpoint (checker s)"
      "hc_maxFailures (checker v) = hc_maxFailures (checker s)"
      "tracks (hc_maxFailures (checker v)) (the (healthStatus (checker v) t))
         (failures_in_a_row (results_of (endpoint (checker s)) t es))"
    by blast+
  have inv: "checker_inv (checker v)"
    using run_snoc.hyps(1) run_snoc.prems(1) by (rule checker_system.inv_run)
  from run_snoc.hyps(2) show ?case
  proof cases
    case (probe target http now now' c)
    have "t \<in> set (targets (checker v))" using IH(1) run_snoc.prems(2) by simp
    note tr = tracks_checkTarget [OF inv probe(5) this IH(4)]
    from tr IH probe(1,2) checker_frame [OF probe(5)] show ?thesis
      by (cases "target = t") (simp_all add: results_of_append)
  next
    case (publish c)
    with IH updateHealthyTargets_eq [OF inv] show ?thesis by (auto simp: results_of_append)
  next
    case (stop c)
    with IH show ?thesis by (auto simp: results_of_append Stop_def split: if_splits)
  qed (use IH in \<open>simp_all add: results_of_append\<close>)
qed

lemma tracks_NewChecker:
  assumes "t \<in> set (targets (NewChecker cfg ts))"
  shows "tracks (hc_maxFailures (NewChecker cfg ts)) (the (healthStatus (NewChecker cfg ts) t)) 0"
proof -
  have "t \<in> dom (healthStatus (NewChecker cfg ts))"
    using assms by (simp add: NewChecker_def dom_init_statuses)
  then obtain st where st: "healthStatus (NewChecker cfg ts) t = Some st" by auto
  then obtain now where "st = new_status t now"
    by (auto simp: NewChecker_def dest!: init_statuses_Some)
  with st show ?thesis by (simp add: tracks_def new_status_def NewChecker_def)
qed

section \<open>A checker to try things on\<close>

definition demo_checker :: Checker where
  "demo_checker = NewChecker \<lparr>hc_Targets = Some [''a'', ''b''], hc_Endpoint = '''', hc_Interval = 0,
     hc_Timeout = 0, hc_MaxFailures = 1\<rparr> (\<lambda>_. 0)"

lemma demo_checker_eq:
  "demo_checker = \<lparr>targets = [''a'', ''b''],
     healthStatus = [''a'' \<mapsto> new_status ''a'' 0, ''b'' \<mapsto> new_status ''b'' 0], healthyTargets = [],
     endpoint = ''/health'', interval = 10 * Second, hc_timeout = 5 * Second, hc_maxFailures = 1,
     stopClosed = False, running = False\<rparr>"
  by (simp add: demo_checker_def NewChecker_def slice_of_def)

lemma demo_checker_inv: "checker_inv demo_checker"
  unfolding demo_checker_def by (rule NewChecker_inv) (simp add: int64_def)

definition demo_http :: http_client where
  "demo_http url = (if url = ''a/health'' then Response 204 else DoError)"

lemma demo_jobs: "jobs_for [(''b'', 1, 1), (''a'', 2, 2)] (targets demo_checker)"
  by (simp add: jobs_for_def demo_checker_eq)

section \<open>Properties\<close>

text \<open>C22: in every reachable state of a checker, whatever starts, stops and periodic
  checks interleave, each configured target has its status entry, the published list of
  healthy targets contains configured targets only, and neither recording a probe nor
  publishing the list can panic.\<close>

theorem checker_safe:
  assumes "hc_init s" and "run hc_step s es u"
  shows "set (GetHealthyTargets (checker u)) \<subseteq> set (GetAllTargets (checker u)) \<and>
         dom (GetAllStatus (checker u)) = set (GetAllTargets (checker u)) \<and>
         (\<forall>http t now now'. t \<in> set (GetAllTargets (checker u)) \<longrightarrow>
            (\<exists>c. checkTarget http t now now' (checker u) = Inr c)) \<and>
         (\<exists>c. updateHealthyTargets (checker u) = Inr c)"
proof -
  have "checker_inv (checker u)" using assms by (rule checker_system.inv_reachable)
  then show ?thesis
    using checkTarget_total [of "checker u"] updateHealthyTargets_eq [of "checker u"]
    by (auto simp: checker_inv_def GetHealthyTargets_def GetAllTargets_def GetAllStatus_def)
qed

theorem checker_safe_witness:
  "\<exists>c. checkTarget demo_http ''a'' 3 4 demo_checker = Inr c"
proof -
  have "hc_init \<lparr>checker = demo_checker, starting = 0, loops = 0\<rparr>"
    unfolding hc_init_def demo_checker_def
    by (rule exI [of _ "\<lparr>hc_Targets = Some [''a'', ''b''], hc_Endpoint = '''', hc_Interval = 0,
          hc_Timeout = 0, hc_MaxFailures = 1\<rparr>"]) (auto simp: int64_def)
  from checker_safe [OF this, of "[]"] show ?thesis by (simp add: GetAllTargets_def demo_checker_eq)
qed

text \<open>C29: a target is healthy exactly while its last probes contain fewer than
  \<open>maxFailures\<close> failures in a row: in every reachable state of a checker built by
  \<open>NewChecker\<close>, the health flag of a target is determined by the failures at the end of
  the sequence of its probes, whatever happens to the other targets in between.\<close>

theorem healthy_iff_few_failures_in_a_row:
  assumes "s = \<lparr>checker = NewChecker cfg ts, starting = 0, loops = 0\<rparr>"
    and "int64 (hc_MaxFailures cfg)" and "run hc_step s es u"
    and "GetStatus t (checker u) = Some st"
  shows "IsHealthy st \<longleftrightarrow>
           int (failures_in_a_row (results_of (endpoint (checker u)) t es)) < hc_maxFailures (checker u)"
proof -
  have inv: "checker_inv (checker s)" using assms(1,2) by (simp add: NewChecker_inv)
  have "checker_inv (checker u)" using assms(3) inv by (rule checker_system.inv_run)
  then have "t \<in> set (targets (checker u))"
    using assms(4) by (auto simp: checker_inv_def GetStatus_def)
  moreover have "targets (checker u) = targets (checker s)"
    using assms(3)
    by (induction rule: run.induct)
       (auto elim!: hc_step.cases simp: checker_frame updateHealthyTargets_def Stop_def
             split: sum.splits if_splits)
  ultimately have t: "t \<in> set (targets (checker s))" by simp
  from tracks_run [OF assms(3) inv t] tracks_NewChecker [of t cfg ts] t assms(1,4) show ?thesis
    by (simp add: tracks_def GetStatus_def)
qed

theorem healthy_iff_few_failures_in_a_row_witness:
  "\<not> IsHealthy (status_failure 1 3 4 (new_status ''b'' 0))"
proof -
  let ?cfg = "\<lparr>hc_Targets = Some [''a'', ''b''], hc_Endpoint = '''', hc_Interval = 0,
     hc_Timeout = 0, hc_MaxFailures = 1\<rparr>"
  let ?s = "\<lparr>checker = NewChecker ?cfg (\<lambda>_. 0), starting = 0, loops = 0\<rparr>"
  let ?c = "demo_checker\<lparr>running := True\<rparr>"
  let ?c' = "?c\<lparr>healthStatus := (healthStatus ?c)(''b'' \<mapsto> status_failure 1 3 4 (new_status ''b'' 0))\<rparr>"
  have "hc_step ?s Start_marked \<lparr>checker = ?c, starting = 1, loops = 0\<rparr>"
    using hc_step.mark [of ?s] by (simp add: demo_checker_def NewChecker_def)
  moreover have "hc_step \<lparr>checker = ?c, starting = 1, loops = 0\<rparr> (Probed demo_http ''b'' 3 4)
      \<lparr>checker = ?c', starting = 1, loops = 0\<rparr>"
    using hc_step.probe [of "\<lparr>checker = ?c, starting = 1, loops = 0\<rparr>" "''b''" demo_http 3 4 ?c']
    by (simp add: checkTarget_def recordFailure_def demo_http_def demo_checker_eq)
  ultimately have r: "run hc_step ?s [Start_marked, Probed demo_http ''b'' 3 4]
      \<lparr>checker = ?c', starting = 1, loops = 0\<rparr>"
    by (auto simp: run_Cons)
  from healthy_iff_few_failures_in_a_row [OF refl _ r, of "''b''"] show ?thesis
    by (simp add: GetStatus_def int64_def demo_checker_eq probe_ok_def demo_http_def
                  failures_in_a_row_def)
qed

text \<open>\<open>checkAll\<close> does not depend on the order in which its goroutines finish: for
  distinct targets, any two orders of the same jobs give the same checker.\<close>

theorem checkAll_order_irrelevant:
  assumes "checker_inv c" and "distinct (targets c)" and "jobs_for jobs (targets c)"
    and "mset jobs' = mset jobs"
  shows "checkAll http jobs' c = checkAll http jobs c"
proof -
  have d: "distinct (map fst jobs)"
    using assms(2,3) by (metis jobs_for_def mset_eq_imp_distinct_iff)
  have j: "jobs_for jobs' (targets c)" using assms(3,4) by (metis jobs_for_def mset_map)
  then have d': "distinct (map fst jobs')"
    using assms(2) by (metis jobs_for_def mset_eq_imp_distinct_iff)
  have "after_jobs http jobs' c = after_jobs http jobs c"
    using map_of_mset_eq [OF assms(4) d'] by (simp add: fun_eq_iff after_jobs_def)
  then show ?thesis
    using check_jobs_distinct [OF assms(1) jobs_for_subset [OF assms(3)] d]
      check_jobs_distinct [OF assms(1) jobs_for_subset [OF j] d'] by (simp add: checkAll_def)
qed

theorem checkAll_order_irrelevant_witness:
  "checkAll demo_http [(''a'', 2, 2), (''b'', 1, 1)] demo_checker =
   checkAll demo_http [(''b'', 1, 1), (''a'', 2, 2)] demo_checker"
  by (rule checkAll_order_irrelevant [OF demo_checker_inv _ demo_jobs]) (simp_all add: demo_checker_eq)

text \<open>C30: \<open>checkAll\<close> publishes the truth: it always completes, the healthy targets are
  then, in their configured order, exactly the targets whose status is healthy, and the
  overall health is \<open>Unhealthy\<close> if there are none, \<open>Healthy\<close> if they are all of the
  targets and \<open>Degraded\<close> otherwise.\<close>

theorem checkAll_publishes_healthy:
  assumes "checker_inv c" and "jobs_for jobs (targets c)"
  shows "\<exists>c'. checkAll http jobs c = Inr c' \<and> checker_inv c' \<and>
     GetHealthyTargets c' = filter (\<lambda>t. IsHealthy (the (GetStatus t c'))) (GetAllTargets c') \<and>
     OverallHealth c' =
       (if \<forall>t \<in> set (targets c). \<not> IsHealthy (the (GetStatus t c')) then Unhealthy
        else if \<forall>t \<in> set (targets c). IsHealthy (the (GetStatus t c')) then Healthy
        else Degraded)"
proof -
  let ?h = "\<lambda>c t. IsHealthy (the (healthStatus c t))"
  obtain c' where c': "checkAll http jobs c = Inr c'" "checker_inv c'" "targets c' = targets c"
      "healthyTargets c' = filter (?h c') (targets c')"
    using assms by (rule checkAll_total)
  have "length (filter (?h c') (targets c)) < length (targets c) \<longleftrightarrow>
        \<not> (\<forall>t \<in> set (targets c). ?h c' t)"
    by (metis filter_True length_filter_less nat_neq_iff)
  moreover have "filter (?h c') (targets c) = [] \<longleftrightarrow> (\<forall>t \<in> set (targets c). \<not> ?h c' t)"
    by (simp add: filter_empty_conv)
  ultimately show ?thesis
    using c' by (auto simp: OverallHealth_def GetHealthyTargets_def GetAllTargets_def GetStatus_def)
qed

theorem checkAll_publishes_healthy_witness:
  "\<exists>c'. checkAll demo_http [(''b'', 1, 1), (''a'', 2, 2)] demo_checker = Inr c' \<and> checker_inv c'"
  using checkAll_publishes_healthy [OF demo_checker_inv demo_jobs, of demo_http] by blast

text \<open>a checker cannot be restarted: after \<open>Start\<close>, \<open>Stop\<close> and \<open>Start\<close> again, the
  stop channel is still the closed one, so the new loop of periodic checks may return at
  once and the next \<open>Stop\<close> panics.\<close>

theorem restarted_checker_panics_on_stop:
  assumes "checker_inv c" and "\<not> running c" and "\<not> stopClosed c"
    and "jobs_for jobs (targets c)" and "jobs_for jobs' (targets c)"
  shows "\<exists>c1 c2 c3. Start http jobs c = Inr (c1, True) \<and> Stop c1 = Inr c2 \<and> Stop c2 = Inr c2 \<and>
           Start http' jobs' c2 = Inr (c3, True) \<and> Stop c3 = Inl CloseOfClosedChannel \<and>
           hc_step \<lparr>checker = c3, starting = 0, loops = 1\<rparr> Loop_returned
                   \<lparr>checker = c3, starting = 0, loops = 0\<rparr>"
proof -
  obtain c1 where c1: "checkAll http jobs (c\<lparr>running := True\<rparr>) = Inr c1" "checker_inv c1"
      "targets c1 = targets c" "running c1" "\<not> stopClosed c1"
    using assms by (auto intro: checkAll_total [of "c\<lparr>running := True\<rparr>" jobs http])
  let ?c2 = "c1\<lparr>stopClosed := True, running := False\<rparr>"
  obtain c3 where c3: "checkAll http' jobs' (?c2\<lparr>running := True\<rparr>) = Inr c3" "running c3" "stopClosed c3"
    using c1 assms(5) by (auto intro: checkAll_total [of "?c2\<lparr>running := True\<rparr>" jobs' http'])
  show ?thesis
    using c1 c3 assms(2) hc_step.return [of "\<lparr>checker = c3, starting = 0, loops = 1\<rparr>" 0]
    by (intro exI [of _ c1] exI [of _ ?c2] exI [of _ c3]) (simp add: Start_def Stop_def)
qed

theorem restarted_checker_panics_on_stop_witness:
  "\<exists>c1 c2 c3. Start demo_http [(''b'', 1, 1), (''a'', 2, 2)] demo_checker = Inr (c1, True) \<and>
     Stop c1 = Inr c2 \<and> Start demo_http [(''b'', 1, 1), (''a'', 2, 2)] c2 = Inr (c3, True) \<and>
     Stop c3 = Inl CloseOfClosedChannel"
  using restarted_checker_panics_on_stop [OF demo_checker_inv _ _ demo_jobs demo_jobs, of demo_http demo_http]
  by (auto simp: demo_checker_eq)

end
