(* ===== verification/Models.thy ===== *)
theory Models
  imports Prelude
begin

text \<open>
  The database models of \<open>src/internal/models\<close>.  A \<open>uuid.UUID\<close> is represented by its
  canonical text, so that \<open>String()\<close> is the identity; \<open>uuid.New()\<close> is an argument of the
  operation that calls it.  A nil pointer is \<open>None\<close>.
\<close>

type_synonym uuid = string

definition uuid_Nil :: uuid where
  "uuid_Nil = ''00000000-0000-0000-0000-000000000000''"

record APIKey =
  ID :: uuid
  KeyHash :: string
  Name :: string
  CreatedBy :: string
  Tier :: string
  IsActive :: bool
  CreatedAt :: time
  LastUsedAt :: "time option"

text \<open>\<open>BeforeCreate\<close>, with the identifier that \<open>uuid.New()\<close> would return.\<close>

definition APIKey_BeforeCreate :: "uuid \<Rightarrow> APIKey \<Rightarrow> APIKey" where
  "APIKey_BeforeCreate fresh a = (if ID a = uuid_Nil then a\<lparr>ID := fresh\<rparr> else a)"

definition APIKey_TableName :: string where
  "APIKey_TableName = ''api_keys''"

record User =
  user_ID :: uuid
  Email :: string
  PasswordHash :: string
  user_Name :: string
  Role :: string
  user_CreatedAt :: time

definition User_BeforeCreate :: "uuid \<Rightarrow> User \<Rightarrow> User" where
  "User_BeforeCreate fresh u = (if user_ID u = uuid_Nil then u\<lparr>user_ID := fresh\<rparr> else u)"

definition User_TableName :: string where
  "User_TableName = ''users''"

record RequestLog =
  log_ID :: nat
  Timestamp :: time
  APIKeyID :: "uuid option"
  log_Method :: string
  log_Path :: string
  StatusCode :: int
  ResponseTimeMs :: int
  IPAddress :: string
  UserAgent :: string
  BackendServer :: string

definition RequestLog_TableName :: string where
  "RequestLog_TableName = ''request_logs''"

record RateLimitTier =
  tier_Name :: string
  tier_RequestsPerMinute :: int
  tier_RequestsPerHour :: int
  tier_Algorithm :: string

definition RateLimitTier_TableName :: string where
  "RateLimitTier_TableName = ''rate_limit_tiers''"

end
