(* ===== verification/GoText.thy ===== *)
theory GoText
  imports Prelude "HOL-Library.Sublist"
begin

text \<open>
  The functions on strings of the Go library that the gateway uses: decimal printing
  (\<open>%d\<close>, \<open>strconv.Itoa\<close>) and parsing (\<open>strconv.Atoi\<close>, \<open>Sscanf\<close> with \<open>%d\<close>), \<open>strings.Split\<close>
  and \<open>strings.TrimSpace\<close>.  A string is its list of bytes.  The two facts the other
  theories rest on are that parsing inverts printing and that a key built from a name and a
  number determines both.
\<close>

section \<open>Decimal numbers\<close>

definition digit :: "nat \<Rightarrow> char" where
  "digit d = char_of (48 + d)"

definition is_digit :: "char \<Rightarrow> bool" where
  "is_digit c \<longleftrightarrow> 48 \<le> (of_char c :: nat) \<and> (of_char c :: nat) \<le> 57"

definition digit_value :: "char \<Rightarrow> nat" where
  "digit_value c = of_char c - 48"

fun decimal :: "nat \<Rightarrow> string" where
  "decimal n = (if n < 10 then [digit n] else decimal (n div 10) @ [digit (n mod 10)])"

declare decimal.simps [simp del]

text \<open>\<open>strconv.Itoa\<close> and the verb \<open>%d\<close>.\<close>

definition Itoa :: "int \<Rightarrow> string" where
  "Itoa n = (if n < 0 then CHR ''-'' # decimal (nat (- n)) else decimal (nat n))"

definition number :: "string \<Rightarrow> nat" where
  "number s = foldl (\<lambda>n c. 10 * n + digit_value c) 0 s"

text \<open>The sign and the digits of a literal.\<close>

fun signed_literal :: "string \<Rightarrow> bool \<times> string" where
  "signed_literal [] = (False, [])"
| "signed_literal (c # cs) =
     (if c = CHR ''-'' then (True, cs) else if c = CHR ''+'' then (False, cs)
      else (False, c # cs))"

definition ErrSyntax :: go_error where "ErrSyntax = Sentinel ''invalid syntax''"
definition ErrRange :: go_error where "ErrRange = Sentinel ''value out of range''"

text \<open>\<open>strconv.Atoi\<close>: the value is 0 after a syntax error and the nearest limit after a
  range error.\<close>

definition Atoi :: "string \<Rightarrow> int \<times> go_error option" where
  "Atoi s =
     (case signed_literal s of (neg, ds) \<Rightarrow>
        if ds = [] \<or> \<not> list_all is_digit ds then (0, Some ErrSyntax)
        else let n = (if neg then - int (number ds) else int (number ds)) in
             if n < min_int64 then (min_int64, Some ErrRange)
             else if max_int64 < n then (max_int64, Some ErrRange)
             else (n, None))"

text \<open>\<open>fmt.Sscanf(s, "%d", &n)\<close> into a variable that holds 0: spaces are skipped, then the
  longest literal is read; after any error the variable keeps its 0.\<close>

definition Sscanf_d :: "string \<Rightarrow> int" where
  "Sscanf_d s =
     (case signed_literal (dropWhile (\<lambda>c. c = CHR '' '') s) of (neg, cs) \<Rightarrow>
        let ds = takeWhile is_digit cs;
            n = (if neg then - int (number ds) else int (number ds))
        in if ds \<noteq> [] \<and> int64 n then n else 0)"

lemma of_char_digit: "d < 10 \<Longrightarrow> of_char (digit d) = 48 + d"
  by (simp add: digit_def)

lemma is_digit_digit [simp]: "d < 10 \<Longrightarrow> is_digit (digit d)"
  by (simp add: is_digit_def of_char_digit)

lemma digit_value_digit [simp]: "d < 10 \<Longrightarrow> digit_value (digit d) = d"
  by (simp add: digit_value_def of_char_digit)

lemma decimal_digits [simp]: "list_all is_digit (decimal n)"
  by (induction n rule: decimal.induct) (subst decimal.simps, simp)

lemma decimal_not_Nil [simp]: "decimal n \<noteq> []"
  by (subst decimal.simps) simp

lemma number_snoc [simp]: "number (s @ [c]) = 10 * number s + digit_value c"
  by (simp add: number_def)

lemma number_decimal [simp]: "number (decimal n) = n"
proof (induction n rule: decimal.induct)
  case (1 n)
  show ?case
  proof (cases "n < 10")
    case True
    then show ?thesis by (subst decimal.simps) (simp add: number_def)
  next
    case False
    then show ?thesis using 1 by (subst decimal.simps) simp
  qed
qed

lemma hd_decimal: "is_digit (hd (decimal n))"
  using decimal_digits [of n] decimal_not_Nil [of n] by (cases "decimal n") auto

lemma not_digit_sign [simp]: "\<not> is_digit CHR ''-''" "\<not> is_digit CHR ''+''" "\<not> is_digit CHR '' ''"
    "\<not> is_digit CHR '':''"
  by (simp_all add: is_digit_def)

lemma signed_literal_decimal [simp]: "signed_literal (decimal n) = (False, decimal n)"
  using hd_decimal [of n] by (cases "decimal n") auto

lemma signed_literal_Itoa: "signed_literal (Itoa n) = (n < 0, decimal (nat \<bar>n\<bar>))"
  by (simp add: Itoa_def)

lemma Atoi_Itoa [simp]: "int64 n \<Longrightarrow> Atoi (Itoa n) = (n, None)"
  by (simp add: Atoi_def signed_literal_Itoa int64_def)

lemma dropWhile_spaces_Itoa: "dropWhile (\<lambda>c. c = CHR '' '') (Itoa n) = Itoa n"
  using hd_decimal [of "nat n"] by (cases "decimal (nat n)") (auto simp: Itoa_def)

lemma takeWhile_decimal [simp]: "takeWhile is_digit (decimal n) = decimal n"
  using decimal_digits [of n] by (simp add: takeWhile_eq_all_conv list_all_iff)

lemma Sscanf_d_Itoa [simp]: "int64 n \<Longrightarrow> Sscanf_d (Itoa n) = n"
  by (simp add: Sscanf_d_def dropWhile_spaces_Itoa signed_literal_Itoa Let_def)

lemma Itoa_inj [simp]: "Itoa m = Itoa n \<longleftrightarrow> m = n"
proof
  assume "Itoa m = Itoa n"
  then have "(m < 0, decimal (nat \<bar>m\<bar>)) = (n < 0, decimal (nat \<bar>n\<bar>))"
    by (metis signed_literal_Itoa)
  then have "m < 0 \<longleftrightarrow> n < 0" "number (decimal (nat \<bar>m\<bar>)) = number (decimal (nat \<bar>n\<bar>))"
    by auto
  then show "m = n" by (auto split: if_splits)
qed simp

lemma colon_notin_Itoa [simp]: "CHR '':'' \<notin> set (Itoa n)"
  using decimal_digits [of "nat n"] decimal_digits [of "nat (- n)"]
  by (auto simp: Itoa_def list_all_iff)

section \<open>Keys\<close>

text \<open>The last field of a key contains no colon, so the key can be taken apart.\<close>

lemma takeWhile_rev_key:
  "CHR '':'' \<notin> set a \<Longrightarrow>
     takeWhile (\<lambda>c. c \<noteq> CHR '':'') (rev (s @ CHR '':'' # a)) = rev a"
  by (simp add: takeWhile_tail) (metis (mono_tags, lifting) set_rev takeWhile_eq_all_conv)

lemma colon_key_eq [simp]:
  assumes "CHR '':'' \<notin> set a" "CHR '':'' \<notin> set b"
  shows "s @ CHR '':'' # a = t @ CHR '':'' # b \<longleftrightarrow> s = t \<and> a = b"
proof
  assume eq: "s @ CHR '':'' # a = t @ CHR '':'' # b"
  have "rev a = rev b"
    using takeWhile_rev_key [OF assms(1), of s] takeWhile_rev_key [OF assms(2), of t]
    unfolding eq by (rule trans [OF sym])
  with eq show "s = t \<and> a = b" by simp
qed simp

section \<open>Splitting and trimming\<close>

text \<open>\<open>strings.Split(s, " ")\<close>.\<close>

fun Split_space :: "string \<Rightarrow> string list" where
  "Split_space [] = [[]]"
| "Split_space (c # cs) =
     (if c = CHR '' '' then [] # Split_space cs
      else case Split_space cs of [] \<Rightarrow> [[c]] | w # ws \<Rightarrow> (c # w) # ws)"

lemma Split_space_not_Nil [simp]: "Split_space s \<noteq> []"
  by (induction s) (auto split: list.splits)

lemma Split_space_word: "CHR '' '' \<notin> set s \<Longrightarrow> Split_space s = [s]"
  by (induction s) auto

lemma Split_space_append:
  "CHR '' '' \<notin> set w \<Longrightarrow> Split_space (w @ CHR '' '' # s) = w # Split_space s"
  by (induction w) auto

text \<open>Joining the parts with single spaces gives the string back.\<close>

fun Join_space :: "string list \<Rightarrow> string" where
  "Join_space [] = []"
| "Join_space [w] = w"
| "Join_space (w # ws) = w @ CHR '' '' # Join_space ws"

lemma Join_space_Cons: "ws \<noteq> [] \<Longrightarrow> Join_space (w # ws) = w @ CHR '' '' # Join_space ws"
  by (cases ws) auto

lemma Join_Split: "Join_space (Split_space s) = s"
proof (induction s)
  case (Cons c cs)
  then show ?case
    by (cases "Split_space cs"; cases "tl (Split_space cs)") (auto simp: Join_space_Cons)
qed simp

lemma Split_space_parts: "w \<in> set (Split_space s) \<Longrightarrow> CHR '' '' \<notin> set w"
  by (induction s arbitrary: w) (auto split: list.splits if_splits)

text \<open>\<open>unicode.IsSpace\<close> as the UTF-8 encodings of the runes it accepts: a prefix or a
  suffix of a byte string decodes to such a rune exactly if it is one of these.\<close>

definition space_runes :: "string list" where
  "space_runes = map (map char_of)
     ([[9], [10], [11], [12], [13], [32], [0xC2, 0x85], [0xC2, 0xA0], [0xE1, 0x9A, 0x80]] @
      map (\<lambda>i. [0xE2, 0x80, i]) ([0x80..<0x8B] @ [0xA8, 0xA9, 0xAF]) @
      [[0xE2, 0x81, 0x9F], [0xE3, 0x80, 0x80 :: nat]])"

lemma space_rune_not_Nil: "p \<in> set space_runes \<Longrightarrow> p \<noteq> []"
  by (auto simp: space_runes_def)

lemma find_space_rune_length:
  "find P space_runes = Some p \<Longrightarrow> 0 < length p"
  by (auto simp: find_Some_iff dest: space_rune_not_Nil [OF nth_mem])

function TrimLeft_space :: "string \<Rightarrow> string" where
  "TrimLeft_space s =
     (case find (\<lambda>p. prefix p s) space_runes of
        None \<Rightarrow> s
      | Some p \<Rightarrow> TrimLeft_space (drop (length p) s))"
  by pat_completeness auto

termination
proof (relation "measure length")
  fix s p
  assume "find (\<lambda>p. prefix p s) space_runes = Some p"
  then have "prefix p s" and pos: "0 < length p"
    using find_space_rune_length by (auto simp: find_Some_iff)
  then have "length p \<le> length s" by (simp add: prefix_length_le)
  with pos have "length s - length p < length s" by linarith
  then show "(drop (length p) s, s) \<in> measure length"
    by simp
qed simp

function TrimRight_space :: "string \<Rightarrow> string" where
  "TrimRight_space s =
     (case find (\<lambda>p. suffix p s) space_runes of
        None \<Rightarrow> s
      | Some p \<Rightarrow> TrimRight_space (take (length s - length p) s))"
  by pat_completeness auto

termination
proof (relation "measure length")
  fix s p
  assume "find (\<lambda>p. suffix p s) space_runes = Some p"
  then have "suffix p s" and pos: "0 < length p"
    using find_space_rune_length by (auto simp: find_Some_iff)
  then have "length p \<le> length s" by (simp add: suffix_length_le)
  with pos have "length s - length p < length s" by linarith
  then show "(take (length s - length p) s, s) \<in> measure length"
    by simp
qed simp

declare TrimLeft_space.simps [simp del] TrimRight_space.simps [simp del]

text \<open>\<open>strings.TrimSpace\<close>.\<close>

definition TrimSpace :: "string \<Rightarrow> string" where
  "TrimSpace s = TrimRight_space (TrimLeft_space s)"

lemma TrimSpace_no_space:
  assumes "\<And>p. p \<in> set space_runes \<Longrightarrow> \<not> prefix p s \<and> \<not> suffix p s"
  shows "TrimSpace s = s"
proof -
  have "find (\<lambda>p. prefix p s) space_runes = None" "find (\<lambda>p. suffix p s) space_runes = None"
    using assms by (auto simp: find_None_iff)
  then show ?thesis
    by (simp add: TrimSpace_def TrimLeft_space.simps TrimRight_space.simps)
qed

lemma TrimLeft_space_suffix: "suffix (TrimLeft_space s) s"
proof (induction s rule: TrimLeft_space.induct)
  case (1 s)
  show ?case
  proof (cases "find (\<lambda>p. prefix p s) space_runes")
    case None
    then show ?thesis by (simp add: TrimLeft_space.simps)
  next
    case (Some p)
    then have "suffix (TrimLeft_space (drop (length p) s)) (drop (length p) s)" by (rule 1)
    then show ?thesis
      using Some by (subst TrimLeft_space.simps) (auto intro: suffix_order.trans suffix_drop)
  qed
qed

lemma TrimRight_space_done: "p \<in> set space_runes \<Longrightarrow> \<not> suffix p (TrimRight_space s)"
proof (induction s rule: TrimRight_space.induct)
  case (1 s)
  show ?case
  proof (cases "find (\<lambda>p. suffix p s) space_runes")
    case None
    then have "TrimRight_space s = s" by (simp add: TrimRight_space.simps)
    with None 1(2) show ?thesis by (auto simp: find_None_iff)
  next
    case (Some q)
    then show ?thesis using 1 by (simp add: TrimRight_space.simps [of s])
  qed
qed

lemma TrimLeft_space_done: "p \<in> set space_runes \<Longrightarrow> \<not> prefix p (TrimLeft_space s)"
proof (induction s rule: TrimLeft_space.induct)
  case (1 s)
  show ?case
  proof (cases "find (\<lambda>p. prefix p s) space_runes")
    case None
    then have "TrimLeft_space s = s" by (simp add: TrimLeft_space.simps)
    with None 1(2) show ?thesis by (auto simp: find_None_iff)
  next
    case (Some q)
    then show ?thesis using 1 by (simp add: TrimLeft_space.simps [of s])
  qed
qed

lemma TrimRight_space_prefix: "prefix (TrimRight_space s) s"
proof (induction s rule: TrimRight_space.induct)
  case (1 s)
  show ?case
  proof (cases "find (\<lambda>p. suffix p s) space_runes")
    case None
    then show ?thesis by (simp add: TrimRight_space.simps)
  next
    case (Some p)
    then have "prefix (TrimRight_space (take (length s - length p) s)) (take (length s - length p) s)"
      by (rule 1)
    then show ?thesis
      using Some by (subst TrimRight_space.simps)
        (auto intro: prefix_order.trans [OF _ take_is_prefix])
  qed
qed

text \<open>Nothing is left to trim, so trimming twice is trimming once.\<close>

lemma TrimSpace_idem [simp]: "TrimSpace (TrimSpace s) = TrimSpace s"
proof (rule TrimSpace_no_space)
  fix p assume p: "p \<in> set space_runes"
  have "\<not> prefix p (TrimSpace s)"
    using TrimLeft_space_done [OF p, of s] TrimRight_space_prefix [of "TrimLeft_space s"]
    unfolding TrimSpace_def by (blast intro: prefix_order.trans)
  moreover have "\<not> suffix p (TrimSpace s)"
    using TrimRight_space_done [OF p] by (simp add: TrimSpace_def)
  ultimately show "\<not> prefix p (TrimSpace s) \<and> \<not> suffix p (TrimSpace s)" ..
qed

section \<open>Encodings of byte strings\<close>

definition hex_char :: "nat \<Rightarrow> char" where
  "hex_char n = ''0123456789abcdef'' ! n"

text \<open>\<open>hex.EncodeToString\<close> and \<open>base64.URLEncoding.EncodeToString\<close>.\<close>

fun hex_EncodeToString :: "string \<Rightarrow> string" where
  "hex_EncodeToString [] = []"
| "hex_EncodeToString (c # cs) =
     hex_char (of_char c div 16) # hex_char (of_char c mod 16) # hex_EncodeToString cs"

definition base64_char :: "nat \<Rightarrow> char" where
  "base64_char n =
     ''ABCDEFGHIJKLMNOPQRSTUVWXYZabcdefghijklmnopqrstuvwxyz0123456789-_'' ! (n mod 64)"

fun base64_EncodeToString :: "string \<Rightarrow> string" where
  "base64_EncodeToString [] = []"
| "base64_EncodeToString [a] =
     (let n = of_char a * 65536
      in [base64_char (n div 262144), base64_char (n div 4096), CHR ''='', CHR ''=''])"
| "base64_EncodeToString [a, b] =
     (let n = of_char a * 65536 + of_char b * 256
      in [base64_char (n div 262144), base64_char (n div 4096), base64_char (n div 64), CHR ''=''])"
| "base64_EncodeToString (a # b # c # rest) =
     (let n = of_char a * 65536 + of_char b * 256 + of_char c
      in base64_char (n div 262144) # base64_char (n div 4096) # base64_char (n div 64) #
         base64_char n # base64_EncodeToString rest)"

lemma hex_char_inj: "m < 16 \<Longrightarrow> n < 16 \<Longrightarrow> hex_char m = hex_char n \<Longrightarrow> m = n"
  unfolding hex_char_def by (subst (asm) nth_eq_iff_index_eq) simp_all

lemma hex_EncodeToString_inj: "hex_EncodeToString s = hex_EncodeToString t \<Longrightarrow> s = t"
proof (induction s arbitrary: t)
  case Nil
  then show ?case by (cases t) simp_all
next
  case (Cons c s)
  then obtain d u where t: "t = d # u" by (cases t) auto
  have lt: "of_char x div 16 < (16 :: nat)" for x :: char
    using nat_of_char_less_256 [of x] by (simp add: less_mult_imp_div_less)
  have "of_char c div 16 = (of_char d div 16 :: nat)" "of_char c mod 16 = (of_char d mod 16 :: nat)"
    using Cons.prems t by (auto intro!: hex_char_inj lt)
  then have "of_char c = (of_char d :: nat)" by (metis div_mult_mod_eq)
  then show ?case using Cons t by auto
qed

definition ascii :: "string \<Rightarrow> bool" where
  "ascii s \<longleftrightarrow> list_all (\<lambda>c. of_char c < (128 :: nat)) s"

end
