(* ===== verification/Json.thy ===== *)
theory Json
  imports Complex_Main GoText "HOL-Library.Countable"
begin

text \<open>
  JSON values, and how \<open>encoding/json\<close> decodes them into Go values.  The text of a document
  is turned into a value by a function that is an argument of the operations that parse;
  what is modelled here is the part that depends on the source, the struct tags: a decoder
  takes the value and the current content of the variable and gives the new content and
  whether a type error occurred.  Decoding goes on after a type error and reports it at the
  end, as the library does.
\<close>

datatype json =
    JNull
  | JBool bool
  | JInt int
  | JFloat rat
  | JStr string
  | JTime time
  | JList "json list"
  | JObj "(string \<times> json) list"

instance json :: countable
  by countable_datatype

definition error_body :: "string \<Rightarrow> json" where
  "error_body msg = JObj [(''error'', JStr msg)]"

type_synonym 'a decoder = "json \<Rightarrow> 'a \<Rightarrow> 'a \<times> bool"

definition decode_string :: "string decoder" where
  "decode_string j x = (case j of JStr s \<Rightarrow> (s, False) | JNull \<Rightarrow> (x, False) | _ \<Rightarrow> (x, True))"

definition decode_bool :: "bool decoder" where
  "decode_bool j x = (case j of JBool b \<Rightarrow> (b, False) | JNull \<Rightarrow> (x, False) | _ \<Rightarrow> (x, True))"

text \<open>Only an integer literal in the range of the type is accepted.\<close>

definition decode_int :: "int decoder" where
  "decode_int j x =
     (case j of
        JInt n \<Rightarrow> if int64 n then (n, False) else (x, True)
      | JNull \<Rightarrow> (x, False)
      | _ \<Rightarrow> (x, True))"

text \<open>A slice: the elements are decoded into zero values.  A pointer: null is nil.\<close>

definition decode_list :: "'a \<Rightarrow> 'a decoder \<Rightarrow> 'a list decoder" where
  "decode_list zero d j xs =
     (case j of
        JList js \<Rightarrow> (let rs = map (\<lambda>j. d j zero) js in (map fst rs, list_ex snd rs))
      | JNull \<Rightarrow> ([], False)
      | _ \<Rightarrow> (xs, True))"

definition decode_ptr :: "'a \<Rightarrow> 'a decoder \<Rightarrow> 'a option decoder" where
  "decode_ptr zero d j p =
     (if j = JNull then (None, False)
      else case d j (case p of None \<Rightarrow> zero | Some x \<Rightarrow> x) of (y, e) \<Rightarrow> (Some y, e))"

text \<open>A field of a struct, given by its selector and its update.\<close>

definition decode_field :: "('a \<Rightarrow> 'b) \<Rightarrow> (('b \<Rightarrow> 'b) \<Rightarrow> 'a \<Rightarrow> 'a) \<Rightarrow> 'b decoder \<Rightarrow> 'a decoder" where
  "decode_field get upd d j x = (case d j (get x) of (y, e) \<Rightarrow> (upd (\<lambda>_. y) x, e))"

text \<open>Names are matched exactly or else up to case: ASCII letters, and the two other
  characters that Unicode folds to ASCII letters, the long s and the Kelvin sign.\<close>

definition lower :: "char \<Rightarrow> char" where
  "lower c = (let n = of_char c :: nat in if 65 \<le> n \<and> n \<le> 90 then char_of (n + 32) else c)"

fun fold_name :: "string \<Rightarrow> string" where
  "fold_name [] = []"
| "fold_name (c # cs) =
     (if map of_char (take 2 (c # cs)) = [0xC5, 0xBF :: nat] then CHR ''s'' # fold_name (drop 1 cs)
      else if map of_char (take 3 (c # cs)) = [0xE2, 0x84, 0xAA :: nat]
        then CHR ''k'' # fold_name (drop 2 cs)
      else lower c # fold_name cs)"

definition plain :: "char \<Rightarrow> bool" where
  "plain c \<longleftrightarrow> (let n = of_char c :: nat in n < 65 \<or> 90 < n \<and> n < 128)"

lemma fold_name_plain: "list_all plain s \<Longrightarrow> fold_name s = s"
  by (induction s) (auto simp: plain_def lower_def Let_def)

declare fold_name.simps [simp del]

definition find_field :: "(string \<times> 'a decoder) list \<Rightarrow> string \<Rightarrow> 'a decoder option" where
  "find_field fields k =
     (case map_of fields k of
        Some d \<Rightarrow> Some d
      | None \<Rightarrow> map_option snd (find (\<lambda>(name, d). fold_name name = fold_name k) fields))"

fun decode_members :: "(string \<times> 'a decoder) list \<Rightarrow> (string \<times> json) list \<Rightarrow> 'a \<Rightarrow> 'a \<times> bool" where
  "decode_members fields [] x = (x, False)"
| "decode_members fields ((k, j) # kvs) x =
     (case find_field fields k of
        None \<Rightarrow> decode_members fields kvs x
      | Some d \<Rightarrow>
          (case d j x of (y, e) \<Rightarrow>
             case decode_members fields kvs y of (z, e') \<Rightarrow> (z, e \<or> e')))"

definition decode_struct :: "(string \<times> 'a decoder) list \<Rightarrow> 'a decoder" where
  "decode_struct fields j x =
     (case j of
        JObj kvs \<Rightarrow> decode_members fields kvs x
      | JNull \<Rightarrow> (x, False)
      | _ \<Rightarrow> (x, True))"

text \<open>\<open>json.Unmarshal\<close> of a text into a variable that holds \<open>zero\<close>.\<close>

definition UnmarshalTypeError :: go_error where
  "UnmarshalTypeError = Sentinel ''json.UnmarshalTypeError''"

definition Unmarshal ::
    "(string \<Rightarrow> go_error + json) \<Rightarrow> 'a decoder \<Rightarrow> 'a \<Rightarrow> string \<Rightarrow> 'a \<times> go_error option" where
  "Unmarshal parse d zero txt =
     (case parse txt of
        Inl e \<Rightarrow> (zero, Some e)
      | Inr j \<Rightarrow> (case d j zero of (x, e) \<Rightarrow> (x, if e then Some UnmarshalTypeError else None)))"

lemma decode_members_append:
  "decode_members fields (xs @ ys) x =
     (case decode_members fields xs x of (y, e) \<Rightarrow>
        case decode_members fields ys y of (z, e') \<Rightarrow> (z, e \<or> e'))"
  by (induction xs arbitrary: x) (auto split: option.splits prod.splits)
lemma find_field_None:
  "list_all (\<lambda>f. fold_name (fst f) \<noteq> fold_name k) fields \<Longrightarrow> find_field fields k = None"
  by (induction fields) (auto simp: find_field_def split: option.splits if_splits)

lemma decode_struct_unknown:
  "find_field fields k = None \<Longrightarrow>
     decode_struct fields (JObj (xs @ (k, j) # ys)) x = decode_struct fields (JObj (xs @ ys)) x"
  by (simp add: decode_struct_def decode_members_append)

end
