(* ===== verification/Gin.thy ===== *)
theory Gin
  imports Models Json
begin

text \<open>
  What the handlers see of the web framework.  The framework is not part of the
  repository, so nothing is assumed about what it sends: a context records, in order, the
  calls the handlers make on it, next to what they read from the request and to the keys
  they have set.  A handler works on a state \<open>'w\<close> of its own and on the context; \<open>c.Next()\<close>
  is an argument of the middleware.  A handler returns or panics, and in both cases what
  it did before remains.
\<close>

section \<open>Requests\<close>

text \<open>Header names are in canonical form; only the first value of a header is read.
  \<open>ClientIP\<close> is what the framework derives from the connection and its headers.\<close>

record http_request =
  Method :: string
  URL_Path :: string
  URL_Host :: string
  URL_Scheme :: string
  Host :: string
  Header :: "string \<rightharpoonup> string"

definition Header_Get :: "string \<Rightarrow> http_request \<Rightarrow> string" where
  "Header_Get k r = (case Header r k of None \<Rightarrow> '''' | Some v \<Rightarrow> v)"

definition Header_Set :: "string \<Rightarrow> string \<Rightarrow> http_request \<Rightarrow> http_request" where
  "Header_Set k v r = r\<lparr>Header := (Header r)(k \<mapsto> v)\<rparr>"

lemma Header_Get_Set [simp]:
  "Header_Get k (Header_Set k' v r) = (if k = k' then v else Header_Get k r)"
  by (simp add: Header_Get_def Header_Set_def)

section \<open>The context\<close>

text \<open>\<open>Printf\<close> stands for \<open>log.Printf\<close>, with the values it formats.  \<open>Body\<close> is the text of the
  request body.\<close>

datatype ctx_value =
    VAPIKey APIKey
  | VUUID uuid
  | VString string
  | VJson json

datatype gin_call =
    Header_call string string
  | JSON int json
  | Abort
  | AbortWithStatus int
  | ServeHTTP string http_request
  | WriteHeader int
  | Write string
  | Printf string "json list"

record gin_ctx =
  Request :: http_request
  Body :: string
  ClientIP :: string
  Query :: "string \<rightharpoonup> string"
  Param :: "string \<rightharpoonup> string"
  Keys :: "string \<rightharpoonup> ctx_value"
  calls :: "gin_call list"

definition call :: "gin_call \<Rightarrow> gin_ctx \<Rightarrow> gin_ctx" where
  "call a c = c\<lparr>calls := calls c @ [a]\<rparr>"

definition ctx_Set :: "string \<Rightarrow> ctx_value \<Rightarrow> gin_ctx \<Rightarrow> gin_ctx" where
  "ctx_Set k v c = c\<lparr>Keys := (Keys c)(k \<mapsto> v)\<rparr>"

text \<open>\<open>c.GetString(k)\<close>: the value if it is a string, the empty string otherwise.\<close>

definition ctx_GetString :: "string \<Rightarrow> gin_ctx \<Rightarrow> string" where
  "ctx_GetString k c = (case Keys c k of Some (VString s) \<Rightarrow> s | _ \<Rightarrow> '''')"

definition ctx_Query :: "string \<Rightarrow> gin_ctx \<Rightarrow> string" where
  "ctx_Query k c = (case Query c k of None \<Rightarrow> '''' | Some v \<Rightarrow> v)"

definition ctx_Param :: "string \<Rightarrow> gin_ctx \<Rightarrow> string" where
  "ctx_Param k c = (case Param c k of None \<Rightarrow> '''' | Some v \<Rightarrow> v)"

lemma call_simps [simp]:
  "Request (call a c) = Request c" "Body (call a c) = Body c" "Keys (call a c) = Keys c" "ClientIP (call a c) = ClientIP c"
  "Query (call a c) = Query c" "Param (call a c) = Param c" "calls (call a c) = calls c @ [a]"
  by (simp_all add: call_def)

lemma ctx_Set_simps [simp]:
  "Request (ctx_Set k v c) = Request c" "Body (ctx_Set k v c) = Body c" "ClientIP (ctx_Set k v c) = ClientIP c"
  "Query (ctx_Set k v c) = Query c" "Param (ctx_Set k v c) = Param c"
  "calls (ctx_Set k v c) = calls c" "Keys (ctx_Set k v c) = (Keys c)(k \<mapsto> v)"
  by (simp_all add: ctx_Set_def)

section \<open>Handlers\<close>

datatype 'w result = Returned 'w gin_ctx | Panicked panic 'w gin_ctx

type_synonym 'w handler = "'w \<Rightarrow> gin_ctx \<Rightarrow> 'w result"
type_synonym 'w middleware = "'w handler \<Rightarrow> 'w handler"

fun result_world :: "'w result \<Rightarrow> 'w" where
  "result_world (Returned w c) = w"
| "result_world (Panicked p w c) = w"

fun result_ctx :: "'w result \<Rightarrow> gin_ctx" where
  "result_ctx (Returned w c) = c"
| "result_ctx (Panicked p w c) = c"

section \<open>Request bodies\<close>

text \<open>
  \<open>c.ShouldBindJSON\<close>: the framework reads a JSON value from the body, decodes it with the
  struct tags and then checks the \<open>binding\<close> tags: for each field the tags are tried in order
  up to the first that fails.  The reading of the text, the syntax of e-mail addresses, the
  errors of the validation and the messages of library errors are the framework's.
\<close>

record framework =
  read_json :: "string \<Rightarrow> go_error + json"
  valid_email :: "string \<Rightarrow> bool"
  validation_error :: "(string \<times> string) list \<Rightarrow> go_error"
  library_message :: "string \<Rightarrow> string"
  Writer_Status :: "gin_call list \<Rightarrow> int"

fun Error :: "framework \<Rightarrow> go_error \<Rightarrow> string" where
  "Error fw (Sentinel name) = library_message fw name"
| "Error fw (Errors_New msg) = msg"
| "Error fw (Errorf msg err) = msg @ Error fw err"

type_synonym 'a binding_tags = "(string \<times> (string \<times> ('a \<Rightarrow> bool)) list) list"

fun failed_tags :: "'a binding_tags \<Rightarrow> 'a \<Rightarrow> (string \<times> string) list" where
  "failed_tags [] x = []"
| "failed_tags ((field, tags) # rest) x =
     (case find (\<lambda>(tag, ok). \<not> ok x) tags of
        None \<Rightarrow> failed_tags rest x
      | Some (tag, _) \<Rightarrow> (field, tag) # failed_tags rest x)"

definition ShouldBindJSON ::
    "framework \<Rightarrow> 'a decoder \<Rightarrow> 'a binding_tags \<Rightarrow> 'a \<Rightarrow> gin_ctx \<Rightarrow> go_error + 'a" where
  "ShouldBindJSON fw d tags zero c =
     (case Unmarshal (read_json fw) d zero (Body c) of
        (x, Some err) \<Rightarrow> Inl err
      | (x, None) \<Rightarrow>
          (let failed = failed_tags tags x
           in if failed = [] then Inr x else Inl (validation_error fw failed)))"

text \<open>The tags used: \<open>required\<close> on a string, \<open>email\<close>, and \<open>min\<close>, which counts code points, that
  is, the bytes of the (valid) text that do not continue a character.\<close>

definition required_tag :: "('a \<Rightarrow> string) \<Rightarrow> string \<times> ('a \<Rightarrow> bool)" where
  "required_tag field = (''required'', \<lambda>x. field x \<noteq> '''')"

definition email_tag :: "framework \<Rightarrow> ('a \<Rightarrow> string) \<Rightarrow> string \<times> ('a \<Rightarrow> bool)" where
  "email_tag fw field = (''email'', \<lambda>x. valid_email fw (field x))"

definition rune_count :: "string \<Rightarrow> nat" where
  "rune_count s = length (filter (\<lambda>c. \<not> (128 \<le> (of_char c :: nat) \<and> of_char c < (192 :: nat))) s)"

definition min_tag :: "nat \<Rightarrow> ('a \<Rightarrow> string) \<Rightarrow> string \<times> ('a \<Rightarrow> bool)" where
  "min_tag n field = (''min'', \<lambda>x. n \<le> rune_count (field x))"

lemma find_failed_None:
  "find (\<lambda>(tag, ok). \<not> ok x) ts = None \<longleftrightarrow> list_all (\<lambda>(tag, ok). ok x) ts"
  by (induction ts) auto

lemma failed_tags_Nil:
  "failed_tags tags x = [] \<longleftrightarrow> list_all (\<lambda>(field, ts). list_all (\<lambda>(tag, ok). ok x) ts) tags"
  by (induction tags x rule: failed_tags.induct)
     (simp_all flip: find_failed_None split: option.splits)

lemma ShouldBindJSON_Inr:
  assumes "ShouldBindJSON fw d tags zero c = Inr x"
  shows "list_all (\<lambda>(field, ts). list_all (\<lambda>(tag, ok). ok x) ts) tags"
  using assms
  by (auto simp: ShouldBindJSON_def Let_def failed_tags_Nil split: prod.splits option.splits if_splits)

section \<open>Responses and composition\<close>

definition respond :: "int \<Rightarrow> json \<Rightarrow> 'w \<Rightarrow> gin_ctx \<Rightarrow> 'w result" where
  "respond code body w c = Returned w (call (JSON code body) c)"

definition reject :: "int \<Rightarrow> json \<Rightarrow> 'w \<Rightarrow> gin_ctx \<Rightarrow> 'w result" where
  "reject code body w c = Returned w (call Abort (call (JSON code body) c))"

text \<open>A handler of one component, run on a state that contains the component.\<close>

definition on_part :: "('w \<Rightarrow> 'v) \<Rightarrow> ('v \<Rightarrow> 'w \<Rightarrow> 'w) \<Rightarrow> 'v handler \<Rightarrow> 'w handler" where
  "on_part get put h w c =
     (case h (get w) c of
        Returned v c' \<Rightarrow> Returned (put v w) c'
      | Panicked p v c' \<Rightarrow> Panicked p (put v w) c')"

end
