(* ===== verification/Proxy.thy ===== *)
theory Proxy
  imports CircuitBreaker LoadBalancer HealthCheck Gin
begin

text \<open>
  The reverse proxy of \<open>src/internal/proxy\<close>: its construction from a configuration and
  its handler, which ties the health checker, the load balancer and the circuit breaker
  together.  URL parsing, the reverse proxy of the standard library with the backend
  behind it, and the random numbers are parameters; the results hold for all of them.
\<close>

section \<open>The proxy\<close>

record URL =
  url_Scheme :: string
  url_Host :: string

type_synonym url_parser = "string \<Rightarrow> go_error + URL"

text \<open>What the reverse proxy does with the response writer, in order, before it returns
  or panics (it aborts the handler when copying the response fails).\<close>

datatype writer_op = Write_header int | Write_body string

datatype served = Served "writer_op list" | Serve_panicked "writer_op list" panic

type_synonym backend = "URL \<Rightarrow> http_request \<Rightarrow> served"

record 'g Proxy =
  p_targets :: "string list"
  proxies :: "string \<rightharpoonup> URL"
  circuitBreaker :: CircuitBreaker
  loadBalancer :: "'g Strategy"
  healthChecker :: Checker

record ProxyConfig =
  Targets :: "string list"
  LoadBalancerStrategy :: string
  pc_CircuitBreaker :: CBConfig
  pc_HealthCheck :: HCConfig

fun parse_targets :: "url_parser \<Rightarrow> string list \<Rightarrow> (string \<rightharpoonup> URL) \<Rightarrow> go_error + (string \<rightharpoonup> URL)" where
  "parse_targets parse [] m = Inr m"
| "parse_targets parse (targetURL # rest) m =
     (case parse targetURL of
        Inl err \<Rightarrow> Inl err
      | Inr target \<Rightarrow> parse_targets parse rest (m(targetURL \<mapsto> target)))"

text \<open>
  \<open>NewWithConfig\<close>.  \<open>rng\<close> is the fresh generator of the random strategy, \<open>now\<close> and \<open>ts\<close>
  are the clock readings of the circuit breaker and of the health checker, \<open>http\<close> and
  \<open>jobs\<close> the first round of health checks, which \<open>Start\<close> runs before it returns.
\<close>

definition NewWithConfig ::
  "url_parser \<Rightarrow> 'g \<Rightarrow> http_client \<Rightarrow> job list \<Rightarrow> time \<Rightarrow> clock \<Rightarrow> ProxyConfig \<Rightarrow>
   (go_error + 'g Proxy) outcome" where
  "NewWithConfig parse rng http jobs now ts cfg =
     (if length (Targets cfg) = 0 then Inr (Inl (Errors_New ''at least one target is required''))
      else let cb = CircuitBreaker_New (pc_CircuitBreaker cfg) now
      in case NewStrategy rng (LoadBalancerStrategy cfg) of
           Inl err \<Rightarrow> Inr (Inl err)
         | Inr lb \<Rightarrow>
             (case parse_targets parse (Targets cfg) Map.empty of
                Inl err \<Rightarrow> Inr (Inl err)
              | Inr ps \<Rightarrow>
                  (let hcfg = (if hc_Targets (pc_HealthCheck cfg) = None
                               then (pc_HealthCheck cfg)\<lparr>hc_Targets := Some (Targets cfg)\<rparr>
                               else pc_HealthCheck cfg)
                   in case Start http jobs (NewChecker hcfg ts) of
                        Inl p \<Rightarrow> Inl p
                      | Inr (hc, _) \<Rightarrow>
                          Inr (Inr \<lparr>p_targets = Targets cfg, proxies = ps, circuitBreaker = cb,
                                    loadBalancer = lb, healthChecker = hc\<rparr>))))"

text \<open>\<open>New\<close>: one target, round robin, the default circuit breaker.\<close>

definition Proxy_New ::
  "url_parser \<Rightarrow> 'g \<Rightarrow> http_client \<Rightarrow> job list \<Rightarrow> time \<Rightarrow> clock \<Rightarrow> string \<Rightarrow>
   (go_error + 'g Proxy) outcome" where
  "Proxy_New parse rng http jobs now ts targetURL =
     NewWithConfig parse rng http jobs now ts
       \<lparr>Targets = [targetURL], LoadBalancerStrategy = ''round-robin'',
        pc_CircuitBreaker = \<lparr>MaxFailures = 5, Timeout = 30 * Second, HalfOpenSuccess = 1\<rparr>,
        pc_HealthCheck = \<lparr>hc_Targets = None, hc_Endpoint = '''', hc_Interval = 0, hc_Timeout = 0,
                          hc_MaxFailures = 0\<rparr>\<rparr>"

section \<open>Handling a request\<close>

text \<open>The response recorder passes every call to the response writer and remembers the
  status code.\<close>

record responseRecorder =
  statusCode :: int

definition recorder_WriteHeader ::
  "int \<Rightarrow> responseRecorder \<times> gin_ctx \<Rightarrow> responseRecorder \<times> gin_ctx" where
  "recorder_WriteHeader code rc =
     ((fst rc)\<lparr>statusCode := code\<rparr>, call (WriteHeader code) (snd rc))"

definition recorder_Write ::
  "string \<Rightarrow> responseRecorder \<times> gin_ctx \<Rightarrow> responseRecorder \<times> gin_ctx" where
  "recorder_Write data rc = (fst rc, call (Write data) (snd rc))"

fun recorder_ops :: "writer_op list \<Rightarrow> responseRecorder \<times> gin_ctx \<Rightarrow> responseRecorder \<times> gin_ctx" where
  "recorder_ops [] rc = rc"
| "recorder_ops (Write_header code # ops) rc = recorder_ops ops (recorder_WriteHeader code rc)"
| "recorder_ops (Write_body data # ops) rc = recorder_ops ops (recorder_Write data rc)"

text \<open>The changes to the request before it is forwarded.\<close>

definition proxied_request :: "URL \<Rightarrow> string \<Rightarrow> http_request \<Rightarrow> http_request" where
  "proxied_request target clientIP req0 =
     (let req1 = req0\<lparr>URL_Host := url_Host target, URL_Scheme := url_Scheme target\<rparr>;
          req2 = Header_Set ''X-Forwarded-Host'' (Header_Get ''Host'' req1) req1;
          req3 = req2\<lparr>Host := url_Host target\<rparr>
      in if clientIP \<noteq> '''' then Header_Set ''X-Forwarded-For'' clientIP req3 else req3)"

text \<open>The function the circuit breaker protects.  \<open>target\<close> is \<open>None\<close> where \<open>url.Parse\<close>
  returned a nil pointer.\<close>

definition forward ::
  "backend \<Rightarrow> URL option \<Rightarrow> URL \<Rightarrow> string \<Rightarrow> gin_ctx \<Rightarrow> go_error option outcome \<times> gin_ctx" where
  "forward backend target targetProxy selectedTarget c =
     (case target of
        None \<Rightarrow> (Inl NilDereference, c)
      | Some u \<Rightarrow>
          (let req = proxied_request u (ClientIP c) (Request c);
               c1 = call (Header_call ''X-Backend-Server'' selectedTarget) (c\<lparr>Request := req\<rparr>);
               c2 = call (ServeHTTP selectedTarget req) c1
           in case backend targetProxy req of
                Serve_panicked ops p \<Rightarrow> (Inl p, snd (recorder_ops ops (\<lparr>statusCode = 200\<rparr>, c2)))
              | Served ops \<Rightarrow>
                  (let (recorder, c3) = recorder_ops ops (\<lparr>statusCode = 200\<rparr>, c2)
                   in (Inr (if statusCode recorder \<ge> 500 then Some (Errors_New ''backend error'')
                            else None), c3))))"

text \<open>The connection counts, where the strategy is least connections.\<close>

fun track_start :: "string \<Rightarrow> 'g Strategy \<Rightarrow> 'g Strategy" where
  "track_start target (StrategyLeastConnections l) = StrategyLeastConnections (Increment target l)"
| "track_start target s = s"

fun track_end :: "string \<Rightarrow> 'g Strategy \<Rightarrow> 'g Strategy" where
  "track_end target (StrategyLeastConnections l) = StrategyLeastConnections (Decrement target l)"
| "track_end target s = s"

abbreviation unavailable :: "string \<Rightarrow> gin_ctx \<Rightarrow> gin_ctx" where
  "unavailable msg \<equiv> call (JSON 503 (error_body msg))"

definition Proxy_Handle ::
  "'g intn \<Rightarrow> url_parser \<Rightarrow> backend \<Rightarrow> clock \<Rightarrow> 'g Proxy handler" where
  "Proxy_Handle intn parse backend ts p c =
     (let healthy = GetHealthyTargets (healthChecker p)
      in if length healthy = 0
         then Returned p (unavailable ''No healthy backend servers available'' c)
         else let (selected, lb) = Strategy_Next intn healthy (loadBalancer p);
                  p1 = p\<lparr>loadBalancer := lb\<rparr>
              in case selected of
                   Inl panic \<Rightarrow> Panicked panic p1 c
                 | Inr selectedTarget \<Rightarrow>
                     if selectedTarget = ''''
                     then Returned p1 (unavailable ''Failed to select backend server'' c)
                     else case proxies p selectedTarget of
                            None \<Rightarrow> Returned p1 (unavailable ''Internal server error'' c)
                          | Some targetProxy \<Rightarrow>
                              (let lb1 = track_start selectedTarget lb;
                                   target = (case parse selectedTarget of Inl _ \<Rightarrow> None | Inr u \<Rightarrow> Some u);
                                   ((res, c'), cb) =
                                     Call ts (forward backend target targetProxy selectedTarget) c
                                       (circuitBreaker p);
                                   p' = p\<lparr>loadBalancer := track_end selectedTarget lb1, circuitBreaker := cb\<rparr>
                               in case res of
                                    Inl panic \<Rightarrow> Panicked panic p' c'
                                  | Inr err \<Rightarrow>
                                      if err = Some ErrCircuitOpen
                                      then Returned p' (unavailable ''Service temporarily unavailable'' c')
                                      else Returned p' c'))"

section \<open>The rest of the interface\<close>

definition CircuitBreakerState :: "'g Proxy \<Rightarrow> State" where
  "CircuitBreakerState p = CircuitBreaker_State (circuitBreaker p)"

definition CircuitBreakerMetrics :: "'g Proxy \<Rightarrow> Metrics" where
  "CircuitBreakerMetrics p = CircuitBreaker_Metrics (circuitBreaker p)"

definition ResetCircuitBreaker :: "time \<Rightarrow> 'g Proxy \<Rightarrow> 'g Proxy" where
  "ResetCircuitBreaker now p = p\<lparr>circuitBreaker := CircuitBreaker_Reset now (circuitBreaker p)\<rparr>"

definition GetHealthStatus :: "'g Proxy \<Rightarrow> (string \<rightharpoonup> Status)" where
  "GetHealthStatus p = GetAllStatus (healthChecker p)"

definition Proxy_GetHealthyTargets :: "'g Proxy \<Rightarrow> string list" where
  "Proxy_GetHealthyTargets p = GetHealthyTargets (healthChecker p)"

definition Proxy_GetAllTargets :: "'g Proxy \<Rightarrow> string list" where
  "Proxy_GetAllTargets p = GetAllTargets (healthChecker p)"

definition Proxy_OverallHealth :: "'g Proxy \<Rightarrow> HealthStatus" where
  "Proxy_OverallHealth p = OverallHealth (healthChecker p)"

definition Proxy_Stop :: "'g Proxy \<Rightarrow> 'g Proxy outcome" where
  "Proxy_Stop p =
     (case Stop (healthChecker p) of Inl e \<Rightarrow> Inl e | Inr hc \<Rightarrow> Inr (p\<lparr>healthChecker := hc\<rparr>))"

section \<open>Well-formed proxies\<close>

definition counts_ok :: "'g Strategy \<Rightarrow> bool" where
  "counts_ok s = (case s of
     StrategyLeastConnections l \<Rightarrow> \<forall>t. 0 \<le> conn l t \<and> conn l t < max_int64 | _ \<Rightarrow> True)"

definition proxy_inv :: "url_parser \<Rightarrow> 'g Proxy \<Rightarrow> bool" where
  "proxy_inv parse p \<longleftrightarrow>
     cb_inv (circuitBreaker p) \<and> checker_inv (healthChecker p) \<and>
     set (targets (healthChecker p)) \<subseteq> dom (proxies p) \<and>
     (\<forall>t u. proxies p t = Some u \<longrightarrow> parse t = Inr u) \<and> counts_ok (loadBalancer p)"

lemma parse_targets_Inr:
  "parse_targets parse ts m = Inr m' \<Longrightarrow>
     dom m' = dom m \<union> set ts \<and> (\<forall>t u. m' t = Some u \<longrightarrow> m t = Some u \<or> parse t = Inr u)"
proof (induction ts arbitrary: m)
  case Nil
  then show ?case by simp
next
  case (Cons t ts)
  then obtain u where u: "parse t = Inr u" "parse_targets parse ts (m(t \<mapsto> u)) = Inr m'"
    by (auto split: sum.splits)
  from Cons.IH [OF u(2)] u(1) show ?case by (auto split: if_splits)
qed

lemma Start_NewChecker:
  assumes "int64 (hc_MaxFailures cfg)" and "jobs_for jobs (slice_of (hc_Targets cfg))"
  obtains c where "Start http jobs (NewChecker cfg ts) = Inr (c, True)" and "checker_inv c"
    and "targets c = slice_of (hc_Targets cfg)" and "running c" and "\<not> stopClosed c"
    and "GetHealthyTargets c = filter (\<lambda>t. IsHealthy (the (GetStatus t c))) (targets c)"
proof -
  let ?n = "NewChecker cfg ts"
  have n: "checker_inv (?n\<lparr>running := True\<rparr>)" "targets (?n\<lparr>running := True\<rparr>) = slice_of (hc_Targets cfg)"
      "\<not> running ?n" "\<not> stopClosed (?n\<lparr>running := True\<rparr>)"
    using NewChecker_inv [OF assms(1)] by simp_all
  obtain c where "checkAll http jobs (?n\<lparr>running := True\<rparr>) = Inr c" "checker_inv c"
      "targets c = slice_of (hc_Targets cfg)" "running c" "\<not> stopClosed c"
      "healthyTargets c = filter (\<lambda>t. IsHealthy (the (healthStatus c t))) (targets c)"
    using n assms(2) by (auto intro: checkAll_total [of "?n\<lparr>running := True\<rparr>" jobs http])
  with n(3) show ?thesis
    by (intro that [of c]) (simp_all add: Start_def GetHealthyTargets_def GetStatus_def)
qed

text \<open>The configuration of the health checker, with its default targets.\<close>

definition effective_hc :: "ProxyConfig \<Rightarrow> HCConfig" where
  "effective_hc cfg =
     (if hc_Targets (pc_HealthCheck cfg) = None
      then (pc_HealthCheck cfg)\<lparr>hc_Targets := Some (Targets cfg)\<rparr> else pc_HealthCheck cfg)"

definition config_ok :: "ProxyConfig \<Rightarrow> bool" where
  "config_ok cfg \<longleftrightarrow>
     int64 (MaxFailures (pc_CircuitBreaker cfg)) \<and> int64 (Timeout (pc_CircuitBreaker cfg)) \<and>
     int64 (HalfOpenSuccess (pc_CircuitBreaker cfg)) \<and> int64 (hc_MaxFailures (pc_HealthCheck cfg)) \<and>
     set (slice_of (hc_Targets (pc_HealthCheck cfg))) \<subseteq> set (Targets cfg)"

lemma NewWithConfig_cases:
  assumes "config_ok cfg" and "jobs_for jobs (slice_of (hc_Targets (effective_hc cfg)))"
  shows "(\<exists>e. NewWithConfig parse rng http jobs now ts cfg = Inr (Inl e)) \<or>
         (\<exists>p. NewWithConfig parse rng http jobs now ts cfg = Inr (Inr p) \<and> proxy_inv parse p \<and>
              NewStrategy rng (LoadBalancerStrategy cfg) = Inr (loadBalancer p) \<and>
              targets (healthChecker p) = slice_of (hc_Targets (effective_hc cfg)) \<and>
              running (healthChecker p) \<and> \<not> stopClosed (healthChecker p) \<and>
              GetHealthyTargets (healthChecker p) =
                filter (\<lambda>t. IsHealthy (the (GetStatus t (healthChecker p)))) (targets (healthChecker p)))"
proof -
  have mf: "int64 (hc_MaxFailures (effective_hc cfg))"
    using assms(1) by (simp add: config_ok_def effective_hc_def)
  obtain c where c: "Start http jobs (NewChecker (effective_hc cfg) ts) = Inr (c, True)" "checker_inv c"
      "targets c = slice_of (hc_Targets (effective_hc cfg))" "running c" "\<not> stopClosed c"
      "GetHealthyTargets c = filter (\<lambda>t. IsHealthy (the (GetStatus t c))) (targets c)"
    using mf assms(2) by (rule Start_NewChecker)
  show ?thesis
  proof (cases "\<exists>e. NewWithConfig parse rng http jobs now ts cfg = Inr (Inl e)")
    case False
    then obtain lb ps where lb: "NewStrategy rng (LoadBalancerStrategy cfg) = Inr lb"
        and ps: "parse_targets parse (Targets cfg) Map.empty = Inr ps" and "Targets cfg \<noteq> []"
      by (auto simp: NewWithConfig_def Let_def split: sum.splits if_splits)
    let ?p = "\<lparr>p_targets = Targets cfg, proxies = ps,
       circuitBreaker = CircuitBreaker_New (pc_CircuitBreaker cfg) now, loadBalancer = lb,
       healthChecker = c\<rparr>"
    have "NewWithConfig parse rng http jobs now ts cfg = Inr (Inr ?p)"
      using lb ps c(1) \<open>Targets cfg \<noteq> []\<close>
      by (simp add: NewWithConfig_def Let_def flip: effective_hc_def)
    moreover have "set (targets c) \<subseteq> dom ps"
      using assms(1) parse_targets_Inr [OF ps] c(3)
      by (auto simp: config_ok_def effective_hc_def slice_of_def split: if_splits)
    moreover have "counts_ok lb"
      using lb by (rule NewStrategy_cases) (simp_all add: counts_ok_def)
    moreover have "cb_inv (CircuitBreaker_New (pc_CircuitBreaker cfg) now)"
      using assms(1) by (simp add: config_ok_def cb_inv_New)
    ultimately show ?thesis
      using c(2-6) lb parse_targets_Inr [OF ps] by (auto simp: proxy_inv_def)
  qed blast
qed

section \<open>What the handler does\<close>

fun op_call :: "writer_op \<Rightarrow> gin_call" where
  "op_call (Write_header code) = WriteHeader code"
| "op_call (Write_body data) = Write data"

fun codes :: "writer_op list \<Rightarrow> int list" where
  "codes [] = []"
| "codes (Write_header code # ops) = code # codes ops"
| "codes (Write_body data # ops) = codes ops"

text \<open>The status code of a response: the last one written, 200 if none was.\<close>

definition final_status :: "writer_op list \<Rightarrow> int" where
  "final_status ops = last (200 # codes ops)"

lemma recorder_ops_eq:
  "recorder_ops ops (r, c) =
     (\<lparr>statusCode = last (statusCode r # codes ops)\<rparr>, c\<lparr>calls := calls c @ map op_call ops\<rparr>)"
  by (induction ops "(r, c)" arbitrary: r c rule: recorder_ops.induct)
     (simp_all add: recorder_WriteHeader_def recorder_Write_def call_def)

text \<open>The context after forwarding: the changed request and the calls made on the way.\<close>

definition forwarded :: "URL \<Rightarrow> string \<Rightarrow> writer_op list \<Rightarrow> gin_ctx \<Rightarrow> gin_ctx" where
  "forwarded u selectedTarget ops c =
     (let req = proxied_request u (ClientIP c) (Request c)
      in c\<lparr>Request := req,
           calls := calls c @ [Header_call ''X-Backend-Server'' selectedTarget, ServeHTTP selectedTarget req]
                      @ map op_call ops\<rparr>)"

lemma forward_eq:
  "forward backend (Some u) tp sel c =
     (case backend tp (proxied_request u (ClientIP c) (Request c)) of
        Serve_panicked ops p \<Rightarrow> (Inl p, forwarded u sel ops c)
      | Served ops \<Rightarrow>
          (Inr (if final_status ops \<ge> 500 then Some (Errors_New ''backend error'') else None),
           forwarded u sel ops c))"
  by (simp add: forward_def forwarded_def recorder_ops_eq final_status_def Let_def call_def
           split: served.split)

lemma Strategy_Next_least [simp]: "counts_ok s \<Longrightarrow> counts_ok (snd (Strategy_Next intn ts s))"
  by (cases s) (auto simp: counts_ok_def split: prod.splits)

lemma track_balanced:
  "counts_ok s \<Longrightarrow> counts_ok (track_end t (track_start t s)) \<and>
   (\<forall>l. s = StrategyLeastConnections l \<longrightarrow>
      (\<exists>l'. track_end t (track_start t s) = StrategyLeastConnections l' \<and> conn l' = conn l)) \<and>
   ((\<forall>l. s \<noteq> StrategyLeastConnections l) \<longrightarrow> track_end t (track_start t s) = s)"
  by (cases s) (auto simp: counts_ok_def conn_Decrement_Increment fun_eq_iff)

text \<open>What a well-formed proxy does with a request, in its three cases.\<close>

lemma Proxy_Handle_selected:
  assumes "proxy_inv parse p" and "strategy_ready intn (Suc n) (loadBalancer p)"
    and "GetHealthyTargets (healthChecker p) \<noteq> []"
  obtains sel u lb where
    "Strategy_Next intn (GetHealthyTargets (healthChecker p)) (loadBalancer p) = (Inr sel, lb)"
    "sel \<in> set (GetHealthyTargets (healthChecker p))" "sel \<in> set (targets (healthChecker p))"
    "proxies p sel = Some u" "parse sel = Inr u" "counts_ok lb" "strategy_ready intn n lb"
proof -
  let ?h = "GetHealthyTargets (healthChecker p)"
  obtain sel where sel: "sel \<in> set ?h" "fst (Strategy_Next intn ?h (loadBalancer p)) = Inr sel"
    using balancer.next_member [OF assms(2,3)] by blast
  have t: "sel \<in> set (targets (healthChecker p))"
    using sel(1) assms(1) by (auto simp: proxy_inv_def checker_inv_def GetHealthyTargets_def)
  then obtain u where u: "proxies p sel = Some u"
    using assms(1) by (auto simp: proxy_inv_def)
  then have "parse sel = Inr u" using assms(1) by (simp add: proxy_inv_def)
  moreover have "counts_ok (snd (Strategy_Next intn ?h (loadBalancer p)))"
    using assms(1) by (simp add: proxy_inv_def)
  moreover have "strategy_ready intn n (snd (Strategy_Next intn ?h (loadBalancer p)))"
    using assms(2) by (rule balancer.next_ready)
  ultimately show ?thesis
    using that [of sel "snd (Strategy_Next intn ?h (loadBalancer p))" u] sel t u
    by (metis prod.collapse)
qed

lemma Proxy_Handle_eq:
  assumes "GetHealthyTargets (healthChecker p) \<noteq> []"
    and "Strategy_Next intn (GetHealthyTargets (healthChecker p)) (loadBalancer p) = (Inr sel, lb)"
    and "proxies p sel = Some u" and "parse sel = Inr u"
  shows "Proxy_Handle intn parse backend ts p c =
    (let q = p\<lparr>loadBalancer := track_end sel (track_start sel lb)\<rparr>
     in if sel = ''''
        then Returned (p\<lparr>loadBalancer := lb\<rparr>) (unavailable ''Failed to select backend server'' c)
        else case Call_begin (ts 0) (ts 1) (circuitBreaker p) of
           None \<Rightarrow> Returned q (unavailable ''Service temporarily unavailable'' c)
         | Some cb \<Rightarrow>
             (case backend u (proxied_request u (ClientIP c) (Request c)) of
                Serve_panicked ops e \<Rightarrow> Panicked e (q\<lparr>circuitBreaker := cb\<rparr>) (forwarded u sel ops c)
              | Served ops \<Rightarrow>
                  Returned (q\<lparr>circuitBreaker :=
                      (if final_status ops \<ge> 500 then onFailure (ts 2) (ts 3) cb
                       else onSuccess (ts 2) cb)\<rparr>) (forwarded u sel ops c)))"
  using assms
  by (simp add: Proxy_Handle_def Call_def forward_eq Call_end_def ErrCircuitOpen_def Let_def
           split: option.split served.split)

text \<open>What the handler may do, given the backend that was called: the calls it adds to the
  context and the circuit breaker it leaves.\<close>

definition rejected :: "'g Proxy \<Rightarrow> gin_ctx \<Rightarrow> 'g Proxy result \<Rightarrow> bool" where
  "rejected p c r \<longleftrightarrow>
     (\<exists>msg p'. r = Returned p' (unavailable msg c) \<and> circuitBreaker p' = circuitBreaker p)"

definition passed_on :: "backend \<Rightarrow> clock \<Rightarrow> 'g Proxy \<Rightarrow> gin_ctx \<Rightarrow> 'g Proxy result \<Rightarrow> bool" where
  "passed_on backend ts p c r \<longleftrightarrow>
     (\<exists>sel u cb ops.
        sel \<in> set (GetHealthyTargets (healthChecker p)) \<and> proxies p sel = Some u \<and>
        Call_begin (ts 0) (ts 1) (circuitBreaker p) = Some cb \<and>
        calls (result_ctx r) = calls c @
          [Header_call ''X-Backend-Server'' sel,
           ServeHTTP sel (proxied_request u (ClientIP c) (Request c))] @ map op_call ops \<and>
        (case backend u (proxied_request u (ClientIP c) (Request c)) of
           Served ops' \<Rightarrow> ops' = ops \<and> (\<exists>p' c'. r = Returned p' c') \<and>
             circuitBreaker (result_world r) =
               (if final_status ops \<ge> 500 then onFailure (ts 2) (ts 3) cb else onSuccess (ts 2) cb)
         | Serve_panicked ops' e \<Rightarrow> ops' = ops \<and> (\<exists>p' c'. r = Panicked e p' c') \<and>
             circuitBreaker (result_world r) = cb))"

lemma calls_forwarded:
  "calls (forwarded u sel ops c) = calls c @
     [Header_call ''X-Backend-Server'' sel, ServeHTTP sel (proxied_request u (ClientIP c) (Request c))]
     @ map op_call ops"
  by (simp add: forwarded_def Let_def)

lemma proxy_inv_update:
  "proxy_inv parse p \<Longrightarrow> counts_ok lb \<Longrightarrow> cb_inv cb \<Longrightarrow>
   proxy_inv parse (p\<lparr>loadBalancer := lb, circuitBreaker := cb\<rparr>)"
  by (simp add: proxy_inv_def)

fun connection_counts :: "'g Strategy \<Rightarrow> string \<Rightarrow> int" where
  "connection_counts (StrategyLeastConnections l) t = conn l t"
| "connection_counts s t = 0"

lemma connection_counts_Next [simp]:
  "connection_counts (snd (Strategy_Next intn ts s)) = connection_counts s"
  by (cases s) (auto simp: fun_eq_iff split: prod.splits)

lemma connection_counts_track:
  "counts_ok s \<Longrightarrow> connection_counts (track_end t (track_start t s)) = connection_counts s"
  by (cases s) (auto simp: counts_ok_def conn_Decrement_Increment fun_eq_iff)

lemma ready_track:
  "strategy_ready intn n (track_end t (track_start t s)) = strategy_ready intn n s"
  by (cases s) (auto simp: strategy_ready_def)

lemma proxy_forwards:
  assumes inv: "proxy_inv parse p" and sel: "sel \<in> set (GetHealthyTargets (healthChecker p))" "proxies p sel = Some u"
    and cb: "Call_begin (ts 0) (ts 1) (circuitBreaker p) = Some cb" and lb: "counts_ok lb"
    and r: "r = (case backend u (proxied_request u (ClientIP c) (Request c)) of
        Served ops \<Rightarrow> Returned (p\<lparr>loadBalancer := lb, circuitBreaker :=
          (if final_status ops \<ge> 500 then onFailure (ts 2) (ts 3) cb else onSuccess (ts 2) cb)\<rparr>) (forwarded u sel ops c)
      | Serve_panicked ops e \<Rightarrow> Panicked e (p\<lparr>loadBalancer := lb, circuitBreaker := cb\<rparr>) (forwarded u sel ops c))"
  shows "passed_on backend ts p c r" "proxy_inv parse (result_world r)"
    "loadBalancer (result_world r) = lb" "healthChecker (result_world r) = healthChecker p"
proof -
  obtain ops where "backend u (proxied_request u (ClientIP c) (Request c)) = Served ops \<or>
      (\<exists>e. backend u (proxied_request u (ClientIP c) (Request c)) = Serve_panicked ops e)"
    by (metis served.exhaust)
  then show "passed_on backend ts p c r"
    unfolding passed_on_def using sel cb calls_forwarded [of u sel ops c] r
    by (intro exI [of _ sel] exI [of _ u] exI [of _ cb] exI [of _ ops]) auto
  have "cb_inv cb" using inv by (intro cb_inv_begin [OF _ cb]) (simp add: proxy_inv_def)
  then show "proxy_inv parse (result_world r)"
    using r proxy_inv_update [OF inv lb] by (simp add: cb_inv_onFailure cb_inv_onSuccess split: served.splits)
  show "loadBalancer (result_world r) = lb" "healthChecker (result_world r) = healthChecker p"
    using r by (simp_all split: served.splits)
qed

lemma proxy_step:
  fixes p :: "'g Proxy"
  assumes "proxy_inv parse p" and "strategy_ready intn (Suc n) (loadBalancer p)"
    and r_def: "r = Proxy_Handle intn parse backend ts p c"
  shows "(rejected p c r \<or> passed_on backend ts p c r) \<and> proxy_inv parse (result_world r) \<and>
         strategy_ready intn n (loadBalancer (result_world r)) \<and>
         connection_counts (loadBalancer (result_world r)) = connection_counts (loadBalancer p) \<and>
         healthChecker (result_world r) = healthChecker p"
proof (cases "GetHealthyTargets (healthChecker p) = []")
  case True
  then have "r = Returned p (unavailable ''No healthy backend servers available'' c)"
    by (simp add: r_def Proxy_Handle_def)
  with assms(1,2) show ?thesis by (auto simp: rejected_def intro: balancer.ready_less)
next
  case False
  obtain sel u lb where s:
    "Strategy_Next intn (GetHealthyTargets (healthChecker p)) (loadBalancer p) = (Inr sel, lb)"
    "sel \<in> set (GetHealthyTargets (healthChecker p))"
    "proxies p sel = Some u" "parse sel = Inr u" "counts_ok lb" "strategy_ready intn n lb"
    using assms(1,2) False by (rule Proxy_Handle_selected)
  have counts: "connection_counts lb = connection_counts (loadBalancer p)"
    using connection_counts_Next [of intn "GetHealthyTargets (healthChecker p)" "loadBalancer p"]
    by (simp add: s(1) del: connection_counts_Next)
  let ?lb = "track_end sel (track_start sel lb)"
  have lb: "counts_ok ?lb" "strategy_ready intn n ?lb"
      "connection_counts ?lb = connection_counts (loadBalancer p)"
    using track_balanced [OF s(5), of sel] s(6) ready_track connection_counts_track [OF s(5), of sel]
      counts by metis+
  note eq = Proxy_Handle_eq [where parse = parse, OF False s(1,3,4), of backend ts c, folded r_def]
  show ?thesis
  proof (cases "sel = '''' \<or> Call_begin (ts 0) (ts 1) (circuitBreaker p) = None")
    case True
    with eq have "r = Returned (p\<lparr>loadBalancer := lb\<rparr>) (unavailable ''Failed to select backend server'' c) \<or>
        r = Returned (p\<lparr>loadBalancer := ?lb\<rparr>) (unavailable ''Service temporarily unavailable'' c)"
      by (auto simp: Let_def)
    with assms(1) s(5,6) lb counts show ?thesis
      by (auto simp: rejected_def proxy_inv_def)
  next
    case ok: False
    then obtain cb where cb: "Call_begin (ts 0) (ts 1) (circuitBreaker p) = Some cb" by auto
    from proxy_forwards [OF assms(1) s(2,3) cb lb(1), of r c backend] eq ok cb lb show ?thesis
      by (cases "backend u (proxied_request u (ClientIP c) (Request c))") (simp_all add: Let_def)
  qed
qed

section \<open>A proxy to try things on\<close>

definition demo_parse :: url_parser where
  "demo_parse t = Inr \<lparr>url_Scheme = ''http'', url_Host = t\<rparr>"

definition demo_proxy :: "unit Proxy" where
  "demo_proxy = \<lparr>p_targets = [''a'', ''b''],
     proxies = [''a'' \<mapsto> \<lparr>url_Scheme = ''http'', url_Host = ''a''\<rparr>,
                ''b'' \<mapsto> \<lparr>url_Scheme = ''http'', url_Host = ''b''\<rparr>],
     circuitBreaker = demo_cb, loadBalancer = StrategyLeastConnections NewLeastConnections,
     healthChecker = demo_checker\<lparr>healthyTargets := [''a'']\<rparr>\<rparr>"

definition demo_request :: http_request where
  "demo_request = \<lparr>Method = ''GET'', URL_Path = ''/api/users'', URL_Host = '''', URL_Scheme = '''',
     Host = ''gateway'', Header = Map.empty\<rparr>"

definition demo_ctx :: gin_ctx where
  "demo_ctx = \<lparr>Request = demo_request, Body = [], ClientIP = ''10.0.0.1'', Query = Map.empty, Param = Map.empty,
     Keys = Map.empty, calls = []\<rparr>"

lemma demo_ctx_calls [simp]: "calls demo_ctx = []"
  by (simp add: demo_ctx_def)

abbreviation demo_intn :: "unit intn" where
  "demo_intn \<equiv> \<lambda>n g. (0, g)"

lemma demo_proxy_inv: "proxy_inv demo_parse demo_proxy"
proof -
  have "checker_inv (demo_checker\<lparr>healthyTargets := [''a'']\<rparr>)"
    using demo_checker_inv by (simp add: checker_inv_def demo_checker_eq)
  then show ?thesis
    by (simp add: proxy_inv_def demo_proxy_def demo_inv demo_parse_def counts_ok_def demo_checker_eq)
qed

lemma demo_proxy_ready: "strategy_ready demo_intn n (loadBalancer demo_proxy)"
  by (simp add: strategy_ready_def Intn_law_def demo_proxy_def)

section \<open>Properties\<close>

text \<open>C16: a well-formed proxy either answers a request itself, with one 503 response and
  the circuit breaker as it was, or passes it on exactly once, to a target of the published
  healthy list, after the circuit breaker has let it through: it then adds the backend
  header, makes one call of the reverse proxy of that target, and hands every write of the
  backend to the client unchanged; the breaker records a failure if the last status code
  is 500 or more and a success otherwise, and nothing if the reverse proxy panics, in which
  case the handler panics with it.\<close>

theorem proxy_rejects_or_passes_on:
  fixes p :: "'g Proxy"
  assumes "proxy_inv parse p" and "strategy_ready intn 1 (loadBalancer p)"
  shows "rejected p c (Proxy_Handle intn parse backend ts p c) \<or>
         passed_on backend ts p c (Proxy_Handle intn parse backend ts p c)"
  using proxy_step [OF assms(1), of intn 0] assms(2) by simp

theorem proxy_rejects_or_passes_on_witness:
  "passed_on (\<lambda>u r. Served [Write_header 200]) (\<lambda>_. 1) demo_proxy demo_ctx
     (Proxy_Handle demo_intn demo_parse (\<lambda>u r. Served [Write_header 200]) (\<lambda>_. 1) demo_proxy demo_ctx)"
proof -
  let ?r = "Proxy_Handle demo_intn demo_parse (\<lambda>u r. Served [Write_header 200]) (\<lambda>_. 1) demo_proxy demo_ctx"
  have "length (calls (result_ctx ?r)) = 3"
    by (simp add: Proxy_Handle_def demo_proxy_def demo_cb_eq GetHealthyTargets_def demo_parse_def
          LeastConnections_Next_eq Call_def Call_begin_def forward_eq calls_forwarded demo_ctx_def
          final_status_def ErrCircuitOpen_def conn_def NewLeastConnections_def)
  moreover have "length (calls (result_ctx ?r)) = 1" if "rejected demo_proxy demo_ctx ?r"
    using that unfolding rejected_def by (elim exE conjE) (simp add: demo_ctx_calls)
  ultimately have "\<not> rejected demo_proxy demo_ctx ?r" by linarith
  with proxy_rejects_or_passes_on [OF demo_proxy_inv demo_proxy_ready] show ?thesis by blast
qed

text \<open>C23: handling a request keeps a proxy well-formed on every path, panics included:
  the circuit breaker and the health checker keep their invariants, the balancer is ready
  for one selection less, and the connection count of every target is again what it was
  before the request.\<close>

theorem proxy_handle_preserves:
  fixes p :: "'g Proxy"
  assumes "proxy_inv parse p" and "strategy_ready intn (Suc n) (loadBalancer p)"
    and "r = Proxy_Handle intn parse backend ts p c"
  shows "proxy_inv parse (result_world r) \<and> strategy_ready intn n (loadBalancer (result_world r)) \<and>
         connection_counts (loadBalancer (result_world r)) = connection_counts (loadBalancer p) \<and>
         healthChecker (result_world r) = healthChecker p"
  using proxy_step [OF assms] by blast

theorem proxy_handle_preserves_witness:
  "proxy_inv demo_parse (result_world
     (Proxy_Handle demo_intn demo_parse (\<lambda>u r. Serve_panicked [] AbortHandler) (\<lambda>_. 1) demo_proxy demo_ctx))"
  using proxy_handle_preserves [OF demo_proxy_inv demo_proxy_ready refl] by blast

text \<open>building a proxy never panics: it reports an error (no target, an unknown
  strategy, a target that does not parse) or gives a well-formed proxy whose balancer is
  ready for \<open>2 ^ 63\<close> requests and whose health checker has already published the targets
  that passed their first check, provided the health-check targets are among the proxy's
  targets (or are left out) and \<open>Intn\<close> has its documented range.\<close>

theorem NewWithConfig_wellformed:
  fixes rng :: 'g and intn :: "'g intn"
  assumes "config_ok cfg" and "jobs_for jobs (slice_of (hc_Targets (effective_hc cfg)))"
    and "Intn_law intn"
  shows "(\<exists>e. NewWithConfig parse rng http jobs now ts cfg = Inr (Inl e)) \<or>
         (\<exists>p. NewWithConfig parse rng http jobs now ts cfg = Inr (Inr p) \<and> proxy_inv parse p \<and>
              strategy_ready intn (2 ^ 63) (loadBalancer p) \<and>
              GetHealthyTargets (healthChecker p) =
                filter (\<lambda>t. IsHealthy (the (GetStatus t (healthChecker p))))
                  (GetAllTargets (healthChecker p)))"
  using NewWithConfig_cases [OF assms(1,2), of parse rng http now ts] NewStrategy_ready [OF assms(3)]
  by (fastforce simp: GetAllTargets_def)

theorem NewWithConfig_wellformed_witness:
  "\<exists>p. NewWithConfig demo_parse () demo_http [(''b'', 1, 1), (''a'', 2, 2)] 0 (\<lambda>_. 0)
     \<lparr>Targets = [''a'', ''b''], LoadBalancerStrategy = ''random'',
      pc_CircuitBreaker = \<lparr>MaxFailures = 0, Timeout = 0, HalfOpenSuccess = 0\<rparr>,
      pc_HealthCheck = \<lparr>hc_Targets = None, hc_Endpoint = '''', hc_Interval = 0, hc_Timeout = 0,
                        hc_MaxFailures = 0\<rparr>\<rparr> = Inr (Inr p) \<and> proxy_inv demo_parse p"
proof -
  let ?cfg = "\<lparr>Targets = [''a'', ''b''], LoadBalancerStrategy = ''random'',
      pc_CircuitBreaker = \<lparr>MaxFailures = 0, Timeout = 0, HalfOpenSuccess = 0\<rparr>,
      pc_HealthCheck = \<lparr>hc_Targets = None, hc_Endpoint = '''', hc_Interval = 0, hc_Timeout = 0,
                        hc_MaxFailures = 0\<rparr>\<rparr>"
  have "NewWithConfig demo_parse () demo_http [(''b'', 1, 1), (''a'', 2, 2)] 0 (\<lambda>_. 0) ?cfg \<noteq> Inr (Inl e)" for e
    by (auto simp: NewWithConfig_def NewStrategy_def demo_parse_def split: sum.splits)
  then show ?thesis
    using NewWithConfig_wellformed [of ?cfg "[(''b'', 1, 1), (''a'', 2, 2)]" demo_intn demo_parse "()"
        demo_http 0 "\<lambda>_. 0"]
    by (auto simp: config_ok_def int64_def slice_of_def effective_hc_def jobs_for_def Intn_law_def)
qed

text \<open>the forwarded host is always empty: for every request as the server delivers
  it, that is without a \<open>Host\<close> entry in its header (the server moves it to \<open>req.Host\<close>), the
  request sent to the backend has an empty \<open>X-Forwarded-Host\<close>, and its \<open>Host\<close> is that of the
  target, so the backend cannot learn the host the client asked for.\<close>

theorem forwarded_host_is_lost:
  assumes "Header req ''Host'' = None"
  shows "Header_Get ''X-Forwarded-Host'' (proxied_request target clientIP req) = '''' \<and>
         Host (proxied_request target clientIP req) = url_Host target"
  using assms by (simp add: proxied_request_def Let_def Header_Get_def Header_Set_def)

theorem forwarded_host_is_lost_witness:
  "Host demo_request = ''gateway'' \<and>
   Header_Get ''X-Forwarded-Host'' (proxied_request \<lparr>url_Scheme = ''http'', url_Host = ''a''\<rparr> '''' demo_request) = ''''"
  using forwarded_host_is_lost [of demo_request] by (simp add: demo_request_def)

end
