(* ===== verification/SystemHandler.thy ===== *)
theory SystemHandler
  imports Proxy "HOL-Library.AList" "HOL-Library.Char_ord" "HOL-Library.List_Lexorder"
begin

text \<open>
  The handlers of \<open>src/internal/handler/systemHandler.go\<close>: the state of the circuit breakers,
  their reset by hand, and the health of the backends.  They work on the map of proxies, by
  path, which is an association list without repeated keys.  A loop over a map visits it in
  no particular order; where that shows in the answer, the order is an argument.

  Shown: the answer about the breakers does not depend on the order of the map, and a reset
  closes the breaker of the named service and touches no other.
\<close>

type_synonym 'g proxy_map = "(string \<times> 'g Proxy) list"

section \<open>Circuit breakers\<close>

definition metrics_json :: "Metrics \<Rightarrow> json" where
  "metrics_json metrics =
     JObj [(''failure_count'', JInt (m_FailureCount metrics)),
           (''last_failure_time'', JTime (m_LastFailureTime metrics)),
           (''last_state_change'', JTime (m_LastStateChange metrics)),
           (''state'', JStr (State_String (m_State metrics))),
           (''success_count'', JInt (m_SuccessCount metrics))]"

text \<open>The keys of a map are encoded in order.\<close>

definition map_json :: "(string \<times> json) list \<Rightarrow> json" where
  "map_json m = JObj (sort_key fst m)"

definition CircuitBreakerStatus :: "'g proxy_map handler" where
  "CircuitBreakerStatus ps c =
     respond 200
       (map_json (map (\<lambda>(path, p). (path, metrics_json (CircuitBreakerMetrics p))) ps)) ps c"

definition SystemHandler_ResetCircuitBreaker :: "time \<Rightarrow> 'g proxy_map handler" where
  "SystemHandler_ResetCircuitBreaker now ps c =
     (let service = ctx_Param ''service'' c
      in case map_of ps service of
           None \<Rightarrow> respond 404 (error_body ''Service not found'') ps c
         | Some p \<Rightarrow>
             respond 200
               (JObj [(''message'', JStr ''Circuit breaker reset successfully''), (''service'', JStr service)])
               (AList.update service (ResetCircuitBreaker now p) ps) c)"

section \<open>Health\<close>

definition status_json :: "Status \<Rightarrow> json" where
  "status_json status =
     JObj [(''failure_count'', JInt (FailureCount status)), (''is_healthy'', JBool (IsHealthy status)),
           (''last_check'', JTime (LastCheck status)), (''last_failure'', JTime (LastFailure status)),
           (''last_success'', JTime (LastSuccess status)), (''target'', JStr (Target status))]"

text \<open>\<open>visit\<close> is the order in which the loop visits the statuses of a proxy.\<close>

definition health_json :: "string list \<Rightarrow> 'g Proxy \<Rightarrow> json" where
  "health_json visit p =
     (let targetStatuses = GetHealthStatus p;
          healthy = Proxy_GetHealthyTargets p;
          all = Proxy_GetAllTargets p;
          overallHealth = Proxy_OverallHealth p
      in JObj [(''all_targets'', JList (map JStr all)),
               (''healthy_count'', JInt (int (length healthy))),
               (''healthy_targets'', JList (map JStr healthy)),
               (''overall_health'', JStr (HealthStatus_String overallHealth)),
               (''target_status'',
                  JList (map status_json (List.map_filter targetStatuses visit))),
               (''total_count'', JInt (int (length all)))])"

definition ServiceHealthStatus :: "(string \<Rightarrow> string list) \<Rightarrow> 'g proxy_map handler" where
  "ServiceHealthStatus visit ps c =
     respond 200 (map_json (map (\<lambda>(path, p). (path, health_json (visit path) p)) ps)) ps c"

section \<open>Properties\<close>

lemma map_json_order:
  assumes "mset ms = mset ns" "distinct (map fst ms)"
  shows "map_json ms = map_json ns"
proof -
  have "sort_key fst ms = sort_key fst ns"
    using assms by (intro sort_key_inj_key_eq) (simp_all add: distinct_map)
  then show ?thesis by (simp add: map_json_def)
qed

lemma CircuitBreakerStatus_order:
  assumes "mset ps = mset qs" "distinct (map fst ps)"
  shows "calls (result_ctx (CircuitBreakerStatus ps c)) = calls (result_ctx (CircuitBreakerStatus qs c))"
proof -
  let ?f = "\<lambda>(path, p). (path, metrics_json (CircuitBreakerMetrics p))"
  have "mset (map ?f ps) = mset (map ?f qs)" "distinct (map fst (map ?f ps))"
    using assms by (simp_all add: comp_def case_prod_beta)
  then show ?thesis
    by (simp add: CircuitBreakerStatus_def respond_def map_json_order)
qed

text \<open>Resetting a circuit breaker by hand puts the service back into use: whatever state the
  breaker was in, it is closed with its counters at zero and admits the next request, and the
  number of failures it now tolerates is its configured one.  The other services, and the balancer
  and the health checker of this one, are as before; a name that is not a service changes nothing
  and is answered with 404.\<close>

theorem reset_restores_service:
  assumes "SystemHandler_ResetCircuitBreaker now ps c = Returned ps' c'"
  shows "(\<forall>path. path \<noteq> ctx_Param ''service'' c \<longrightarrow> map_of ps' path = map_of ps path) \<and>
    (case map_of ps (ctx_Param ''service'' c) of
       None \<Rightarrow> ps' = ps \<and> calls c' = calls c @ [JSON 404 (error_body ''Service not found'')]
     | Some p \<Rightarrow>
         (\<exists>q. map_of ps' (ctx_Param ''service'' c) = Some q \<and>
            loadBalancer q = loadBalancer p \<and> healthChecker q = healthChecker p \<and>
            proxies q = proxies p \<and> CircuitBreakerState q = StateClosed \<and>
            m_FailureCount (CircuitBreakerMetrics q) = 0 \<and>
            maxFailures (circuitBreaker q) = maxFailures (circuitBreaker p) \<and>
            (\<forall>t t'. Call_begin t t' (circuitBreaker q) = Some (circuitBreaker q))))"
  using assms
  by (auto simp: SystemHandler_ResetCircuitBreaker_def respond_def update_conv' ResetCircuitBreaker_def
      CircuitBreaker_Reset_def CircuitBreakerState_def CircuitBreaker_State_def CircuitBreakerMetrics_def
      CircuitBreaker_Metrics_def Call_begin_def Let_def split: option.splits)

theorem reset_restores_service_witness:
  "\<exists>ps' c' q. SystemHandler_ResetCircuitBreaker 5 [(''/api'', demo_proxy)] (demo_ctx\<lparr>Param := [''service'' \<mapsto> ''/api'']\<rparr>) =
       Returned ps' c' \<and> map_of ps' ''/api'' = Some q \<and> CircuitBreakerState q = StateClosed"
proof -
  let ?c = "demo_ctx\<lparr>Param := [''service'' \<mapsto> ''/api'']\<rparr>"
  have p: "ctx_Param ''service'' ?c = ''/api''" by (simp add: ctx_Param_def)
  obtain ps' c' where r: "SystemHandler_ResetCircuitBreaker 5 [(''/api'', demo_proxy)] ?c = Returned ps' c'"
    by (simp add: SystemHandler_ResetCircuitBreaker_def p respond_def Let_def)
  then show ?thesis
    using reset_restores_service [OF r] by (auto simp: p)
qed

end
