(* ===== verification/Database.thy ===== *)
theory Database
  imports Models "HOL-Library.Multiset" "HOL-Library.Char_ord" "HOL-Library.List_Lexorder"
begin

text \<open>
  The database as the repositories use it.  The object-relational mapper and the server are
  not part of the repository: for each model they are an argument, a record with one
  operation for each finishing method the repositories call, over a state \<open>'d\<close> that comprises
  the server and the connections.  The queries are data: the conditions, the order and the
  page that the repositories build up before the finishing method.

  What the gateway relies on is \<open>gorm_conforms\<close>: seen through a view of the table as a list
  of rows, an operation that reports no error has its documented effect and result, and one
  that reports an error has had its effect or none.  \<open>mem_gorm\<close> satisfies it.
\<close>

section \<open>Values and queries\<close>

datatype sql_val =
    SNull
  | SBool bool
  | SInt int
  | STime time
  | SText string

fun sql_rank :: "sql_val \<Rightarrow> nat" where
  "sql_rank SNull = 0"
| "sql_rank (SBool b) = 1"
| "sql_rank (SInt n) = 2"
| "sql_rank (STime t) = 3"
| "sql_rank (SText s) = 4"

fun sql_le :: "sql_val \<Rightarrow> sql_val \<Rightarrow> bool" where
  "sql_le (SBool a) (SBool b) \<longleftrightarrow> a \<le> b"
| "sql_le (SInt a) (SInt b) \<longleftrightarrow> a \<le> b"
| "sql_le (STime a) (STime b) \<longleftrightarrow> a \<le> b"
| "sql_le (SText a) (SText b) \<longleftrightarrow> a \<le> b"
| "sql_le a b \<longleftrightarrow> sql_rank a \<le> sql_rank b"

instantiation sql_val :: linorder
begin

definition less_eq_sql_val :: "sql_val \<Rightarrow> sql_val \<Rightarrow> bool" where
  "less_eq_sql_val = sql_le"

definition less_sql_val :: "sql_val \<Rightarrow> sql_val \<Rightarrow> bool" where
  "less_sql_val a b \<longleftrightarrow> sql_le a b \<and> \<not> sql_le b a"

instance
proof
  fix a b c :: sql_val
  show "a < b \<longleftrightarrow> a \<le> b \<and> \<not> b \<le> a"
    by (simp add: less_eq_sql_val_def less_sql_val_def)
  show "a \<le> a"
    by (cases a) (simp_all add: less_eq_sql_val_def)
  show "a \<le> b \<Longrightarrow> b \<le> c \<Longrightarrow> a \<le> c"
    by (cases a; cases b; cases c) (auto simp: less_eq_sql_val_def)
  show "a \<le> b \<Longrightarrow> b \<le> a \<Longrightarrow> a = b"
    by (cases a; cases b) (auto simp: less_eq_sql_val_def)
  show "a \<le> b \<or> b \<le> a"
    by (cases a; cases b) (auto simp: less_eq_sql_val_def)
qed

end

text \<open>A condition: \<open>column = ?\<close>, \<open>column BETWEEN ? AND ?\<close> or \<open>column < ?\<close>; the conditions of a
  query are joined by \<open>AND\<close>.  A comparison with \<open>NULL\<close> does not hold.\<close>

datatype condition =
    Equals string sql_val
  | Between string sql_val sql_val
  | Less_than string sql_val

fun holds :: "(string \<Rightarrow> sql_val) \<Rightarrow> condition \<Rightarrow> bool" where
  "holds row (Equals col v) \<longleftrightarrow> row col \<noteq> SNull \<and> row col = v"
| "holds row (Between col a b) \<longleftrightarrow> row col \<noteq> SNull \<and> a \<noteq> SNull \<and> a \<le> row col \<and> row col \<le> b"
| "holds row (Less_than col v) \<longleftrightarrow> row col \<noteq> SNull \<and> row col < v"

datatype direction = ASC | DESC

record query =
  q_Where :: "condition list"
  q_Order :: "(string \<times> direction) option"
  q_Limit :: "int option"
  q_Offset :: int

definition all_rows :: query where
  "all_rows = \<lparr>q_Where = [], q_Order = None, q_Limit = None, q_Offset = 0\<rparr>"

definition Where :: "condition list \<Rightarrow> query \<Rightarrow> query" where
  "Where cs q = q\<lparr>q_Where := q_Where q @ cs\<rparr>"

definition Order :: "string \<Rightarrow> direction \<Rightarrow> query \<Rightarrow> query" where
  "Order col dir q = q\<lparr>q_Order := Some (col, dir)\<rparr>"

definition Limit :: "int \<Rightarrow> query \<Rightarrow> query" where
  "Limit n q = q\<lparr>q_Limit := Some n\<rparr>"

definition Offset :: "int \<Rightarrow> query \<Rightarrow> query" where
  "Offset n q = q\<lparr>q_Offset := n\<rparr>"

lemmas query_builders = all_rows_def Where_def Order_def Limit_def Offset_def

section \<open>Models and operations\<close>

text \<open>What the mapper derives from a model: the columns and
  their values in a row, the effect of an assignment
  to a column, the columns of type \<open>uuid\<close>, the primary key and the unique indexes,
  and what an insertion at a given
  time and with a given serial number fills in for the fields that are zero.\<close>

record 'a model =
  columns :: "string list"
  column :: "'a \<Rightarrow> string \<Rightarrow> sql_val"
  assign :: "string \<Rightarrow> sql_val \<Rightarrow> 'a \<Rightarrow> 'a"
  uuid_columns :: "string list"
  primary_key :: string
  unique_columns :: "string list"
  filled :: "time \<Rightarrow> nat \<Rightarrow> 'a \<Rightarrow> 'a"

text \<open>The finishing methods.  \<open>g_Create\<close> takes what the model's \<open>BeforeCreate\<close> hook does.\<close>

record ('d, 'a) gorm =
  g_Create :: "('a \<Rightarrow> 'a) \<Rightarrow> 'a list \<Rightarrow> 'd \<Rightarrow> go_error option \<times> 'd"
  g_First :: "query \<Rightarrow> 'd \<Rightarrow> (go_error + 'a) \<times> 'd"
  g_Find :: "query \<Rightarrow> 'd \<Rightarrow> ('a list \<times> go_error option) \<times> 'd"
  g_Updates :: "query \<Rightarrow> (string \<rightharpoonup> sql_val) \<Rightarrow> 'd \<Rightarrow> go_error option \<times> 'd"
  g_Delete :: "query \<Rightarrow> 'd \<Rightarrow> (int \<times> go_error option) \<times> 'd"
  g_Count :: "query \<Rightarrow> 'd \<Rightarrow> (int \<times> go_error option) \<times> 'd"

definition ErrRecordNotFound :: go_error where
  "ErrRecordNotFound = Sentinel ''record not found''"

section \<open>What the gateway relies on\<close>

definition matches :: "'a model \<Rightarrow> query \<Rightarrow> 'a \<Rightarrow> bool" where
  "matches M q x \<longleftrightarrow> list_all (holds (column M x)) (q_Where q)"

definition selected :: "'a model \<Rightarrow> query \<Rightarrow> 'a list \<Rightarrow> 'a list" where
  "selected M q rows = filter (matches M q) rows"

text \<open>An answer to a query: the selected rows in some order that respects the requested one,
  of which the page is taken.\<close>

definition ordered :: "'a model \<Rightarrow> (string \<times> direction) option \<Rightarrow> 'a list \<Rightarrow> bool" where
  "ordered M ord xs =
     (case ord of
        None \<Rightarrow> True
      | Some (col, ASC) \<Rightarrow> sorted (map (\<lambda>x. column M x col) xs)
      | Some (col, DESC) \<Rightarrow> sorted (rev (map (\<lambda>x. column M x col) xs)))"

definition page :: "query \<Rightarrow> 'a list \<Rightarrow> 'a list" where
  "page q xs =
     (let ys = drop (nat (q_Offset q)) xs
      in case q_Limit q of None \<Rightarrow> ys | Some n \<Rightarrow> take (nat n) ys)"

definition answers :: "'a model \<Rightarrow> query \<Rightarrow> 'a list \<Rightarrow> 'a list \<Rightarrow> bool" where
  "answers M q rows xs \<longleftrightarrow>
     (\<exists>ys. mset ys = mset (selected M q rows) \<and> ordered M (q_Order q) ys \<and> xs = page q ys)"

text \<open>The server compares \<open>uuid\<close> columns with the canonical form of the argument, so a query is
  understood here when its \<open>uuid\<close> arguments are canonical; pages are not empty or negative.\<close>

definition hex_digit :: "char \<Rightarrow> bool" where
  "hex_digit c \<longleftrightarrow> c \<in> set ''0123456789abcdef''"

definition canonical_uuid :: "uuid \<Rightarrow> bool" where
  "canonical_uuid u \<longleftrightarrow>
     length u = 36 \<and>
     list_all (\<lambda>(i, c). if i \<in> {8, 13, 18, 23} then c = CHR ''-'' else hex_digit c)
       (zip [0..<36] u)"

fun condition_ok :: "string list \<Rightarrow> condition \<Rightarrow> bool" where
  "condition_ok uuids (Equals col v) \<longleftrightarrow>
     (if List.member uuids col then \<exists>u. v = SText u \<and> canonical_uuid u else True)"
| "condition_ok uuids (Between col a b) \<longleftrightarrow> \<not> List.member uuids col"
| "condition_ok uuids (Less_than col v) \<longleftrightarrow> \<not> List.member uuids col"

definition query_ok :: "'a model \<Rightarrow> query \<Rightarrow> bool" where
  "query_ok M q \<longleftrightarrow>
     list_all (condition_ok (uuid_columns M)) (q_Where q) \<and> 0 \<le> q_Offset q \<and>
     (case q_Limit q of None \<Rightarrow> True | Some n \<Rightarrow> 0 < n)"

definition executed :: "'a list \<Rightarrow> 'a list \<Rightarrow> go_error option \<Rightarrow> 'a list \<Rightarrow> bool" where
  "executed old new err now \<longleftrightarrow> now = new \<or> err \<noteq> None \<and> now = old"

definition assigned :: "'a model \<Rightarrow> (string \<rightharpoonup> sql_val) \<Rightarrow> 'a \<Rightarrow> 'a" where
  "assigned M updates x =
     fold (\<lambda>col x. case updates col of None \<Rightarrow> x | Some v \<Rightarrow> assign M col v x) (columns M) x"

definition updated :: "'a model \<Rightarrow> query \<Rightarrow> (string \<rightharpoonup> sql_val) \<Rightarrow> 'a list \<Rightarrow> 'a list" where
  "updated M q updates rows = map (\<lambda>x. if matches M q x then assigned M updates x else x) rows"

definition inserted :: "'a model \<Rightarrow> time \<Rightarrow> nat list \<Rightarrow> ('a \<Rightarrow> 'a) \<Rightarrow> 'a list \<Rightarrow> 'a list" where
  "inserted M now ids hook xs = map2 (\<lambda>i x. filled M now i (hook x)) ids xs"

text \<open>An insertion that would repeat a primary key or a value of a unique index is refused.\<close>

definition distinct_keys :: "'a model \<Rightarrow> 'a list \<Rightarrow> bool" where
  "distinct_keys M rows \<longleftrightarrow>
     list_all (\<lambda>col. distinct (map (\<lambda>x. column M x col) rows)) (unique_columns M)"

definition creates :: "'a model \<Rightarrow> ('d, 'a) gorm \<Rightarrow> ('d \<Rightarrow> 'a list) \<Rightarrow> bool" where
  "creates M g rows \<longleftrightarrow>
     (\<forall>hook xs d err d'. g_Create g hook xs d = (err, d') \<longrightarrow>
        (distinct_keys M (rows d) \<longrightarrow> distinct_keys M (rows d')) \<and>
        (\<exists>now ids. length ids = length xs \<and>
           executed (rows d) (rows d @ inserted M now ids hook xs) err (rows d')))"

definition finds_first :: "'a model \<Rightarrow> ('d, 'a) gorm \<Rightarrow> ('d \<Rightarrow> 'a list) \<Rightarrow> bool" where
  "finds_first M g rows \<longleftrightarrow>
     (\<forall>q d res d'. g_First g q d = (res, d') \<longrightarrow> query_ok M q \<longrightarrow>
        rows d' = rows d \<and>
        (res = Inl ErrRecordNotFound \<longrightarrow> selected M q (rows d) = []) \<and>
        (\<forall>x. res = Inr x \<longrightarrow>
           x \<in> set (selected M q (rows d)) \<and>
           (\<forall>y \<in> set (selected M q (rows d)).
              column M x (primary_key M) \<le> column M y (primary_key M))))"

definition finds :: "'a model \<Rightarrow> ('d, 'a) gorm \<Rightarrow> ('d \<Rightarrow> 'a list) \<Rightarrow> bool" where
  "finds M g rows \<longleftrightarrow>
     (\<forall>q d xs err d'. g_Find g q d = ((xs, err), d') \<longrightarrow> query_ok M q \<longrightarrow>
        rows d' = rows d \<and> (err = None \<longrightarrow> answers M q (rows d) xs))"

definition updates_rows :: "'a model \<Rightarrow> ('d, 'a) gorm \<Rightarrow> ('d \<Rightarrow> 'a list) \<Rightarrow> bool" where
  "updates_rows M g rows \<longleftrightarrow>
     (\<forall>q updates d err d'. g_Updates g q updates d = (err, d') \<longrightarrow> query_ok M q \<longrightarrow>
        dom updates \<subseteq> set (columns M) \<longrightarrow>
        executed (rows d) (updated M q updates (rows d)) err (rows d'))"

definition deletes :: "'a model \<Rightarrow> ('d, 'a) gorm \<Rightarrow> ('d \<Rightarrow> 'a list) \<Rightarrow> bool" where
  "deletes M g rows \<longleftrightarrow>
     (\<forall>q d n err d'. g_Delete g q d = ((n, err), d') \<longrightarrow> query_ok M q \<longrightarrow>
        executed (rows d) (filter (\<lambda>x. \<not> matches M q x) (rows d)) err (rows d') \<and>
        (err = None \<longrightarrow> n = int (length (selected M q (rows d)))))"

definition counts :: "'a model \<Rightarrow> ('d, 'a) gorm \<Rightarrow> ('d \<Rightarrow> 'a list) \<Rightarrow> bool" where
  "counts M g rows \<longleftrightarrow>
     (\<forall>q d n err d'. g_Count g q d = ((n, err), d') \<longrightarrow> query_ok M q \<longrightarrow>
        rows d' = rows d \<and> (err = None \<longrightarrow> n = int (length (selected M q (rows d)))))"

definition gorm_conforms :: "'a model \<Rightarrow> ('d, 'a) gorm \<Rightarrow> ('d \<Rightarrow> 'a list) \<Rightarrow> bool" where
  "gorm_conforms M g rows \<longleftrightarrow>
     creates M g rows \<and> finds_first M g rows \<and> finds M g rows \<and> updates_rows M g rows \<and>
     deletes M g rows \<and> counts M g rows"

lemma conforms_Create:
  assumes "gorm_conforms M g rows" "g_Create g hook xs d = (err, d')"
  obtains now ids where "length ids = length xs"
    and "distinct_keys M (rows d) \<longrightarrow> distinct_keys M (rows d')"
    and "executed (rows d) (rows d @ inserted M now ids hook xs) err (rows d')"
  using assms unfolding gorm_conforms_def creates_def by blast

lemma conforms_First:
  assumes "gorm_conforms M g rows" "g_First g q d = (res, d')" "query_ok M q"
  shows "rows d' = rows d"
    and "res = Inl ErrRecordNotFound \<Longrightarrow> selected M q (rows d) = []"
    and "res = Inr x \<Longrightarrow> x \<in> set (selected M q (rows d))"
  using assms unfolding gorm_conforms_def finds_first_def by blast+

lemma conforms_Find:
  assumes "gorm_conforms M g rows" "g_Find g q d = ((xs, err), d')" "query_ok M q"
  shows "rows d' = rows d" and "err = None \<Longrightarrow> answers M q (rows d) xs"
  using assms unfolding gorm_conforms_def finds_def by blast+

lemma conforms_Updates:
  assumes "gorm_conforms M g rows" "g_Updates g q updates d = (err, d')" "query_ok M q"
    and "dom updates \<subseteq> set (columns M)"
  shows "executed (rows d) (updated M q updates (rows d)) err (rows d')"
  using assms unfolding gorm_conforms_def updates_rows_def by blast

lemma conforms_Delete:
  assumes "gorm_conforms M g rows" "g_Delete g q d = ((n, err), d')" "query_ok M q"
  shows "executed (rows d) (filter (\<lambda>x. \<not> matches M q x) (rows d)) err (rows d')"
    and "err = None \<Longrightarrow> n = int (length (selected M q (rows d)))"
  using assms unfolding gorm_conforms_def deletes_def by blast+

lemma conforms_Count:
  assumes "gorm_conforms M g rows" "g_Count g q d = ((n, err), d')" "query_ok M q"
  shows "rows d' = rows d" and "err = None \<Longrightarrow> n = int (length (selected M q (rows d)))"
  using assms unfolding gorm_conforms_def counts_def by blast+

section \<open>A table in memory\<close>

definition sort_rows :: "'a model \<Rightarrow> (string \<times> direction) option \<Rightarrow> 'a list \<Rightarrow> 'a list" where
  "sort_rows M ord xs =
     (case ord of
        None \<Rightarrow> xs
      | Some (col, ASC) \<Rightarrow> sort_key (\<lambda>x. column M x col) xs
      | Some (col, DESC) \<Rightarrow> rev (sort_key (\<lambda>x. column M x col) xs))"

definition mem_gorm :: "'a model \<Rightarrow> time \<Rightarrow> ('a list, 'a) gorm" where
  "mem_gorm M now =
     \<lparr>g_Create = (\<lambda>hook xs rows.
        let new = rows @ inserted M now [Suc (length rows)..<Suc (length rows + length xs)] hook xs
        in if distinct_keys M new then (None, new) else (Some (Sentinel ''duplicate key''), rows)),
      g_First = (\<lambda>q rows.
        case sort_key (\<lambda>x. column M x (primary_key M)) (selected M q rows) of
          [] \<Rightarrow> (Inl ErrRecordNotFound, rows)
        | x # xs \<Rightarrow> (Inr x, rows)),
      g_Find = (\<lambda>q rows. ((page q (sort_rows M (q_Order q) (selected M q rows)), None), rows)),
      g_Updates = (\<lambda>q updates rows. (None, updated M q updates rows)),
      g_Delete = (\<lambda>q rows.
        ((int (length (selected M q rows)), None), filter (\<lambda>x. \<not> matches M q x) rows)),
      g_Count = (\<lambda>q rows. ((int (length (selected M q rows)), None), rows))\<rparr>"

lemma sort_rows_ordered: "ordered M ord (sort_rows M ord xs)" "mset (sort_rows M ord xs) = mset xs"
  by (auto simp: ordered_def sort_rows_def rev_map split: option.splits prod.splits direction.splits)

lemma sort_key_hd:
  assumes "sort_key f xs = x # ys"
  shows "x \<in> set xs" and "y \<in> set xs \<Longrightarrow> f x \<le> f y"
proof -
  have "set (x # ys) = set xs" and "sorted (map f (x # ys))"
    using assms by (metis set_sort, metis sorted_sort_key)
  then show "x \<in> set xs" and "y \<in> set xs \<Longrightarrow> f x \<le> f y" by auto
qed

lemma answers_sort_rows: "answers M q rows (page q (sort_rows M (q_Order q) (selected M q rows)))"
  unfolding answers_def by (metis sort_rows_ordered)

lemma sort_key_Nil_iff: "sort_key f xs = [] \<longleftrightarrow> xs = []"
  by (metis length_sort length_0_conv)

lemma mem_finds_first: "finds_first M (mem_gorm M now) id"
  unfolding finds_first_def
  by (auto simp: mem_gorm_def sort_key_Nil_iff split: list.splits dest: sort_key_hd)

lemma mem_creates: "creates M (mem_gorm M now) id"
  unfolding creates_def
proof (intro allI impI)
  fix hook xs d err d'
  assume "g_Create (mem_gorm M now) hook xs d = (err, d')"
  then show "(distinct_keys M (id d) \<longrightarrow> distinct_keys M (id d')) \<and> (\<exists>t ids. length ids = length xs \<and> executed (id d) (id d @ inserted M t ids hook xs) err (id d'))"
    by (intro conjI exI [of _ now] exI [of _ "[Suc (length d)..<Suc (length d + length xs)]"])
       (auto simp: mem_gorm_def executed_def Let_def simp del: upt_Suc split: if_splits)
qed

lemma mem_gorm_conforms: "gorm_conforms M (mem_gorm M now) id"
  unfolding gorm_conforms_def using mem_finds_first mem_creates
  by (auto simp: finds_def updates_rows_def deletes_def counts_def mem_gorm_def executed_def
      answers_sort_rows)

end
