(* ===== verification/Float64.thy ===== *)
theory Float64
  imports Complex_Main "HOL-Library.Log_Nat" GoText
begin

text \<open>
  The \<open>float64\<close> arithmetic of the rate limiters.  A finite \<open>float64\<close> is the rational number it
  denotes, and every operation of the source is the exact operation followed by \<open>fl\<close>, which
  rounds to 53 significant bits, ties to even.  The exponent range is not bounded: the
  quantities the gateway computes (tokens, seconds, nanoseconds since the epoch) lie between
  \<open>2 ^ (-100)\<close> and \<open>2 ^ 200\<close> in absolute value or are 0, far inside the range of the type.

  The limiters are verified against the locale \<open>rounding\<close>: rounding is monotone, it is exact
  on integers of up to 53 bits, and its relative error is at most \<open>2 ^ (-53)\<close>.
\<close>

section \<open>Rounding\<close>

text \<open>The position of the leading bit of a positive number.\<close>

definition exponent :: "rat \<Rightarrow> int" where
  "exponent x =
     (case quotient_of x of (p, q) \<Rightarrow>
        let e = bitlen p - bitlen q in if 2 powi e \<le> x then e else e - 1)"

definition round_even :: "rat \<Rightarrow> int" where
  "round_even r =
     (let d = r - of_int \<lfloor>r\<rfloor>
      in if d < 1 / 2 then \<lfloor>r\<rfloor>
         else if 1 / 2 < d then \<lfloor>r\<rfloor> + 1
         else if even \<lfloor>r\<rfloor> then \<lfloor>r\<rfloor> else \<lfloor>r\<rfloor> + 1)"

definition fl_pos :: "rat \<Rightarrow> rat" where
  "fl_pos x = (let u = 2 powi (exponent x - 52) in of_int (round_even (x / u)) * u)"

definition fl :: "rat \<Rightarrow> rat" where
  "fl x = (if x = 0 then 0 else if 0 < x then fl_pos x else - fl_pos (- x))"

lemma round_even_int [simp]: "round_even (of_int n) = n"
  by (simp add: round_even_def)

lemma round_even_error: "\<bar>of_int (round_even r) - r\<bar> \<le> 1 / 2"
  by (auto simp: round_even_def Let_def abs_if) linarith+

lemma round_even_floor: "round_even r = \<lfloor>r\<rfloor> \<or> round_even r = \<lfloor>r\<rfloor> + 1"
  by (auto simp: round_even_def Let_def)

lemma round_even_mono:
  assumes "r \<le> s"
  shows "round_even r \<le> round_even s"
proof (cases "\<lfloor>r\<rfloor> = \<lfloor>s\<rfloor>")
  case True
  then show ?thesis using assms by (auto simp: round_even_def Let_def)
next
  case False
  then have "\<lfloor>r\<rfloor> + 1 \<le> \<lfloor>s\<rfloor>" using floor_mono [OF assms] by linarith
  then show ?thesis using round_even_floor [of r] round_even_floor [of s] by linarith
qed

lemma bitlen_powi:
  assumes "0 < p"
  shows "(2 :: rat) powi (bitlen p - 1) \<le> of_int p" "of_int p < (2 :: rat) powi bitlen p"
proof -
  have "1 \<le> bitlen p"
    using bitlen_nonneg [of p] bitlen_eq_zero_iff [of p] assms by linarith
  then have "(2 :: rat) powi (bitlen p - 1) = of_int (2 ^ nat (bitlen p - 1))"
      "(2 :: rat) powi bitlen p = of_int (2 ^ nat (bitlen p))"
    by (simp_all add: power_int_nonneg_exp)
  then show "(2 :: rat) powi (bitlen p - 1) \<le> of_int p" "of_int p < (2 :: rat) powi bitlen p"
    using bitlen_bounds [OF assms] by (simp_all only: of_int_le_iff of_int_less_iff)
qed

lemma exponent_bounds:
  assumes "0 < x"
  shows "2 powi exponent x \<le> x" "x < 2 powi (exponent x + 1)"
proof -
  obtain p q where pq: "quotient_of x = (p, q)" by fastforce
  then have q: "0 < q" and x: "x = of_int p / of_int q"
    by (auto intro: quotient_of_denom_pos quotient_of_div)
  with assms have p: "0 < p" by (simp add: zero_less_divide_iff)
  define a b where "a = bitlen p" and "b = bitlen q"
  have "x < 2 powi a / 2 powi (b - 1)"
    unfolding x a_def b_def by (rule frac_less) (use p bitlen_powi p q in auto)
  also have "\<dots> = 2 powi (a - b + 1)"
    using power_int_diff [of "2 :: rat" a "b - 1"] by (simp add: algebra_simps)
  finally have "x < 2 powi (a - b + 1)" .
  moreover have "2 powi (a - 1) / 2 powi b < x"
    unfolding x a_def b_def by (rule frac_less2) (use p q bitlen_powi in auto)
  then have "2 powi (a - b - 1) < x"
    using power_int_diff [of "2 :: rat" "a - 1" b] by (simp add: algebra_simps)
  ultimately show "2 powi exponent x \<le> x" "x < 2 powi (exponent x + 1)"
    by (auto simp: exponent_def pq Let_def simp flip: a_def b_def)
qed

lemma powi_le_iff [simp]: "(2 :: rat) powi a \<le> 2 powi b \<longleftrightarrow> a \<le> b"
  using power_int_increasing [of a b "2 :: rat"] power_int_strict_increasing [of b a "2 :: rat"]
  by (auto simp: not_le [symmetric])

lemma powi_less_iff [simp]: "(2 :: rat) powi a < 2 powi b \<longleftrightarrow> a < b"
  by (simp add: not_le [symmetric] del: not_le)

lemma exponent_le: "0 < x \<Longrightarrow> x \<le> y \<Longrightarrow> exponent x \<le> exponent y"
  using exponent_bounds(1) [of x] exponent_bounds(2) [of y]
    powi_less_iff [of "exponent x" "exponent y + 1"] by linarith

lemma exponent_less_powi: "0 < x \<Longrightarrow> x < 2 powi k \<Longrightarrow> exponent x < k"
  using exponent_bounds(1) [of x] by (meson le_less_trans powi_less_iff)

text \<open>A positive number in units of its last place.\<close>

lemma scaled_bounds:
  assumes "0 < x"
  shows "2 ^ 52 \<le> x / 2 powi (exponent x - 52)" "x / 2 powi (exponent x - 52) \<le> 2 ^ 53"
proof -
  have "2 powi (52 + (exponent x - 52)) \<le> x" "x \<le> 2 powi (53 + (exponent x - 52))"
    using exponent_bounds [OF assms] by (simp_all add: add.commute)
  then show "2 ^ 52 \<le> x / 2 powi (exponent x - 52)" "x / 2 powi (exponent x - 52) \<le> 2 ^ 53"
    using power_int_add [of "2 :: rat" 52 "exponent x - 52"]
      power_int_add [of "2 :: rat" 53 "exponent x - 52"]
    by (simp_all only: pos_le_divide_eq pos_divide_le_eq zero_less_power_int) simp_all
qed

lemma fl_pos_bounds:
  assumes "0 < x"
  shows "2 powi exponent x \<le> fl_pos x" "fl_pos x \<le> 2 powi (exponent x + 1)"
proof -
  let ?u = "2 powi (exponent x - 52) :: rat"
  have "round_even (of_int (2 ^ 52)) \<le> round_even (x / ?u)"
       "round_even (x / ?u) \<le> round_even (of_int (2 ^ 53))"
    using scaled_bounds [OF assms] by (intro round_even_mono; simp)+
  then have "2 ^ 52 \<le> round_even (x / ?u)" "round_even (x / ?u) \<le> 2 ^ 53"
    by (simp_all only: round_even_int)
  then have "of_int (2 ^ 52) \<le> (of_int (round_even (x / ?u)) :: rat)"
      "(of_int (round_even (x / ?u)) :: rat) \<le> of_int (2 ^ 53)"
    by (simp_all only: of_int_le_iff)
  then have "2 ^ 52 * ?u \<le> fl_pos x" "fl_pos x \<le> 2 ^ 53 * ?u"
    unfolding fl_pos_def Let_def by (intro mult_right_mono; simp)+
  moreover have "2 ^ 52 * ?u = 2 powi exponent x" "2 ^ 53 * ?u = 2 powi (exponent x + 1)"
    using power_int_add [of "2 :: rat" 52 "exponent x - 52"]
      power_int_add [of "2 :: rat" 53 "exponent x - 52"] by (simp_all add: add.commute)
  ultimately show "2 powi exponent x \<le> fl_pos x" "fl_pos x \<le> 2 powi (exponent x + 1)"
    by simp_all
qed

lemma fl_pos_mono:
  assumes "0 < x" "x \<le> y"
  shows "fl_pos x \<le> fl_pos y"
proof (cases "exponent x = exponent y")
  case True
  then show ?thesis
    using assms by (auto simp: fl_pos_def Let_def intro!: mult_right_mono round_even_mono divide_right_mono)
next
  case False
  then have "exponent x + 1 \<le> exponent y" using exponent_le [OF assms] by linarith
  then have "fl_pos x \<le> 2 powi exponent y"
    using fl_pos_bounds(2) [OF assms(1)] by (meson order_trans powi_le_iff)
  also have "\<dots> \<le> fl_pos y" using fl_pos_bounds(1) [of y] assms by linarith
  finally show ?thesis .
qed

lemma fl_pos_error:
  assumes "0 < x"
  shows "\<bar>fl_pos x - x\<bar> \<le> x / 2 ^ 53"
proof -
  let ?u = "2 powi (exponent x - 52) :: rat"
  have "fl_pos x - x = (of_int (round_even (x / ?u)) - x / ?u) * ?u"
    by (simp add: fl_pos_def Let_def left_diff_distrib)
  then have "\<bar>fl_pos x - x\<bar> = \<bar>of_int (round_even (x / ?u)) - x / ?u\<bar> * ?u"
    by (simp add: abs_mult)
  also have "\<dots> \<le> 1 / 2 * ?u"
    using round_even_error by (intro mult_right_mono) auto
  also have "\<dots> \<le> x / 2 ^ 53"
    using scaled_bounds(1) [OF assms] by (simp add: field_simps)
  finally show ?thesis .
qed

lemma fl_pos_int:
  assumes "0 < n" "n \<le> 2 ^ 53"
  shows "fl_pos (of_int n) = of_int n"
proof -
  define e where "e = exponent (of_int n)"
  have e: "2 powi e \<le> (of_int n :: rat)" "(of_int n :: rat) < 2 powi (e + 1)"
    using exponent_bounds [of "of_int n"] assms by (simp_all add: e_def)
  have "(2 :: rat) powi e \<le> of_int (2 ^ 53)"
    using e(1) assms(2) of_int_le_iff [of n "2 ^ 53", where 'a = rat] by linarith
  then have "(2 :: rat) powi e \<le> 2 powi 53" by simp
  then have le: "e \<le> 53" by (simp only: powi_le_iff)
  obtain m :: int where m: "of_int n / 2 powi (e - 52) = (of_int m :: rat)"
  proof (cases "e \<le> 52")
    case True
    then have "of_int n / 2 powi (e - 52) = (of_int n * 2 powi (52 - e) :: rat)"
      using power_int_minus [of "2 :: rat" "e - 52"] by (simp add: divide_inverse)
    also have "\<dots> = of_int (n * 2 ^ nat (52 - e))"
      using True by (simp add: power_int_nonneg_exp)
    finally show ?thesis by (rule that)
  next
    case False
    then have "e = 53" using le by simp
    then have "(of_int (2 ^ 53) :: rat) \<le> of_int n" using e(1) by simp
    then have "n = 2 ^ 53" using assms(2) by (simp only: of_int_le_iff)
    with \<open>e = 53\<close> have "of_int n / 2 powi (e - 52) = (of_int (2 ^ 52) :: rat)" by simp
    then show ?thesis by (rule that)
  qed
  then show ?thesis
    by (simp add: fl_pos_def Let_def flip: e_def)
      (simp add: field_simps)
qed

lemma fl_mono: "x \<le> y \<Longrightarrow> fl x \<le> fl y"
proof -
  assume le: "x \<le> y"
  have pos: "0 < z \<Longrightarrow> 0 < fl_pos z" for z
    using fl_pos_bounds(1) [of z] zero_less_power_int [of "2 :: rat" "exponent z"] by linarith
  consider "0 < x" "0 < y" | "x < 0" "0 < y" | "x < 0" "y < 0" | "x = 0" | "y = 0"
    using le by fastforce
  then show "fl x \<le> fl y"
  proof cases
    case 1
    then show ?thesis using le by (simp add: fl_def fl_pos_mono)
  next
    case 2
    then show ?thesis using pos [of "- x"] pos [of y] by (simp add: fl_def)
  next
    case 3
    then show ?thesis using fl_pos_mono [of "- y" "- x"] le by (simp add: fl_def)
  qed (use le pos [of y] pos [of "- x"] in \<open>auto simp: fl_def\<close>)
qed

lemma fl_int: "\<bar>n\<bar> \<le> 2 ^ 53 \<Longrightarrow> fl (of_int n) = of_int n"
  using fl_pos_int [of n] fl_pos_int [of "- n"] by (auto simp: fl_def abs_if split: if_splits)

lemma fl_error: "\<bar>fl x - x\<bar> \<le> \<bar>x\<bar> / 2 ^ 53"
proof -
  consider "x = 0" | "0 < x" | "x < 0" by linarith
  then show ?thesis
  proof cases
    case 2
    then show ?thesis using fl_pos_error [of x] by (simp add: fl_def)
  next
    case 3
    then have "fl x - x = - (fl_pos (- x) - - x)" by (simp add: fl_def)
    then show ?thesis
      using 3 fl_pos_error [of "- x"] by (simp only: abs_minus_cancel abs_of_neg)
  qed (simp add: fl_def)
qed

section \<open>The interface of the limiters\<close>

locale rounding =
  fixes rnd :: "rat \<Rightarrow> rat"
  assumes mono: "x \<le> y \<Longrightarrow> rnd x \<le> rnd y"
    and exact: "\<bar>n\<bar> \<le> 2 ^ 53 \<Longrightarrow> rnd (of_int n) = of_int n"
    and err: "\<bar>rnd x - x\<bar> \<le> \<bar>x\<bar> / 2 ^ 53"
begin

lemma ge_int: "\<bar>n\<bar> \<le> 2 ^ 53 \<Longrightarrow> of_int n \<le> x \<Longrightarrow> of_int n \<le> rnd x"
  using mono [of "of_int n" x] exact [of n] by simp

lemma le_int: "\<bar>n\<bar> \<le> 2 ^ 53 \<Longrightarrow> x \<le> of_int n \<Longrightarrow> rnd x \<le> of_int n"
  using mono [of x "of_int n"] exact [of n] by simp

lemma nonneg: "0 \<le> x \<Longrightarrow> 0 \<le> rnd x"
  using ge_int [of 0 x] by simp

lemma ge_one: "1 \<le> x \<Longrightarrow> 1 \<le> rnd x"
  using ge_int [of 1 x] by simp

lemma zero: "rnd 0 = 0"
  using exact [of 0] by simp

lemma upper: "0 \<le> x \<Longrightarrow> rnd x \<le> x * (1 + 1 / 2 ^ 53)"
  using err [of x] by (simp add: abs_if algebra_simps split: if_splits)

lemma lower: "0 \<le> x \<Longrightarrow> x * (1 - 1 / 2 ^ 53) \<le> rnd x"
  using err [of x] by (simp add: abs_if algebra_simps split: if_splits)

end

interpretation ieee: rounding fl
  by unfold_locales (fact fl_mono fl_int fl_error)+

lemma fl_numeral: "(numeral k :: int) \<le> 2 ^ 53 \<Longrightarrow> fl (numeral k) = numeral k"
  using fl_int [of "numeral k"] by simp

section \<open>Conversions of the source\<close>

text \<open>\<open>d.Seconds()\<close>: whole seconds plus the remaining nanoseconds over 1e9.\<close>

definition Duration_Seconds :: "duration \<Rightarrow> rat" where
  "Duration_Seconds d =
     fl (fl (of_int (d sdiv Second)) + fl (fl (of_int (d smod Second)) / 10 ^ 9))"

text \<open>Conversion to an integer truncates; out of the range of the type the result is the
  one of the \<open>amd64\<close> instruction.\<close>

definition int_of_float :: "rat \<Rightarrow> int" where
  "int_of_float x =
     (let n = (if 0 \<le> x then \<lfloor>x\<rfloor> else \<lceil>x\<rceil>) in if int64 n then n else min_int64)"

definition float_of_int :: "int \<Rightarrow> rat" where
  "float_of_int n = fl (of_int n)"

lemma Duration_Seconds_whole:
  assumes "0 \<le> k" "k \<le> 2 ^ 53"
  shows "Duration_Seconds (k * Second) = of_int k"
proof -
  have "k * Second sdiv Second = k" "k * Second smod Second = 0"
    using assms by (auto simp: signed_divide_int_def signed_modulo_int_def sgn_if)
  then show ?thesis
    using assms ieee.exact [of k] by (simp add: Duration_Seconds_def ieee.zero)
qed

lemma int_of_float_int [simp]: "int64 n \<Longrightarrow> int_of_float (of_int n) = n"
  by (simp add: int_of_float_def)

lemma duration_split:
  assumes "0 \<le> d" "int64 d"
  shows "d sdiv Second = d div Second" "d smod Second = d mod Second"
    "0 \<le> d div Second" "d div Second \<le> 2 ^ 53" "0 \<le> d mod Second" "d mod Second \<le> 2 ^ 53"
  using assms pos_mod_bound [of Second d]
  by (auto simp: signed_divide_int_def signed_modulo_int_def int64_def sgn_if
      intro: order_trans [OF less_imp_le [OF pos_mod_bound]])

lemma Duration_Seconds_nonneg_eq:
  assumes "0 \<le> d" "int64 d"
  shows "Duration_Seconds d = fl (of_int (d div Second) + fl (of_int (d mod Second) / 10 ^ 9))"
  using duration_split [OF assms] ieee.exact [of "d div Second"] ieee.exact [of "d mod Second"]
  by (simp add: Duration_Seconds_def)

lemma Duration_Seconds_nonneg: "0 \<le> d \<Longrightarrow> int64 d \<Longrightarrow> 0 \<le> Duration_Seconds d"
  by (simp add: Duration_Seconds_nonneg_eq ieee.nonneg pos_imp_zdiv_nonneg_iff)

lemma Duration_Seconds_ge_one:
  assumes "Second \<le> d" "int64 d"
  shows "1 \<le> Duration_Seconds d"
proof -
  have "1 \<le> d div Second" using assms zdiv_mono1 [of Second d Second] by simp
  then have "1 \<le> (of_int (d div Second) :: rat)" by linarith
  moreover have "0 \<le> fl (of_int (d mod Second) / 10 ^ 9)" by (intro ieee.nonneg) simp
  ultimately show ?thesis
    using assms by (simp add: Duration_Seconds_nonneg_eq) (intro ieee.ge_one, linarith)
qed

text \<open>The seconds of a duration exceed the exact quotient by two roundings at most.\<close>

lemma Duration_Seconds_upper:
  assumes "0 \<le> d" "int64 d"
  shows "Duration_Seconds d \<le> of_int d / 10 ^ 9 * (1 + 1 / 2 ^ 53)\<^sup>2"
proof -
  define s r :: rat where "s = of_int (d div Second)" and "r = of_int (d mod Second) / 10 ^ 9"
  have nonneg: "0 \<le> s" "0 \<le> r"
    using duration_split [OF assms] by (simp_all add: s_def r_def)
  have "of_int d = (of_int (d div Second * Second + d mod Second) :: rat)" by simp
  then have sum: "of_int d / 10 ^ 9 = s + r"
    unfolding s_def r_def of_int_add of_int_mult by (simp add: add_divide_distrib)
  have "Duration_Seconds d \<le> (s + fl r) * (1 + 1 / 2 ^ 53)"
    using ieee.upper [of "s + fl r"] nonneg ieee.nonneg [OF nonneg(2)]
    by (simp add: Duration_Seconds_nonneg_eq [OF assms] s_def r_def)
  also have "\<dots> \<le> (s + r * (1 + 1 / 2 ^ 53)) * (1 + 1 / 2 ^ 53)"
    using ieee.upper [OF nonneg(2)] by (intro mult_right_mono add_left_mono) auto
  also have "\<dots> \<le> (s + r) * (1 + 1 / 2 ^ 53) * (1 + 1 / 2 ^ 53)"
    using nonneg by (intro mult_right_mono) (auto simp: algebra_simps)
  finally show ?thesis by (simp only: sum power2_eq_square mult.assoc)
qed

end
