(* ===== verification/Repositories.thy ===== *)
theory Repositories
  imports Database Float64
begin

text \<open>
  The repositories of \<open>src/internal/repository\<close>, and the tables behind them as the struct
  tags of \<open>src/internal/models\<close> describe them.  A pair of a pointer and an error is a sum: no
  caller looks at the pointer when there is an error.
\<close>

section \<open>Tables\<close>

definition null_time :: "time option \<Rightarrow> sql_val" where
  "null_time t = (case t of None \<Rightarrow> SNull | Some x \<Rightarrow> STime x)"

definition null_text :: "string option \<Rightarrow> sql_val" where
  "null_text s = (case s of None \<Rightarrow> SNull | Some x \<Rightarrow> SText x)"

definition api_keys_column :: "APIKey \<Rightarrow> string \<Rightarrow> sql_val" where
  "api_keys_column a col =
     (if col = ''id'' then SText (ID a)
      else if col = ''key_hash'' then SText (KeyHash a)
      else if col = ''name'' then SText (Name a)
      else if col = ''created_by'' then SText (CreatedBy a)
      else if col = ''tier'' then SText (Tier a)
      else if col = ''is_active'' then SBool (IsActive a)
      else if col = ''created_at'' then STime (CreatedAt a)
      else if col = ''last_used_at'' then null_time (LastUsedAt a)
      else SNull)"

text \<open>Only the columns the gateway updates; a value of another type leaves the row.\<close>

definition api_keys_assign :: "string \<Rightarrow> sql_val \<Rightarrow> APIKey \<Rightarrow> APIKey" where
  "api_keys_assign col v a =
     (case v of
        SText s \<Rightarrow> if col = ''tier'' then a\<lparr>Tier := s\<rparr> else a
      | SBool b \<Rightarrow> if col = ''is_active'' then a\<lparr>IsActive := b\<rparr> else a
      | STime t \<Rightarrow> if col = ''last_used_at'' then a\<lparr>LastUsedAt := Some t\<rparr> else a
      | _ \<Rightarrow> a)"

definition api_keys_filled :: "time \<Rightarrow> nat \<Rightarrow> APIKey \<Rightarrow> APIKey" where
  "api_keys_filled now i a =
     a\<lparr>Tier := (if Tier a = '''' then ''basic'' else Tier a),
       IsActive := True,
       CreatedAt := (if CreatedAt a = zero_time then now else CreatedAt a)\<rparr>"

definition api_keys :: "APIKey model" where
  "api_keys =
     \<lparr>columns = [''tier'', ''is_active'', ''last_used_at''], column = api_keys_column,
      assign = api_keys_assign, uuid_columns = [''id''], primary_key = ''id'',
      unique_columns = [''id'', ''key_hash''], filled = api_keys_filled\<rparr>"

definition users_column :: "User \<Rightarrow> string \<Rightarrow> sql_val" where
  "users_column u col =
     (if col = ''id'' then SText (user_ID u)
      else if col = ''email'' then SText (Email u)
      else if col = ''password_hash'' then SText (PasswordHash u)
      else if col = ''name'' then SText (user_Name u)
      else if col = ''role'' then SText (Role u)
      else if col = ''created_at'' then STime (user_CreatedAt u)
      else SNull)"

definition users_filled :: "time \<Rightarrow> nat \<Rightarrow> User \<Rightarrow> User" where
  "users_filled now i u =
     u\<lparr>Role := (if Role u = '''' then ''admin'' else Role u),
       user_CreatedAt := (if user_CreatedAt u = zero_time then now else user_CreatedAt u)\<rparr>"

definition users :: "User model" where
  "users =
     \<lparr>columns = [], column = users_column, assign = (\<lambda>col v u. u), uuid_columns = [''id''],
      primary_key = ''id'', unique_columns = [''id'', ''email''], filled = users_filled\<rparr>"

definition request_logs_column :: "RequestLog \<Rightarrow> string \<Rightarrow> sql_val" where
  "request_logs_column l col =
     (if col = ''id'' then SInt (int (log_ID l))
      else if col = ''timestamp'' then STime (Timestamp l)
      else if col = ''api_key_id'' then null_text (APIKeyID l)
      else if col = ''method'' then SText (log_Method l)
      else if col = ''path'' then SText (log_Path l)
      else if col = ''status_code'' then SInt (StatusCode l)
      else if col = ''response_time_ms'' then SInt (ResponseTimeMs l)
      else if col = ''ip_address'' then SText (IPAddress l)
      else if col = ''user_agent'' then SText (UserAgent l)
      else if col = ''backend_server'' then SText (BackendServer l)
      else SNull)"

definition request_logs_filled :: "time \<Rightarrow> nat \<Rightarrow> RequestLog \<Rightarrow> RequestLog" where
  "request_logs_filled now i l = (if log_ID l = 0 then l\<lparr>log_ID := i\<rparr> else l)"

definition request_logs :: "RequestLog model" where
  "request_logs =
     \<lparr>columns = [], column = request_logs_column, assign = (\<lambda>col v l. l),
      uuid_columns = [''api_key_id''], primary_key = ''id'', unique_columns = [''id''],
      filled = request_logs_filled\<rparr>"

section \<open>API keys\<close>

definition not_found_nil :: "(go_error + 'a) \<times> 'd \<Rightarrow> (go_error + 'a option) \<times> 'd" where
  "not_found_nil out =
     (case out of
        (Inl err, d) \<Rightarrow> (if err = ErrRecordNotFound then Inr None else Inl err, d)
      | (Inr x, d) \<Rightarrow> (Inr (Some x), d))"

definition APIKeyRepository_Create ::
    "('d, APIKey) gorm \<Rightarrow> uuid \<Rightarrow> APIKey \<Rightarrow> 'd \<Rightarrow> go_error option \<times> 'd" where
  "APIKeyRepository_Create g fresh apiKey d = g_Create g (APIKey_BeforeCreate fresh) [apiKey] d"

definition FindByHash ::
    "('d, APIKey) gorm \<Rightarrow> string \<Rightarrow> 'd \<Rightarrow> (go_error + APIKey option) \<times> 'd" where
  "FindByHash g hash d =
     not_found_nil (g_First g
       (Where [Equals ''key_hash'' (SText hash), Equals ''is_active'' (SBool True)] all_rows) d)"

definition FindByID ::
    "('d, APIKey) gorm \<Rightarrow> string \<Rightarrow> 'd \<Rightarrow> (go_error + APIKey option) \<times> 'd" where
  "FindByID g keyID d = not_found_nil (g_First g (Where [Equals ''id'' (SText keyID)] all_rows) d)"

definition APIKeyRepository_List ::
    "('d, APIKey) gorm \<Rightarrow> 'd \<Rightarrow> (APIKey list \<times> go_error option) \<times> 'd" where
  "APIKeyRepository_List g d = g_Find g (Order ''created_at'' DESC all_rows) d"

definition APIKeyRepository_Update ::
    "('d, APIKey) gorm \<Rightarrow> string \<Rightarrow> (string \<rightharpoonup> sql_val) \<Rightarrow> 'd \<Rightarrow> go_error option \<times> 'd" where
  "APIKeyRepository_Update g keyID updates d =
     g_Updates g (Where [Equals ''id'' (SText keyID)] all_rows) updates d"

definition APIKeyRepository_UpdateLastUsed ::
    "('d, APIKey) gorm \<Rightarrow> time \<Rightarrow> uuid \<Rightarrow> 'd \<Rightarrow> go_error option \<times> 'd" where
  "APIKeyRepository_UpdateLastUsed g now keyID d =
     g_Updates g (Where [Equals ''id'' (SText keyID)] all_rows) [''last_used_at'' \<mapsto> STime now] d"

definition APIKeyRepository_Delete ::
    "('d, APIKey) gorm \<Rightarrow> string \<Rightarrow> 'd \<Rightarrow> go_error option \<times> 'd" where
  "APIKeyRepository_Delete g keyID d =
     (case g_Delete g (Where [Equals ''id'' (SText keyID)] all_rows) d of ((n, err), d) \<Rightarrow> (err, d))"

definition CountByTier ::
    "('d, APIKey) gorm \<Rightarrow> string \<Rightarrow> 'd \<Rightarrow> (int \<times> go_error option) \<times> 'd" where
  "CountByTier g tier d =
     g_Count g (Where [Equals ''tier'' (SText tier), Equals ''is_active'' (SBool True)] all_rows) d"

section \<open>Users\<close>

definition AuthRepository_Create ::
    "('d, User) gorm \<Rightarrow> uuid \<Rightarrow> User \<Rightarrow> 'd \<Rightarrow> go_error option \<times> 'd" where
  "AuthRepository_Create g fresh user d = g_Create g (User_BeforeCreate fresh) [user] d"

definition FindByEmail ::
    "('d, User) gorm \<Rightarrow> string \<Rightarrow> 'd \<Rightarrow> (go_error + User option) \<times> 'd" where
  "FindByEmail g email d =
     not_found_nil (g_First g (Where [Equals ''email'' (SText email)] all_rows) d)"

definition FindById ::
    "('d, User) gorm \<Rightarrow> string \<Rightarrow> 'd \<Rightarrow> (go_error + User option) \<times> 'd" where
  "FindById g keyID d = not_found_nil (g_First g (Where [Equals ''id'' (SText keyID)] all_rows) d)"

definition AuthRepository_List ::
    "('d, User) gorm \<Rightarrow> 'd \<Rightarrow> (User list \<times> go_error option) \<times> 'd" where
  "AuthRepository_List g d = g_Find g (Order ''created_at'' DESC all_rows) d"

section \<open>What the lookups return\<close>

lemma query_ok_Where [simp]:
  "query_ok M (Where cs all_rows) \<longleftrightarrow> list_all (condition_ok (uuid_columns M)) cs"
  "query_ok M (Order col dir all_rows)"
  by (simp_all add: query_ok_def query_builders)

lemma matches_Where [simp]: "matches M (Where cs all_rows) x \<longleftrightarrow> list_all (holds (column M x)) cs"
  by (simp add: matches_def query_builders)

lemma model_simps [simp]:
  "column api_keys = api_keys_column" "uuid_columns api_keys = [''id'']"
  "columns api_keys = [''tier'', ''is_active'', ''last_used_at'']"
  "assign api_keys = api_keys_assign" "filled api_keys = api_keys_filled"
  "column users = users_column" "uuid_columns users = [''id'']" "filled users = users_filled"
  "column request_logs = request_logs_column" "uuid_columns request_logs = [''api_key_id'']"
  "filled request_logs = request_logs_filled"
  by (simp_all add: api_keys_def users_def request_logs_def)

lemma api_keys_columns [simp]:
  "api_keys_column a ''id'' = SText (ID a)" "api_keys_column a ''key_hash'' = SText (KeyHash a)"
  "api_keys_column a ''tier'' = SText (Tier a)" "api_keys_column a ''is_active'' = SBool (IsActive a)"
  by (simp_all add: api_keys_column_def)

lemma not_found_nil_cases:
  "not_found_nil p = (res, d') \<longleftrightarrow>
     snd p = d' \<and>
     (case fst p of
        Inl err \<Rightarrow> res = (if err = ErrRecordNotFound then Inr None else Inl err)
      | Inr x \<Rightarrow> res = Inr (Some x))"
  by (cases p) (auto simp: not_found_nil_def split: sum.splits)

lemma First_or_nil:
  assumes "gorm_conforms M g rows" "not_found_nil (g_First g q d) = (res, d')" "query_ok M q"
  shows "rows d' = rows d"
    and "res = Inr None \<Longrightarrow> selected M q (rows d) = []"
    and "res = Inr (Some x) \<Longrightarrow> x \<in> set (selected M q (rows d))"
proof -
  obtain res0 where p: "g_First g q d = (res0, d')"
    using assms(2) by (cases "g_First g q d") (simp add: not_found_nil_cases)
  note facts = conforms_First [OF assms(1) p assms(3)]
  show "rows d' = rows d" by (rule facts(1))
  show "res = Inr None \<Longrightarrow> selected M q (rows d) = []"
    using assms(2) p facts(2) by (auto simp: not_found_nil_cases split: sum.splits if_splits)
  show "res = Inr (Some x) \<Longrightarrow> x \<in> set (selected M q (rows d))"
    using assms(2) p facts(3) by (auto simp: not_found_nil_cases split: sum.splits if_splits)
qed

lemma FindByHash_spec:
  assumes "gorm_conforms api_keys g rows" "FindByHash g h d = (res, d')"
  shows "rows d' = rows d"
    and "res = Inr None \<Longrightarrow> k \<in> set (rows d) \<Longrightarrow> KeyHash k = h \<Longrightarrow> \<not> IsActive k"
    and "res = Inr (Some k) \<Longrightarrow> k \<in> set (rows d) \<and> KeyHash k = h \<and> IsActive k"
proof -
  note facts = First_or_nil [OF assms(1) assms(2) [unfolded FindByHash_def]]
  show "rows d' = rows d" using facts(1) by simp
  show "res = Inr None \<Longrightarrow> k \<in> set (rows d) \<Longrightarrow> KeyHash k = h \<Longrightarrow> \<not> IsActive k"
    using facts(2) by (auto simp: selected_def filter_empty_conv)
  show "res = Inr (Some k) \<Longrightarrow> k \<in> set (rows d) \<and> KeyHash k = h \<and> IsActive k"
    using facts(3) [of k] by (auto simp: selected_def)
qed

lemma FindByID_spec:
  assumes "gorm_conforms api_keys g rows" "FindByID g i d = (res, d')" "canonical_uuid i"
  shows "rows d' = rows d"
    and "res = Inr None \<Longrightarrow> k \<in> set (rows d) \<Longrightarrow> ID k \<noteq> i"
    and "res = Inr (Some k) \<Longrightarrow> k \<in> set (rows d) \<and> ID k = i"
proof -
  note facts = First_or_nil [OF assms(1) assms(2) [unfolded FindByID_def]]
  show "rows d' = rows d" using facts(1) assms(3) by simp
  show "res = Inr None \<Longrightarrow> k \<in> set (rows d) \<Longrightarrow> ID k \<noteq> i"
    using facts(2) assms(3) by (auto simp: selected_def filter_empty_conv)
  show "res = Inr (Some k) \<Longrightarrow> k \<in> set (rows d) \<and> ID k = i"
    using facts(3) [of k] assms(3) by (auto simp: selected_def)
qed

end
