(* ===== verification/Analytics.thy ===== *)
theory Analytics
  imports Repositories Gin
begin

text \<open>
  Analytics over the request log: the repository
  \<open>src/internal/repository/requestLogRepository.go\<close>, the service
  \<open>src/internal/service/analytics.go\<close> and the handlers \<open>src/internal/handler/analytics.go\<close>.
  The aggregates that the database computes are further operations of the mapper; the rates
  are computed here, in \<open>float64\<close>.

  Shown: every rate is between 0 and 100; the statistics of a key are those of its entries, up
  to the ten thousand latest; every page of the log has at most a thousand entries, whatever
  the query says; and a percentile that is not a whole number is reported as 0.
\<close>

section \<open>Aggregates\<close>

text \<open>A cursor over rows: what scanning the successive rows into the variables of the source gives, and
  the error that ended the iteration, if any.\<close>

record 'a cursor =
  cur_rows :: "(go_error + 'a) list"
  cur_Err :: "go_error option"

record 'd log_gorm = "('d, RequestLog) gorm" +
  g_Scan_float :: "string \<Rightarrow> query \<Rightarrow> 'd \<Rightarrow> (rat \<times> go_error option) \<times> 'd"
  g_Raw_Scan_int :: "string \<Rightarrow> rat \<Rightarrow> time \<Rightarrow> time \<Rightarrow> 'd \<Rightarrow> (int \<times> go_error option) \<times> 'd"
  g_Rows_paths :: "string \<Rightarrow> string \<Rightarrow> query \<Rightarrow> 'd \<Rightarrow> (go_error + (string \<times> int) cursor) \<times> 'd"
  g_Rows_hours :: "string \<Rightarrow> string \<Rightarrow> query \<Rightarrow> 'd \<Rightarrow> (go_error + (time \<times> int \<times> rat) cursor) \<times> 'd"

text \<open>The values of a \<open>map[string]interface{}\<close>; its entries are encoded in the order of the keys.\<close>

datatype iface = IString string | IInt64 int | ITime time | IFloat64 rat

type_synonym row_map = "(string \<times> iface) list"

fun iface_json :: "iface \<Rightarrow> json" where
  "iface_json (IString s) = JStr s"
| "iface_json (IInt64 n) = JInt n"
| "iface_json (ITime t) = JTime t"
| "iface_json (IFloat64 x) = JFloat x"

definition row_json :: "row_map \<Rightarrow> json" where
  "row_json m = JObj (map (\<lambda>(k, v). (k, iface_json v)) (sort_key fst m))"

section \<open>The repository\<close>

definition in_range :: "time \<Rightarrow> time \<Rightarrow> condition" where
  "in_range from to = Between ''timestamp'' (STime from) (STime to)"

definition RequestLogRepository_Create ::
    "('d, RequestLog) gorm \<Rightarrow> RequestLog \<Rightarrow> 'd \<Rightarrow> go_error option \<times> 'd" where
  "RequestLogRepository_Create g entry d = g_Create g id [entry] d"

definition CreateBatch ::
    "('d, RequestLog) gorm \<Rightarrow> RequestLog list \<Rightarrow> 'd \<Rightarrow> go_error option \<times> 'd" where
  "CreateBatch g logs d = (if length logs = 0 then (None, d) else g_Create g id logs d)"

definition FindByTimeRange ::
    "'d log_gorm \<Rightarrow> time \<Rightarrow> time \<Rightarrow> int \<Rightarrow> int \<Rightarrow> 'd \<Rightarrow> (RequestLog list \<times> go_error option) \<times> 'd" where
  "FindByTimeRange g from to limit offset d =
     g_Find g (Offset offset (Limit limit (Order ''timestamp'' DESC
       (Where [in_range from to] all_rows)))) d"

definition FindByAPIKey ::
    "'d log_gorm \<Rightarrow> uuid \<Rightarrow> time \<Rightarrow> time \<Rightarrow> int \<Rightarrow> int \<Rightarrow> 'd \<Rightarrow>
     (RequestLog list \<times> go_error option) \<times> 'd" where
  "FindByAPIKey g apiKeyID from to limit offset d =
     g_Find g (Offset offset (Limit limit (Order ''timestamp'' DESC
       (Where [Equals ''api_key_id'' (SText apiKeyID), in_range from to] all_rows)))) d"

definition FindByStatusCode ::
    "'d log_gorm \<Rightarrow> int \<Rightarrow> time \<Rightarrow> time \<Rightarrow> int \<Rightarrow> int \<Rightarrow> 'd \<Rightarrow>
     (RequestLog list \<times> go_error option) \<times> 'd" where
  "FindByStatusCode g statusCode from to limit offset d =
     g_Find g (Offset offset (Limit limit
       (Where [Equals ''status_code'' (SInt statusCode), in_range from to] all_rows))) d"

definition CountByTimeRange ::
    "'d log_gorm \<Rightarrow> time \<Rightarrow> time \<Rightarrow> 'd \<Rightarrow> (int \<times> go_error option) \<times> 'd" where
  "CountByTimeRange g from to d = g_Count g (Where [in_range from to] all_rows) d"

definition GetAverageResponseTime ::
    "'d log_gorm \<Rightarrow> time \<Rightarrow> time \<Rightarrow> 'd \<Rightarrow> (rat \<times> go_error option) \<times> 'd" where
  "GetAverageResponseTime g from to d =
     g_Scan_float g ''AVG(response_time_ms)'' (Where [in_range from to] all_rows) d"

definition GetPercentile ::
    "'d log_gorm \<Rightarrow> time \<Rightarrow> time \<Rightarrow> rat \<Rightarrow> 'd \<Rightarrow> (int \<times> go_error option) \<times> 'd" where
  "GetPercentile g from to percentile d =
     g_Raw_Scan_int g
       ''SELECT PERCENTILE_CONT(?) WITHIN GROUP (ORDER BY response_time_ms) FROM request_logs WHERE timestamp BETWEEN ? AND ?''
       percentile from to d"

definition CountByStatusCodeRange ::
    "'d log_gorm \<Rightarrow> int \<Rightarrow> int \<Rightarrow> time \<Rightarrow> time \<Rightarrow> 'd \<Rightarrow> (int \<times> go_error option) \<times> 'd" where
  "CountByStatusCodeRange g minStatusCode maxStatusCode from to d =
     g_Count g (Where [Between ''status_code'' (SInt minStatusCode) (SInt maxStatusCode),
                       in_range from to] all_rows) d"

text \<open>The loops over a cursor: the first row that cannot be scanned ends them with its error.  How
  the iteration ended is not asked.\<close>

fun scan_rows :: "('a \<Rightarrow> row_map) \<Rightarrow> (go_error + 'a) list \<Rightarrow> go_error + row_map list" where
  "scan_rows entry [] = Inr []"
| "scan_rows entry (Inl err # rest) = Inl err"
| "scan_rows entry (Inr x # rest) =
     (case scan_rows entry rest of Inl err \<Rightarrow> Inl err | Inr xs \<Rightarrow> Inr (entry x # xs))"

definition GetTopEndpoints ::
    "'d log_gorm \<Rightarrow> time \<Rightarrow> time \<Rightarrow> int \<Rightarrow> 'd \<Rightarrow> (go_error + row_map list) \<times> 'd" where
  "GetTopEndpoints g from to limit d =
     (case g_Rows_paths g ''path, COUNT(*) as count'' ''path''
             (Limit limit (Order ''count'' DESC (Where [in_range from to] all_rows))) d of
        (Inl err, d) \<Rightarrow> (Inl err, d)
      | (Inr rows, d) \<Rightarrow>
          (scan_rows (\<lambda>(path, n). [(''path'', IString path), (''count'', IInt64 n)]) (cur_rows rows), d))"

definition GetHourlyStatus ::
    "'d log_gorm \<Rightarrow> time \<Rightarrow> time \<Rightarrow> 'd \<Rightarrow> (go_error + row_map list) \<times> 'd" where
  "GetHourlyStatus g from to d =
     (case g_Rows_hours g ''DATE_TRUNC('hour', timestamp) as hour, COUNT(*) as count, AVG(response_time_ms) as avg_response_time''
             ''hour'' (Order ''hour'' ASC (Where [in_range from to] all_rows)) d of
        (Inl err, d) \<Rightarrow> (Inl err, d)
      | (Inr rows, d) \<Rightarrow>
          (scan_rows (\<lambda>(hour, n, avgResponseTime).
             [(''hour'', ITime hour), (''count'', IInt64 n),
              (''avg_response_time'', IFloat64 avgResponseTime)]) (cur_rows rows), d))"

definition DeleteOldLogs :: "'d log_gorm \<Rightarrow> time \<Rightarrow> 'd \<Rightarrow> (int \<times> go_error option) \<times> 'd" where
  "DeleteOldLogs g before d = g_Delete g (Where [Less_than ''timestamp'' (STime before)] all_rows) d"

section \<open>The service\<close>

record 'd AnalyticsService =
  as_repository :: "'d log_gorm"

definition NewAnalyticsService :: "'d log_gorm \<Rightarrow> 'd AnalyticsService" where
  "NewAnalyticsService repo = \<lparr>as_repository = repo\<rparr>"

record AnalyticsSummary =
  TotalRequests :: int
  AvgResponseTime :: rat
  P50ResponseTime :: int
  P95ResponseTime :: int
  P99ResponseTime :: int
  ErrorRate :: rat
  SuccessRate :: rat
  ClientErrorRate :: rat
  ServerErrorRate :: rat
  TopEndpoints :: "row_map list"

definition AnalyticsSummary_zero :: AnalyticsSummary where
  "AnalyticsSummary_zero =
     \<lparr>TotalRequests = 0, AvgResponseTime = 0, P50ResponseTime = 0, P95ResponseTime = 0,
      P99ResponseTime = 0, ErrorRate = 0, SuccessRate = 0, ClientErrorRate = 0,
      ServerErrorRate = 0, TopEndpoints = []\<rparr>"

record TimeSeriesData =
  Hour_start :: time
  Count :: int
  ts_AvgResponseTime :: rat

text \<open>\<open>(float64(n) / float64(total)) * 100\<close>, and the four rates set from the two error counts.\<close>

definition rate :: "int \<Rightarrow> int \<Rightarrow> rat" where
  "rate n requests = fl (fl (float_of_int n / float_of_int requests) * 100)"

definition set_rates :: "int \<Rightarrow> int \<Rightarrow> AnalyticsSummary \<Rightarrow> AnalyticsSummary" where
  "set_rates clientErrors serverErrors summary =
     (let totalErrors = wrap64 (clientErrors + serverErrors);
          requests = TotalRequests summary
      in summary\<lparr>ErrorRate := rate totalErrors requests,
                 SuccessRate := fl (100 - rate totalErrors requests),
                 ClientErrorRate := rate clientErrors requests,
                 ServerErrorRate := rate serverErrors requests\<rparr>)"

text \<open>The constants \<open>0.50\<close>, \<open>0.95\<close> and \<open>0.99\<close> are the nearest \<open>float64\<close> values.\<close>

definition AnalyticsService_GetSummary ::
    "'d AnalyticsService \<Rightarrow> time \<Rightarrow> time \<Rightarrow> 'd \<Rightarrow> (go_error + AnalyticsSummary) \<times> 'd" where
  "AnalyticsService_GetSummary s from to d =
     (let repo = as_repository s in
      case CountByTimeRange repo from to d of
        ((totalRequests, Some err), d) \<Rightarrow> (Inl err, d)
      | ((totalRequests, None), d) \<Rightarrow>
          (let summary = AnalyticsSummary_zero\<lparr>TotalRequests := totalRequests\<rparr> in
           if totalRequests = 0 then (Inr summary, d)
           else
             case GetAverageResponseTime repo from to d of
               ((avgResponseTime, Some err), d) \<Rightarrow> (Inl err, d)
             | ((avgResponseTime, None), d) \<Rightarrow>
                 (case GetPercentile repo from to (fl (50 / 100)) d of
                    ((p50, _), d) \<Rightarrow>
                 (case GetPercentile repo from to (fl (95 / 100)) d of
                    ((p95, _), d) \<Rightarrow>
                 (case GetPercentile repo from to (fl (99 / 100)) d of
                    ((p99, _), d) \<Rightarrow>
                 (case CountByStatusCodeRange repo 400 499 from to d of
                    ((clientErrors, Some err), d) \<Rightarrow> (Inl err, d)
                  | ((clientErrors, None), d) \<Rightarrow>
                 (case CountByStatusCodeRange repo 500 599 from to d of
                    ((serverErrors, Some err), d) \<Rightarrow> (Inl err, d)
                  | ((serverErrors, None), d) \<Rightarrow>
                 (case GetTopEndpoints repo from to 10 d of
                    (Inl err, d) \<Rightarrow> (Inl err, d)
                  | (Inr topEndpoints, d) \<Rightarrow>
                      (Inr ((set_rates clientErrors serverErrors
                               (summary\<lparr>AvgResponseTime := avgResponseTime, P50ResponseTime := p50,
                                        P95ResponseTime := p95, P99ResponseTime := p99\<rparr>))
                            \<lparr>TopEndpoints := topEndpoints\<rparr>), d)))))))))"

text \<open>A type assertion that does not hold panics.\<close>

fun assert_time :: "iface option \<Rightarrow> panic + time" where
  "assert_time (Some (ITime t)) = Inr t"
| "assert_time _ = Inl InterfaceConversion"

fun assert_int64 :: "iface option \<Rightarrow> panic + int" where
  "assert_int64 (Some (IInt64 n)) = Inr n"
| "assert_int64 _ = Inl InterfaceConversion"

fun assert_float64 :: "iface option \<Rightarrow> panic + rat" where
  "assert_float64 (Some (IFloat64 x)) = Inr x"
| "assert_float64 _ = Inl InterfaceConversion"

definition time_series_entry :: "row_map \<Rightarrow> panic + TimeSeriesData" where
  "time_series_entry stat =
     (case assert_time (map_of stat ''hour'') of Inl p \<Rightarrow> Inl p
      | Inr hour \<Rightarrow>
     (case assert_int64 (map_of stat ''count'') of Inl p \<Rightarrow> Inl p
      | Inr n \<Rightarrow>
     (case assert_float64 (map_of stat ''avg_response_time'') of Inl p \<Rightarrow> Inl p
      | Inr avg \<Rightarrow> Inr \<lparr>Hour_start = hour, Count = n, ts_AvgResponseTime = avg\<rparr>)))"

fun time_series :: "row_map list \<Rightarrow> panic + TimeSeriesData list" where
  "time_series [] = Inr []"
| "time_series (stat # rest) =
     (case time_series_entry stat of
        Inl p \<Rightarrow> Inl p
      | Inr x \<Rightarrow> (case time_series rest of Inl p \<Rightarrow> Inl p | Inr xs \<Rightarrow> Inr (x # xs)))"

definition GetTimeSeriesData ::
    "'d AnalyticsService \<Rightarrow> time \<Rightarrow> time \<Rightarrow> 'd \<Rightarrow> (panic + go_error + TimeSeriesData list) \<times> 'd" where
  "GetTimeSeriesData s from to d =
     (case GetHourlyStatus (as_repository s) from to d of
        (Inl err, d) \<Rightarrow> (Inr (Inl err), d)
      | (Inr hourlyStatus, d) \<Rightarrow>
          (case time_series hourlyStatus of
             Inl p \<Rightarrow> (Inl p, d)
           | Inr timeSeries \<Rightarrow> (Inr (Inr timeSeries), d)))"

text \<open>The loop of \<open>GetAPIKeyStats\<close>, with the total response time and the two counters.\<close>

definition is_client_error :: "int \<Rightarrow> bool" where
  "is_client_error code \<longleftrightarrow> 400 \<le> code \<and> code \<le> 499"

definition is_server_error :: "int \<Rightarrow> bool" where
  "is_server_error code \<longleftrightarrow> 500 \<le> code \<and> code \<le> 599"

fun tally_logs :: "RequestLog list \<Rightarrow> int \<Rightarrow> int \<Rightarrow> int \<Rightarrow> int \<times> int \<times> int" where
  "tally_logs [] totalResponseTime clientErrors serverErrors = (totalResponseTime, clientErrors, serverErrors)"
| "tally_logs (entry # logs) totalResponseTime clientErrors serverErrors =
     tally_logs logs (wrap64 (totalResponseTime + ResponseTimeMs entry))
       (if is_client_error (StatusCode entry) then wrap64 (clientErrors + 1) else clientErrors)
       (if is_server_error (StatusCode entry) then wrap64 (serverErrors + 1) else serverErrors)"

definition AnalyticsService_GetAPIKeyStats ::
    "'d AnalyticsService \<Rightarrow> uuid \<Rightarrow> time \<Rightarrow> time \<Rightarrow> 'd \<Rightarrow> (go_error + AnalyticsSummary) \<times> 'd" where
  "AnalyticsService_GetAPIKeyStats s apiKeyID from to d =
     (case FindByAPIKey (as_repository s) apiKeyID from to 10000 0 d of
        ((logs, Some err), d) \<Rightarrow> (Inl err, d)
      | ((logs, None), d) \<Rightarrow>
          (if length logs = 0 then (Inr AnalyticsSummary_zero, d)
           else
             case tally_logs logs 0 0 0 of (totalResponseTime, clientErrors, serverErrors) \<Rightarrow>
               (let requests = int (length logs)
                in (Inr (set_rates clientErrors serverErrors
                           (AnalyticsSummary_zero
                              \<lparr>TotalRequests := requests,
                               AvgResponseTime :=
                                 fl (float_of_int totalResponseTime / float_of_int requests)\<rparr>)), d))))"

definition AnalyticsService_GetLogs ::
    "'d AnalyticsService \<Rightarrow> time \<Rightarrow> time \<Rightarrow> int option \<Rightarrow> int \<Rightarrow> int \<Rightarrow> 'd \<Rightarrow>
     (go_error + RequestLog list) \<times> 'd" where
  "AnalyticsService_GetLogs s from to statusCode limit offset d =
     (case (case statusCode of
              Some code \<Rightarrow> FindByStatusCode (as_repository s) code from to limit offset d
            | None \<Rightarrow> FindByTimeRange (as_repository s) from to limit offset d) of
        ((logResults, Some err), d) \<Rightarrow> (Inl err, d)
      | ((logResults, None), d) \<Rightarrow> (Inr logResults, d))"

text \<open>The parts of the standard library that the service and the handlers use as they are: the
  calendar, the parser of RFC 3339 and the quoting of the errors of \<open>strconv\<close>.\<close>

record go_library =
  AddDate :: "time \<Rightarrow> int \<Rightarrow> int \<Rightarrow> int \<Rightarrow> time"
  Parse_RFC3339 :: "string \<Rightarrow> go_error + time"
  Quote :: "string \<Rightarrow> string"

definition CleanupOldLogs ::
    "go_library \<Rightarrow> 'd AnalyticsService \<Rightarrow> time \<Rightarrow> int \<Rightarrow> 'd \<Rightarrow> (int \<times> go_error option) \<times> 'd" where
  "CleanupOldLogs lib s now retentionDays d =
     DeleteOldLogs (as_repository s) (AddDate lib now 0 0 (wrap64 (- retentionDays))) d"

section \<open>The handlers\<close>

definition endpoints_json :: "row_map list \<Rightarrow> json" where
  "endpoints_json ms = (if ms = [] then JNull else JList (map row_json ms))"

definition AnalyticsSummary_json :: "AnalyticsSummary \<Rightarrow> json" where
  "AnalyticsSummary_json s =
     JObj [(''total_requests'', JInt (TotalRequests s)),
           (''avg_response_time_ms'', JFloat (AvgResponseTime s)),
           (''p50_response_time_ms'', JInt (P50ResponseTime s)),
           (''p95_response_time_ms'', JInt (P95ResponseTime s)),
           (''p99_response_time_ms'', JInt (P99ResponseTime s)),
           (''error_rate'', JFloat (ErrorRate s)), (''success_rate'', JFloat (SuccessRate s)),
           (''client_error_rate'', JFloat (ClientErrorRate s)),
           (''server_error_rate'', JFloat (ServerErrorRate s)),
           (''top_endpoints'', endpoints_json (TopEndpoints s))]"

definition TimeSeriesData_json :: "TimeSeriesData \<Rightarrow> json" where
  "TimeSeriesData_json x =
     JObj [(''hour'', JTime (Hour_start x)), (''count'', JInt (Count x)),
           (''avg_response_time'', JFloat (ts_AvgResponseTime x))]"

definition RequestLog_json :: "RequestLog \<Rightarrow> json" where
  "RequestLog_json l =
     JObj ([(''id'', JInt (int (log_ID l))), (''timestamp'', JTime (Timestamp l))] @
           (case APIKeyID l of None \<Rightarrow> [] | Some u \<Rightarrow> [(''api_key_id'', JStr u)]) @
           [(''method'', JStr (log_Method l)), (''path'', JStr (log_Path l)),
            (''status_code'', JInt (StatusCode l)),
            (''response_time_ms'', JInt (ResponseTimeMs l)), (''ip_address'', JStr (IPAddress l)),
            (''user_agent'', JStr (UserAgent l))] @
           (if BackendServer l = '''' then [] else [(''backend_server'', JStr (BackendServer l))]))"

text \<open>\<open>strconv.ParseInt(s, 10, 64)\<close> accepts what \<open>Atoi\<close> accepts and names itself in its errors.  A
  \<open>time.Time\<close> counts the seconds since the year 1 in 64 bits.\<close>

definition ParseInt :: "go_library \<Rightarrow> string \<Rightarrow> go_error + int" where
  "ParseInt lib s =
     (case Atoi s of
        (n, None) \<Rightarrow> Inr n
      | (n, Some err) \<Rightarrow> Inl (Errorf (''strconv.ParseInt: parsing '' @ Quote lib s @ '': '') err))"

definition unixToInternal :: int where
  "unixToInternal = 62135596800"

definition Unix_time :: "int \<Rightarrow> time" where
  "Unix_time sec = (wrap64 (sec + unixToInternal) - unixToInternal) * Second"

definition parse_bound :: "go_library \<Rightarrow> string \<Rightarrow> time \<Rightarrow> go_error + time" where
  "parse_bound lib str unset =
     (if str = '''' then Inr unset
      else case Parse_RFC3339 lib str of
             Inr t \<Rightarrow> Inr t
           | Inl _ \<Rightarrow>
               (case ParseInt lib str of Inr timestamp \<Rightarrow> Inr (Unix_time timestamp) | Inl err \<Rightarrow> Inl err))"

definition parseTimeRange :: "go_library \<Rightarrow> time \<Rightarrow> gin_ctx \<Rightarrow> go_error + (time \<times> time)" where
  "parseTimeRange lib now c =
     (case parse_bound lib (ctx_Query ''from'' c) (now - 24 * Hour) of
        Inl err \<Rightarrow> Inl err
      | Inr from \<Rightarrow>
          (case parse_bound lib (ctx_Query ''to'' c) now of
             Inl err \<Rightarrow> Inl err
           | Inr to \<Rightarrow> Inr (from, to)))"

definition AnalyticsHandler_GetSummary ::
    "framework \<Rightarrow> go_library \<Rightarrow> 'd AnalyticsService \<Rightarrow> time \<Rightarrow> 'd handler" where
  "AnalyticsHandler_GetSummary fw lib s now d c =
     (case parseTimeRange lib now c of
        Inl err \<Rightarrow> respond 400 (error_body (Error fw err)) d c
      | Inr (from, to) \<Rightarrow>
          (case AnalyticsService_GetSummary s from to d of
             (Inl err, d) \<Rightarrow> respond 500 (error_body (Error fw err)) d c
           | (Inr summary, d) \<Rightarrow> respond 200 (AnalyticsSummary_json summary) d c))"

definition GetTimeSeries ::
    "framework \<Rightarrow> go_library \<Rightarrow> 'd AnalyticsService \<Rightarrow> time \<Rightarrow> 'd handler" where
  "GetTimeSeries fw lib s now d c =
     (case parseTimeRange lib now c of
        Inl err \<Rightarrow> respond 400 (error_body (Error fw err)) d c
      | Inr (from, to) \<Rightarrow>
          (case GetTimeSeriesData s from to d of
             (Inl p, d) \<Rightarrow> Panicked p d c
           | (Inr (Inl err), d) \<Rightarrow> respond 500 (error_body (Error fw err)) d c
           | (Inr (Inr timeSeriesData), d) \<Rightarrow>
               respond 200 (JList (map TimeSeriesData_json timeSeriesData)) d c))"

definition AnalyticsHandler_GetAPIKeyStats ::
    "framework \<Rightarrow> go_library \<Rightarrow> (string \<Rightarrow> go_error + uuid) \<Rightarrow> 'd AnalyticsService \<Rightarrow> time \<Rightarrow> 'd handler" where
  "AnalyticsHandler_GetAPIKeyStats fw lib uuid_parse s now d c =
     (case uuid_parse (ctx_Param ''id'' c) of
        Inl _ \<Rightarrow> respond 400 (error_body ''Invalid API key ID'') d c
      | Inr apiKeyID \<Rightarrow>
          (case parseTimeRange lib now c of
             Inl err \<Rightarrow> respond 400 (error_body (Error fw err)) d c
           | Inr (from, to) \<Rightarrow>
               (case AnalyticsService_GetAPIKeyStats s apiKeyID from to d of
                  (Inl err, d) \<Rightarrow> respond 500 (error_body (Error fw err)) d c
                | (Inr stats, d) \<Rightarrow> respond 200 (AnalyticsSummary_json stats) d c)))"

text \<open>The query parameters of \<open>GetLogs\<close>; a value that is absent, not a number or out of range
  leaves the default.\<close>

definition log_limit :: "gin_ctx \<Rightarrow> int" where
  "log_limit c =
     (let limitStr = ctx_Query ''limit'' c in
      if limitStr = '''' then 100
      else case Atoi limitStr of
             (l, None) \<Rightarrow> if 0 < l \<and> l \<le> 1000 then l else 100
           | (l, Some err) \<Rightarrow> 100)"

definition log_offset :: "gin_ctx \<Rightarrow> int" where
  "log_offset c =
     (let offsetStr = ctx_Query ''offset'' c in
      if offsetStr = '''' then 0
      else case Atoi offsetStr of (k, None) \<Rightarrow> if 0 \<le> k then k else 0 | (k, Some err) \<Rightarrow> 0)"

definition log_status :: "gin_ctx \<Rightarrow> int option" where
  "log_status c =
     (let statusStr = ctx_Query ''status'' c in
      if statusStr = '''' then None
      else case Atoi statusStr of (s, None) \<Rightarrow> Some s | (s, Some err) \<Rightarrow> None)"

definition logs_json :: "RequestLog list \<Rightarrow> json" where
  "logs_json logs = (if logs = [] then JNull else JList (map RequestLog_json logs))"

definition AnalyticsHandler_GetLogs ::
    "framework \<Rightarrow> go_library \<Rightarrow> 'd AnalyticsService \<Rightarrow> time \<Rightarrow> 'd handler" where
  "AnalyticsHandler_GetLogs fw lib s now d c =
     (case parseTimeRange lib now c of
        Inl err \<Rightarrow> respond 400 (error_body (Error fw err)) d c
      | Inr (from, to) \<Rightarrow>
          (let limit = log_limit c; offset = log_offset c in
           case AnalyticsService_GetLogs s from to (log_status c) limit offset d of
             (Inl err, d) \<Rightarrow> respond 500 (error_body (Error fw err)) d c
           | (Inr logs, d) \<Rightarrow>
               respond 200
                 (JObj [(''limit'', JInt limit), (''logs'', logs_json logs),
                        (''offset'', JInt offset)]) d c))"

section \<open>Rates\<close>

lemma rate_bounds:
  assumes "0 \<le> n" "n \<le> requests"
  shows "0 \<le> rate n requests" "rate n requests \<le> 100"
proof -
  let ?q = "float_of_int n / float_of_int requests"
  have le: "0 \<le> float_of_int n" "float_of_int n \<le> float_of_int requests"
    using assms by (simp_all add: float_of_int_def ieee.nonneg ieee.mono)
  then have "0 \<le> ?q" "?q \<le> of_int 1"
    by (auto simp: divide_le_eq_1)
  then have "0 \<le> fl ?q" "fl ?q \<le> 1"
    using ieee.le_int [of 1 ?q] by (simp_all add: ieee.nonneg)
  then show "0 \<le> rate n requests" "rate n requests \<le> 100"
    using ieee.le_int [of 100 "fl ?q * 100"] by (simp_all add: rate_def ieee.nonneg)
qed

text \<open>Two roundings: the rate is the percentage up to \<open>2 ^ (-45)\<close>.\<close>

definition percentage :: "int \<Rightarrow> int \<Rightarrow> rat" where
  "percentage n requests = of_int n / of_int requests * 100"

lemma rate_accurate:
  assumes "0 \<le> n" "n \<le> requests" "0 < requests" "requests \<le> 2 ^ 53"
  shows "\<bar>rate n requests - percentage n requests\<bar> \<le> 1 / 2 ^ 45"
proof -
  define q :: rat where "q = of_int n / of_int requests"
  have q: "0 \<le> q" "q \<le> 1" using assms by (simp_all add: q_def divide_le_eq_1)
  have eq: "rate n requests = fl (fl q * 100)"
    using assms by (simp add: rate_def q_def float_of_int_def ieee.exact)
  have one: "\<bar>fl q - q\<bar> \<le> 1 / 2 ^ 53"
    using fl_error [of q] q by simp
  have "0 \<le> fl q" "fl q \<le> 1"
    using q ieee.le_int [of 1 q] by (simp_all add: ieee.nonneg)
  then have two: "\<bar>fl (fl q * 100) - fl q * 100\<bar> \<le> 100 / 2 ^ 53"
    using fl_error [of "fl q * 100"] by (simp add: abs_if split: if_splits)
  have "\<bar>rate n requests - percentage n requests\<bar> \<le>
      \<bar>fl (fl q * 100) - fl q * 100\<bar> + \<bar>(fl q - q) * 100\<bar>"
    unfolding eq percentage_def q_def [symmetric] by (simp add: algebra_simps abs_if)
  also have "\<dots> \<le> 100 / 2 ^ 53 + 100 / 2 ^ 53"
    using one two by (simp only: abs_mult abs_numeral) simp
  finally show ?thesis by simp
qed

section \<open>The table behind the queries\<close>

text \<open>What the service relies on: the operations of the mapper conform, and the further queries
  leave the table as it is.\<close>

definition log_conforms :: "'d log_gorm \<Rightarrow> ('d \<Rightarrow> RequestLog list) \<Rightarrow> bool" where
  "log_conforms g rows \<longleftrightarrow>
     gorm_conforms request_logs (gorm.truncate g) rows \<and>
     (\<forall>sel q d. rows (snd (g_Scan_float g sel q d)) = rows d) \<and>
     (\<forall>sel p from to d. rows (snd (g_Raw_Scan_int g sel p from to d)) = rows d) \<and>
     (\<forall>sel grp q d. rows (snd (g_Rows_paths g sel grp q d)) = rows d) \<and>
     (\<forall>sel grp q d. rows (snd (g_Rows_hours g sel grp q d)) = rows d)"

definition logged_between :: "time \<Rightarrow> time \<Rightarrow> RequestLog \<Rightarrow> bool" where
  "logged_between from to l \<longleftrightarrow> from \<le> Timestamp l \<and> Timestamp l \<le> to"

lemma truncate_simps [simp]:
  "g_Find (gorm.truncate g) = g_Find g" "g_Count (gorm.truncate g) = g_Count g"
  "g_Delete (gorm.truncate g) = g_Delete g" "g_Create (gorm.truncate g) = g_Create g"
  by (simp_all add: gorm.truncate_def)

lemma holds_log [simp]:
  "holds (request_logs_column l) (in_range from to) \<longleftrightarrow> logged_between from to l"
  "holds (request_logs_column l) (Equals ''api_key_id'' (SText u)) \<longleftrightarrow> APIKeyID l = Some u"
  "holds (request_logs_column l) (Equals ''status_code'' (SInt k)) \<longleftrightarrow> StatusCode l = k"
  "holds (request_logs_column l) (Between ''status_code'' (SInt a) (SInt b)) \<longleftrightarrow>
     a \<le> StatusCode l \<and> StatusCode l \<le> b"
  "holds (request_logs_column l) (Less_than ''timestamp'' (STime t)) \<longleftrightarrow> Timestamp l < t"
  by (auto simp: in_range_def logged_between_def request_logs_column_def null_text_def
      less_eq_sql_val_def less_sql_val_def split: option.splits)

declare holds.simps [simp del]

lemma log_Count:
  assumes "log_conforms g rows" "g_Count g (Where cs all_rows) d = ((n, err), d')"
    and "list_all (condition_ok [''api_key_id'']) cs"
  shows "rows d' = rows d"
    and "err = None \<Longrightarrow>
      n = int (length (filter (\<lambda>l. list_all (holds (request_logs_column l)) cs) (rows d)))"
  using conforms_Count [of request_logs "gorm.truncate g" rows "Where cs all_rows" d n err d'] assms
  by (auto simp: log_conforms_def query_ok_def query_builders selected_def matches_def [abs_def])

lemma condition_ok_log [simp]:
  "condition_ok [''api_key_id''] (in_range from to)"
  by (simp add: in_range_def)

lemma CountByTimeRange_spec:
  assumes "log_conforms g rows" "CountByTimeRange g from to d = ((n, err), d')"
  shows "rows d' = rows d"
    and "err = None \<Longrightarrow> n = int (length (filter (logged_between from to) (rows d)))"
  using log_Count [OF assms(1), of "[in_range from to]" d n err d'] assms(2)
  by (simp_all add: CountByTimeRange_def)

lemma CountByStatusCodeRange_spec:
  assumes "log_conforms g rows" "CountByStatusCodeRange g a b from to d = ((n, err), d')"
  shows "rows d' = rows d"
    and "err = None \<Longrightarrow>
      n = int (length (filter (\<lambda>l. a \<le> StatusCode l \<and> StatusCode l \<le> b)
                 (filter (logged_between from to) (rows d))))"
  using log_Count [OF assms(1),
      of "[Between ''status_code'' (SInt a) (SInt b), in_range from to]" d n err d'] assms(2)
  by (simp_all add: CountByStatusCodeRange_def conj_ac)

lemma query_reads:
  assumes "log_conforms g rows"
  shows "GetAverageResponseTime g from to d = (x, d') \<Longrightarrow> rows d' = rows d"
    and "GetPercentile g from to p d = (y, d') \<Longrightarrow> rows d' = rows d"
    and "GetTopEndpoints g from to k d = (z, d') \<Longrightarrow> rows d' = rows d"
  using assms
  by (auto simp: log_conforms_def GetAverageResponseTime_def GetPercentile_def GetTopEndpoints_def
      split: prod.splits sum.splits dest: spec) (metis snd_conv)+

section \<open>The summary of a time range\<close>

lemma set_rates_simps [simp]:
  "TotalRequests (set_rates a b s) = TotalRequests s"
  "AvgResponseTime (set_rates a b s) = AvgResponseTime s"
  "ErrorRate (set_rates a b s) = rate (wrap64 (a + b)) (TotalRequests s)"
  "SuccessRate (set_rates a b s) = fl (100 - rate (wrap64 (a + b)) (TotalRequests s))"
  "ClientErrorRate (set_rates a b s) = rate a (TotalRequests s)"
  "ServerErrorRate (set_rates a b s) = rate b (TotalRequests s)"
  by (simp_all add: set_rates_def Let_def)

text \<open>The number of entries with a status code in a class.\<close>

definition errors_in :: "(int \<Rightarrow> bool) \<Rightarrow> RequestLog list \<Rightarrow> int" where
  "errors_in P ls = int (length (filter (\<lambda>l. P (StatusCode l)) ls))"

lemma errors_in_bounds:
  "0 \<le> errors_in P ls" "errors_in P ls \<le> int (length ls)"
  "errors_in is_client_error ls + errors_in is_server_error ls \<le> int (length ls)"
proof -
  show "0 \<le> errors_in P ls" "errors_in P ls \<le> int (length ls)"
    by (simp_all add: errors_in_def)
  show "errors_in is_client_error ls + errors_in is_server_error ls \<le> int (length ls)"
    by (induction ls) (auto simp: errors_in_def is_client_error_def is_server_error_def)
qed

definition has_rates :: "AnalyticsSummary \<Rightarrow> RequestLog list \<Rightarrow> bool" where
  "has_rates s ls \<longleftrightarrow>
     (let requests = int (length ls); clientErrors = errors_in is_client_error ls;
          serverErrors = errors_in is_server_error ls
      in ErrorRate s = rate (clientErrors + serverErrors) requests \<and>
         SuccessRate s = fl (100 - ErrorRate s) \<and>
         ClientErrorRate s = rate clientErrors requests \<and>
         ServerErrorRate s = rate serverErrors requests)"

lemma has_rates_set_rates:
  assumes "int (length ls) \<le> 2 ^ 53" "TotalRequests s = int (length ls)"
  shows "has_rates (set_rates (errors_in is_client_error ls) (errors_in is_server_error ls) s) ls"
proof -
  have "int64 (errors_in is_client_error ls + errors_in is_server_error ls)"
    using errors_in_bounds(1) [of is_client_error ls] errors_in_bounds(1) [of is_server_error ls]
      errors_in_bounds(3) [of ls] assms(1)
    by (simp add: int64_def)
  then show ?thesis using assms(2) by (simp add: has_rates_def Let_def)
qed

lemma has_rates_topEndpoints [simp]: "has_rates (s\<lparr>TopEndpoints := t\<rparr>) ls = has_rates s ls"
  by (simp add: has_rates_def Let_def)

lemma has_rates_bounds:
  assumes "has_rates s ls"
  shows "0 \<le> ErrorRate s \<and> ErrorRate s \<le> 100" "0 \<le> SuccessRate s \<and> SuccessRate s \<le> 100"
    "0 \<le> ClientErrorRate s \<and> ClientErrorRate s \<le> 100"
    "0 \<le> ServerErrorRate s \<and> ServerErrorRate s \<le> 100"
proof -
  show e: "0 \<le> ErrorRate s \<and> ErrorRate s \<le> 100" and "0 \<le> ClientErrorRate s \<and> ClientErrorRate s \<le> 100"
    and "0 \<le> ServerErrorRate s \<and> ServerErrorRate s \<le> 100"
    using assms errors_in_bounds [where ls = ls]
    by (simp_all add: has_rates_def Let_def rate_bounds)
  show "0 \<le> SuccessRate s \<and> SuccessRate s \<le> 100"
    using assms e ieee.le_int [of 100 "100 - ErrorRate s"]
    by (simp add: has_rates_def Let_def ieee.nonneg)
qed

lemma GetSummary_spec:
  assumes conf: "log_conforms g rows"
    and run: "AnalyticsService_GetSummary \<lparr>as_repository = g\<rparr> from to d = (Inr s, d')"
    and small: "int (length (rows d)) \<le> 2 ^ 53"
  defines "ls \<equiv> filter (logged_between from to) (rows d)"
  shows "rows d' = rows d" and "TotalRequests s = int (length ls)"
    and "ls \<noteq> [] \<Longrightarrow> has_rates s ls" and "ls = [] \<Longrightarrow> s = AnalyticsSummary_zero"
proof -
  obtain n e1 d1 where c1: "CountByTimeRange g from to d = ((n, e1), d1)" by (metis surj_pair)
  then have e1: "e1 = None" using run by (auto simp: AnalyticsService_GetSummary_def split: option.splits)
  have n: "rows d1 = rows d" "n = int (length ls)"
    using CountByTimeRange_spec [OF conf c1] e1 by (simp_all add: ls_def)
  have "rows d' = rows d \<and> TotalRequests s = int (length ls) \<and> 
      (ls \<noteq> [] \<longrightarrow> has_rates s ls) \<and> (ls = [] \<longrightarrow> s = AnalyticsSummary_zero)"
  proof (cases "ls = []")
    case True
    then show ?thesis
      using run c1 n e1 by (auto simp: AnalyticsService_GetSummary_def AnalyticsSummary_zero_def)
  next
    case False
    obtain avg e2 d2 where c2: "GetAverageResponseTime g from to d1 = ((avg, e2), d2)" by (metis surj_pair)
    obtain p50 f1 d3 where c3: "GetPercentile g from to (fl (50 / 100)) d2 = ((p50, f1), d3)" by (metis surj_pair)
    obtain p95 f2 d4 where c4: "GetPercentile g from to (fl (95 / 100)) d3 = ((p95, f2), d4)" by (metis surj_pair)
    obtain p99 f3 d5 where c5: "GetPercentile g from to (fl (99 / 100)) d4 = ((p99, f3), d5)" by (metis surj_pair)
    obtain a e3 d6 where c6: "CountByStatusCodeRange g 400 499 from to d5 = ((a, e3), d6)" by (metis surj_pair)
    obtain b e4 d7 where c7: "CountByStatusCodeRange g 500 599 from to d6 = ((b, e4), d7)" by (metis surj_pair)
    obtain top d8 where c8: "GetTopEndpoints g from to 10 d7 = (top, d8)" by fastforce
    note calls = c1 c2 c3 c4 c5 c6 c7 c8
    have ok: "e2 = None" "e3 = None" "e4 = None" and "d8 = d'"
      and s: "\<exists>t. s = (set_rates a b (AnalyticsSummary_zero\<lparr>TotalRequests := n,
                 AvgResponseTime := avg, P50ResponseTime := p50, P95ResponseTime := p95,
                 P99ResponseTime := p99\<rparr>))\<lparr>TopEndpoints := t\<rparr>"
      using run False n e1
      by (auto simp: AnalyticsService_GetSummary_def calls [simplified]
          split: option.splits sum.splits)
    have same: "rows d5 = rows d" "rows d6 = rows d" "rows d7 = rows d" "rows d8 = rows d"
      using query_reads [OF conf] calls CountByStatusCodeRange_spec(1) [OF conf] n(1) by metis+
    have "a = errors_in is_client_error ls" "b = errors_in is_server_error ls"
      using CountByStatusCodeRange_spec(2) [OF conf c6 ok(2)]
        CountByStatusCodeRange_spec(2) [OF conf c7 ok(3)] same
      by (simp_all add: errors_in_def is_client_error_def is_server_error_def ls_def)
    moreover have "int (length ls) \<le> 2 ^ 53"
      using small length_filter_le [of "logged_between from to" "rows d"] unfolding ls_def by linarith
    ultimately show ?thesis using False s n same \<open>d8 = d'\<close> by (auto intro!: has_rates_set_rates)
  qed
  then show "rows d' = rows d" and "TotalRequests s = int (length ls)"
    and "ls \<noteq> [] \<Longrightarrow> has_rates s ls" and "ls = [] \<Longrightarrow> s = AnalyticsSummary_zero"
    by blast+
qed


text \<open>A table in memory that also computes the aggregates; its percentiles are those by nearest rank.\<close>

definition mem_average :: "RequestLog list \<Rightarrow> rat" where
  "mem_average ls = fl (of_int (sum_list (map ResponseTimeMs ls)) / of_int (int (length ls)))"

definition mem_percentile :: "rat \<Rightarrow> RequestLog list \<Rightarrow> int" where
  "mem_percentile p ls = sort (map ResponseTimeMs ls) ! nat \<lfloor>p * of_int (int (length ls))\<rfloor>"

definition mem_log_gorm :: "time \<Rightarrow> RequestLog list log_gorm" where
  "mem_log_gorm now =
     gorm.extend (mem_gorm request_logs now)
       (log_gorm.fields
          (\<lambda>sel q rows. ((mem_average (selected request_logs q rows), None), rows))
          (\<lambda>sel p from to rows. ((mem_percentile p (filter (logged_between from to) rows), None), rows))
          (\<lambda>sel grp q rows.
             let paths = map log_Path (selected request_logs q rows)
             in (Inr \<lparr>cur_rows = map (\<lambda>x. Inr (x, int (count_list paths x))) (remdups paths), cur_Err = None\<rparr>, rows))
          (\<lambda>sel grp q rows.
             let hours = map (\<lambda>l. Timestamp l div Hour * Hour) (selected request_logs q rows)
             in (Inr \<lparr>cur_rows = map (\<lambda>x. Inr (x, int (count_list hours x),
                         mem_average (filter (\<lambda>l. Timestamp l div Hour * Hour = x) (selected request_logs q rows))))
                       (remdups hours), cur_Err = None\<rparr>, rows)))"

lemma mem_log_gorm_truncate [simp]: "gorm.truncate (mem_log_gorm now) = mem_gorm request_logs now"
  by (simp add: mem_log_gorm_def gorm.truncate_def gorm.extend_def mem_gorm_def)

lemma mem_log_gorm_sel [simp]:
  "g_Find (mem_log_gorm now) = g_Find (mem_gorm request_logs now)"
  "g_Count (mem_log_gorm now) = g_Count (mem_gorm request_logs now)"
  by (simp_all flip: mem_log_gorm_truncate)

lemma mem_log_conforms: "log_conforms (mem_log_gorm now) id"
  by (simp add: log_conforms_def mem_gorm_conforms)
     (simp add: mem_log_gorm_def gorm.extend_def log_gorm.fields_def Let_def)

definition demo_log :: "time \<Rightarrow> int \<Rightarrow> RequestLog" where
  "demo_log t code =
     \<lparr>log_ID = 0, Timestamp = t, APIKeyID = Some uuid_Nil, log_Method = ''GET'', log_Path = ''/a'',
      StatusCode = code, ResponseTimeMs = 3, IPAddress = ''10.0.0.1'', UserAgent = '''', BackendServer = ''''\<rparr>"

abbreviation demo_logs :: "RequestLog list" where
  "demo_logs \<equiv> [demo_log 1 200, demo_log 2 404, demo_log 3 200, demo_log 9 500]"

lemma scan_rows_Inr [simp]: "scan_rows entry (map (\<lambda>x. Inr (f x)) xs) = Inr (map (\<lambda>x. entry (f x)) xs)"
  by (induction xs) auto


section \<open>Time series\<close>

lemma scan_rows_entries: "scan_rows entry rs = Inr ms \<Longrightarrow> \<exists>xs. ms = map entry xs \<and> rs = map Inr xs"
proof (induction entry rs arbitrary: ms rule: scan_rows.induct)
  case (3 entry x rest)
  then obtain ms' where ms': "scan_rows entry rest = Inr ms'" "ms = entry x # ms'"
    by (auto split: sum.splits)
  then show ?case using 3(1) [OF ms'(1)] by (metis list.simps(9))
qed auto

text \<open>C38: The type assertions of the time series never fail: the service gives an error of the
  database or one point for each row the cursor delivered, with the values that were scanned.  The
  error that may have ended the iteration does not change the answer.\<close>

theorem time_series_well_typed:
  "\<exists>r d'. GetTimeSeriesData s from to d = (Inr r, d') \<and>
     ((\<exists>err. r = Inl err) \<or>
      (\<exists>xs. r = Inr (map (\<lambda>(hour, n, avg). \<lparr>Hour_start = hour, Count = n, ts_AvgResponseTime = avg\<rparr>) xs) \<and>
         (\<exists>sel q cur. fst (g_Rows_hours (as_repository s) sel ''hour'' q d) = Inr cur \<and>
            cur_rows cur = map Inr xs)))"
proof -
  have series: "time_series (map (\<lambda>(hour, n, avg). [(''hour'', ITime hour), (''count'', IInt64 n),
        (''avg_response_time'', IFloat64 avg)]) xs) =
      Inr (map (\<lambda>(hour, n, avg). \<lparr>Hour_start = hour, Count = n, ts_AvgResponseTime = avg\<rparr>) xs)" for xs
    by (induction xs) (auto simp: time_series_entry_def)
  show ?thesis
    unfolding GetTimeSeriesData_def GetHourlyStatus_def
    by (auto split: prod.splits sum.splits dest!: scan_rows_entries simp: series)
      (metis fst_conv)+
qed

section \<open>Pages of the log\<close>

lemma answers_set: "answers M q rows xs \<Longrightarrow> set xs \<subseteq> set (selected M q rows)"
proof -
  assume "answers M q rows xs"
  then obtain ys where "mset ys = mset (selected M q rows)" "xs = page q ys" by (auto simp: answers_def)
  moreover have "set (page q ys) \<subseteq> set ys"
    by (auto simp: page_def Let_def split: option.splits dest: in_set_takeD in_set_dropD)
  ultimately show ?thesis by (metis mset_eq_setD)
qed

lemma answers_length:
  assumes "answers M q rows xs" "q_Limit q = Some n"
  shows "length xs = min (length (selected M q rows) - nat (q_Offset q)) (nat n)"
proof -
  obtain ys where "mset ys = mset (selected M q rows)" "xs = page q ys"
    using assms(1) by (auto simp: answers_def)
  then show ?thesis
    using assms(2) by (simp add: page_def Let_def) (metis mset_eq_length)
qed

lemma answers_whole:
  assumes "answers M q rows xs" "q_Limit q = Some n" "q_Offset q = 0"
    and "length (selected M q rows) \<le> nat n"
  shows "mset xs = mset (selected M q rows)"
proof -
  obtain ys where "mset ys = mset (selected M q rows)" "xs = page q ys"
    using assms(1) by (auto simp: answers_def)
  then show ?thesis
    using assms by (simp add: page_def Let_def) (metis mset_eq_length take_all)
qed

lemma log_Find:
  assumes "log_conforms g rows" "g_Find g q d = ((xs, err), d')" "query_ok request_logs q"
  shows "rows d' = rows d" and "err = None \<Longrightarrow> answers request_logs q (rows d) xs"
  using conforms_Find [of request_logs "gorm.truncate g" rows q d xs err d'] assms
  by (simp_all add: log_conforms_def)

lemma log_limit_bounds: "1 \<le> log_limit c" "log_limit c \<le> 1000"
  by (auto simp: log_limit_def Let_def split: prod.splits option.splits)

lemma log_offset_nonneg: "0 \<le> log_offset c"
  by (auto simp: log_offset_def Let_def split: prod.splits option.splits)

definition asked_for :: "time \<Rightarrow> time \<Rightarrow> int option \<Rightarrow> RequestLog \<Rightarrow> bool" where
  "asked_for from to status l \<longleftrightarrow>
     logged_between from to l \<and> (case status of None \<Rightarrow> True | Some code \<Rightarrow> StatusCode l = code)"

lemma GetLogs_page:
  assumes conf: "log_conforms g rows" and page: "0 < limit" "0 \<le> offset"
    and run: "AnalyticsService_GetLogs (NewAnalyticsService g) from to status limit offset d = (r, d')"
  shows "rows d' = rows d"
    and "r = Inr logs \<Longrightarrow>
      set logs \<subseteq> {l \<in> set (rows d). asked_for from to status l} \<and>
      length logs = min (length (filter (asked_for from to status) (rows d)) - nat offset) (nat limit)"
proof -
  define q where "q = (case status of
      None \<Rightarrow> Offset offset (Limit limit (Order ''timestamp'' DESC (Where [in_range from to] all_rows)))
    | Some code \<Rightarrow> Offset offset (Limit limit
        (Where [Equals ''status_code'' (SInt code), in_range from to] all_rows)))"
  obtain xs err d1 where find: "g_Find g q d = ((xs, err), d1)" by (metis surj_pair)
  have ok: "query_ok request_logs q" "q_Limit q = Some limit" "q_Offset q = offset"
    using page by (auto simp: q_def query_ok_def query_builders split: option.splits)
  have sel: "selected request_logs q ls = filter (asked_for from to status) ls" for ls
    by (auto simp: q_def selected_def matches_def query_builders asked_for_def intro!: filter_cong
        split: option.splits)
  have r: "d' = d1" "r = (case err of None \<Rightarrow> Inr xs | Some e \<Rightarrow> Inl e)"
    using run find
    by (auto simp: AnalyticsService_GetLogs_def NewAnalyticsService_def FindByStatusCode_def
        FindByTimeRange_def q_def split: option.splits)
  then show "rows d' = rows d" using log_Find(1) [OF conf find ok(1)] by simp
  assume "r = Inr logs"
  then have "answers request_logs q (rows d) logs"
    using r log_Find(2) [OF conf find ok(1)] by (simp split: option.splits)
  then show "set logs \<subseteq> {l \<in> set (rows d). asked_for from to status l} \<and>
      length logs = min (length (filter (asked_for from to status) (rows d)) - nat offset) (nat limit)"
    using answers_set answers_length ok by (fastforce simp: sel)
qed

text \<open>C32: A request for the log is answered with a page of between 0 and 1000 entries, however the
  query is written: the entries of the table in the time range, and with the status code if one is
  given; the page is full whenever there are enough of them after the offset.  Errors are answered
  as such, the handler does not panic, and the table is left as it is.\<close>

theorem log_pages:
  assumes "log_conforms g rows"
  shows "\<exists>d' code body.
    AnalyticsHandler_GetLogs fw lib (NewAnalyticsService g) now d c =
      Returned d' (call (JSON code body) c) \<and>
    rows d' = rows d \<and> code \<in> {200, 400, 500} \<and>
    (code = 200 \<longrightarrow> (\<exists>from to logs limit offset.
       parseTimeRange lib now c = Inr (from, to) \<and>
       body = JObj [(''limit'', JInt limit), (''logs'', logs_json logs), (''offset'', JInt offset)] \<and>
       1 \<le> limit \<and> limit \<le> 1000 \<and> 0 \<le> offset \<and>
       set logs \<subseteq> {l \<in> set (rows d). asked_for from to (log_status c) l} \<and>
       length logs = min (length (filter (asked_for from to (log_status c)) (rows d)) - nat offset) (nat limit)))"
proof (cases "parseTimeRange lib now c")
  case (Inl err)
  then show ?thesis
    by (intro exI [of _ d] exI [of _ 400] exI [of _ "error_body (Error fw err)"])
      (simp add: AnalyticsHandler_GetLogs_def respond_def)
next
  case (Inr range)
  obtain t1 t2 where range: "range = (t1, t2)" by fastforce
  obtain r d' where run: "AnalyticsService_GetLogs (NewAnalyticsService g) t1 t2 (log_status c)
      (log_limit c) (log_offset c) d = (r, d')" by fastforce
  note page = GetLogs_page [OF assms _ log_offset_nonneg run]
  have pos: "0 < log_limit c" using log_limit_bounds(1) [of c] by simp
  show ?thesis
  proof (cases r)
    case (Inl err)
    then show ?thesis
      using page(1) [OF pos]
      by (intro exI [of _ d'] exI [of _ 500] exI [of _ "error_body (Error fw err)"])
        (simp add: AnalyticsHandler_GetLogs_def respond_def \<open>parseTimeRange lib now c = Inr range\<close> range run)
  next
    case (Inr logs)
    then show ?thesis
      using page(1) [OF pos] page(2) [OF pos Inr] log_limit_bounds [of c] log_offset_nonneg [of c]
      by (intro exI [of _ d'] exI [of _ 200] exI [of _ "JObj [(''limit'', JInt (log_limit c)),
            (''logs'', logs_json logs), (''offset'', JInt (log_offset c))]"])
        (auto simp add: AnalyticsHandler_GetLogs_def respond_def \<open>parseTimeRange lib now c = Inr range\<close>
          range run Let_def)
  qed
qed

definition demo_library :: go_library where
  "demo_library =
     \<lparr>AddDate = (\<lambda>t y m n. t + n * 24 * Hour), Parse_RFC3339 = (\<lambda>s. Inl (Sentinel ''parsing time'')),
      Quote = (\<lambda>s. s)\<rparr>"

definition plain_framework :: framework where
  "plain_framework =
     \<lparr>read_json = (\<lambda>s. Inl (Sentinel ''EOF'')), valid_email = (\<lambda>s. True),
      validation_error = (\<lambda>fs. Sentinel ''validation''), library_message = (\<lambda>s. s),
      Writer_Status = (\<lambda>cs. 200)\<rparr>"

definition demo_query :: "(string \<rightharpoonup> string) \<Rightarrow> gin_ctx" where
  "demo_query q =
     \<lparr>Request = \<lparr>Method = ''GET'', URL_Path = ''/admin/logs'', URL_Host = '''', URL_Scheme = '''', Host = ''h'',
        Header = Map.empty\<rparr>, Body = '''',
      ClientIP = ''10.0.0.1'', Query = q, Param = Map.empty, Keys = Map.empty, calls = []\<rparr>"

theorem log_pages_witness:
  "\<exists>code body. AnalyticsHandler_GetLogs plain_framework demo_library (NewAnalyticsService (mem_log_gorm 0)) 10
     demo_logs (demo_query [''limit'' \<mapsto> ''5000'']) =
       Returned demo_logs (call (JSON code body) (demo_query [''limit'' \<mapsto> ''5000''])) \<and> code \<in> {200, 400, 500}"
proof -
  let ?c = "demo_query [''limit'' \<mapsto> ''5000'']"
  obtain d' code body where
    "AnalyticsHandler_GetLogs plain_framework demo_library (NewAnalyticsService (mem_log_gorm 0)) 10 demo_logs ?c =
      Returned d' (call (JSON code body) ?c)" "id d' = id demo_logs" "code \<in> {200, 400, 500}"
    using log_pages [OF mem_log_conforms [of 0], of plain_framework demo_library 10 demo_logs ?c] by blast
  then show ?thesis by (intro exI [of _ code] exI [of _ body]) (simp only: id_apply)
qed

section \<open>The statistics of a key\<close>

text \<open>Response times below \<open>2 ^ 49\<close> milliseconds: the sum over ten thousand entries fits.\<close>

definition plausible :: "RequestLog \<Rightarrow> bool" where
  "plausible l \<longleftrightarrow> \<bar>ResponseTimeMs l\<bar> < 2 ^ 49"

lemma tally_exact:
  assumes "list_all plausible ls" "\<bar>t\<bar> \<le> int n * 2 ^ 49"
    and "0 \<le> a" "a \<le> int n" "0 \<le> b" "b \<le> int n" "n + length ls \<le> 10000"
  shows "tally_logs ls t a b =
    (t + sum_list (map ResponseTimeMs ls), a + errors_in is_client_error ls, b + errors_in is_server_error ls)"
  using assms
proof (induction ls arbitrary: t a b n)
  case Nil
  then show ?case by (simp add: errors_in_def)
next
  case (Cons l ls)
  have wrap: "wrap64 (a + 1) = a + 1" "wrap64 (b + 1) = b + 1"
    using Cons.prems by (simp_all add: int64_def)
  have t: "\<bar>t + ResponseTimeMs l\<bar> \<le> int (Suc n) * 2 ^ 49"
    using Cons.prems(1,2) abs_triangle_ineq [of t "ResponseTimeMs l"]
    by (simp add: plausible_def distrib_right)
  also have "\<dots> \<le> 10000 * 2 ^ 49"
    using Cons.prems(7) by (intro mult_right_mono) simp_all
  finally have "int64 (t + ResponseTimeMs l)"
    by (auto simp: int64_def abs_le_iff)
  moreover have "tally_logs ls (t + ResponseTimeMs l) a' b' =
      (t + ResponseTimeMs l + sum_list (map ResponseTimeMs ls), a' + errors_in is_client_error ls,
       b' + errors_in is_server_error ls)"
    if "0 \<le> a'" "a' \<le> int (Suc n)" "0 \<le> b'" "b' \<le> int (Suc n)" for a' b'
    using Cons.prems(1,7) that t by (intro Cons.IH [where n = "Suc n"]) simp_all
  ultimately show ?case
    using Cons.prems(3-6) by (simp add: wrap errors_in_def)
qed

lemma tally_mset:
  assumes "mset ls = mset ms"
  shows "sum_list (map ResponseTimeMs ls) = sum_list (map ResponseTimeMs ms)" "errors_in P ls = errors_in P ms"
    and "length ls = length ms"
proof -
  show "sum_list (map ResponseTimeMs ls) = sum_list (map ResponseTimeMs ms)"
    using assms by (metis mset_map sum_mset_sum_list)
  show "errors_in P ls = errors_in P ms"
    using assms by (simp add: errors_in_def) (metis mset_filter size_mset)
  show "length ls = length ms" using assms by (rule mset_eq_length)
qed

lemma has_rates_mset: "mset ls = mset ms \<Longrightarrow> has_rates s ls = has_rates s ms"
  by (simp add: has_rates_def tally_mset(2,3) [of ls ms])

definition logged_with :: "uuid \<Rightarrow> time \<Rightarrow> time \<Rightarrow> RequestLog \<Rightarrow> bool" where
  "logged_with u from to l \<longleftrightarrow> APIKeyID l = Some u \<and> logged_between from to l"

lemma FindByAPIKey_spec:
  assumes "log_conforms g rows" "canonical_uuid u" "FindByAPIKey g u from to 10000 0 d = ((logs, err), d')"
  defines "ls \<equiv> filter (logged_with u from to) (rows d)"
  shows "rows d' = rows d" and "err = None \<Longrightarrow> set logs \<subseteq> set (rows d)"
    and "err = None \<Longrightarrow> length logs = min (length ls) 10000"
    and "err = None \<Longrightarrow> length ls \<le> 10000 \<Longrightarrow> mset logs = mset ls"
proof -
  let ?q = "Offset 0 (Limit 10000 (Order ''timestamp'' DESC
      (Where [Equals ''api_key_id'' (SText u), in_range from to] all_rows)))"
  have ok: "query_ok request_logs ?q" "q_Limit ?q = Some 10000" "q_Offset ?q = 0"
    using assms(2) by (auto simp: query_ok_def query_builders)
  have sel: "selected request_logs ?q (rows d) = ls"
    by (auto simp: selected_def matches_def query_builders logged_with_def ls_def intro!: filter_cong)
  have find: "g_Find g ?q d = ((logs, err), d')" using assms(3) by (simp add: FindByAPIKey_def)
  show "rows d' = rows d" by (rule log_Find(1) [OF assms(1) find ok(1)])
  assume "err = None"
  then have ans: "answers request_logs ?q (rows d) logs" by (rule log_Find(2) [OF assms(1) find ok(1)])
  show "set logs \<subseteq> set (rows d)" using answers_set [OF ans] by (auto simp: sel ls_def)
  show "length logs = min (length ls) 10000" using answers_length [OF ans ok(2)] ok(3) by (simp add: sel)
  show "length ls \<le> 10000 \<Longrightarrow> mset logs = mset ls"
    using answers_whole [OF ans ok(2,3)] by (simp add: sel)
qed

text \<open>C31: The statistics of a key are those of the entries that the log has for it in the time range:
  the count is exact up to ten thousand entries, and up to there the average and the rates are
  computed from all of them, in whatever order the database returns them.  With more entries than
  ten thousand only that many are counted.\<close>

theorem key_statistics:
  assumes "log_conforms g rows" "canonical_uuid u" "list_all plausible (rows d)"
    and run: "AnalyticsService_GetAPIKeyStats (NewAnalyticsService g) u from to d = (Inr s, d')"
  defines "ls \<equiv> filter (logged_with u from to) (rows d)"
  shows "rows d' = rows d \<and> TotalRequests s = int (min (length ls) 10000) \<and>
    (ls = [] \<longrightarrow> s = AnalyticsSummary_zero) \<and>
    (ls \<noteq> [] \<and> length ls \<le> 10000 \<longrightarrow> has_rates s ls \<and>
       AvgResponseTime s =
         fl (float_of_int (sum_list (map ResponseTimeMs ls)) / float_of_int (int (length ls))))"
proof -
  obtain logs err d1 where find: "FindByAPIKey g u from to 10000 0 d = ((logs, err), d1)" by (metis surj_pair)
  have err: "err = None" and d1: "d1 = d'"
    using run find
    by (auto simp: AnalyticsService_GetAPIKeyStats_def NewAnalyticsService_def
        Let_def split: option.splits if_splits prod.splits)
  note spec = FindByAPIKey_spec [OF assms(1,2) find, folded ls_def]
  have len: "length logs = min (length ls) 10000" using spec(3) err by simp
  have "list_all plausible logs" using spec(2) err assms(3) by (auto simp: list_all_iff)
  then have tally: "tally_logs logs 0 0 0 = (sum_list (map ResponseTimeMs logs),
      errors_in is_client_error logs, errors_in is_server_error logs)"
    using tally_exact [of logs 0 0 0 0] len by simp
  let ?n = "int (length logs)"
  show ?thesis
  proof (cases "ls = []")
    case True
    then show ?thesis
      using run find err d1 spec(1) len
      by (auto simp: AnalyticsService_GetAPIKeyStats_def NewAnalyticsService_def AnalyticsSummary_zero_def)
  next
    case False
    then have "logs \<noteq> []" using len by (auto simp: min_def split: if_splits)
    then have s: "s = set_rates (errors_in is_client_error logs) (errors_in is_server_error logs)
        (AnalyticsSummary_zero\<lparr>TotalRequests := ?n,
           AvgResponseTime := fl (float_of_int (sum_list (map ResponseTimeMs logs)) / float_of_int ?n)\<rparr>)"
      using run find err tally
      by (auto simp: AnalyticsService_GetAPIKeyStats_def NewAnalyticsService_def Let_def)
    then have "has_rates s logs"
      using len by (auto intro!: has_rates_set_rates)
    then show ?thesis
      using False s spec(1,4) err d1 len tally_mset(1,3) [of logs ls] has_rates_mset [of logs ls s]
      by auto
  qed
qed

theorem key_statistics_witness:
  "\<exists>s. AnalyticsService_GetAPIKeyStats (NewAnalyticsService (mem_log_gorm 0)) uuid_Nil 1 3 demo_logs =
     (Inr s, demo_logs) \<and> TotalRequests s = 3 \<and> AvgResponseTime s = 3"
proof -
  have ls: "logged_with uuid_Nil 1 3 (demo_log t code) \<longleftrightarrow> 1 \<le> t \<and> t \<le> 3" for t code
    by (simp add: logged_with_def logged_between_def demo_log_def)
  have "\<exists>s d'. AnalyticsService_GetAPIKeyStats (NewAnalyticsService (mem_log_gorm 0)) uuid_Nil 1 3 demo_logs =
      (Inr s, d')"
    by (auto simp: AnalyticsService_GetAPIKeyStats_def NewAnalyticsService_def FindByAPIKey_def mem_gorm_def
        Let_def split: prod.splits)
  then obtain s d' where
    run: "AnalyticsService_GetAPIKeyStats (NewAnalyticsService (mem_log_gorm 0)) uuid_Nil 1 3 demo_logs = (Inr s, d')"
    by blast
  have canonical: "canonical_uuid uuid_Nil" by code_simp
  have plausible: "list_all plausible (id demo_logs)" by (simp add: plausible_def demo_log_def)
  have times: "ResponseTimeMs (demo_log t code) = 3" for t code by (simp add: demo_log_def)
  show ?thesis
    using key_statistics [OF mem_log_conforms canonical plausible run] run
    by (auto simp: ls times float_of_int_def fl_numeral)
qed

section \<open>Summaries while requests are logged\<close>

text \<open>The counts of a summary are read one after the other, without a transaction.  Here two failed
  requests are inserted while the average is read: the error rate of the summary is 200 and its
  success rate -100.\<close>

definition busy_gorm :: "RequestLog list log_gorm" where
  "busy_gorm = (mem_log_gorm 0)\<lparr>g_Scan_float := \<lambda>sel q rows. ((3, None), rows @ [demo_log 2 500, demo_log 2 500])\<rparr>"

lemma summary_mixes_snapshots:
  "\<exists>s d'. AnalyticsService_GetSummary (NewAnalyticsService busy_gorm) 1 3 [demo_log 1 200] = (Inr s, d') \<and>
     TotalRequests s = 1 \<and> ErrorRate s = 200 \<and> SuccessRate s = -100"
proof -
  have rate: "rate 2 1 = 200"
    using fl_int [of 1] by (simp add: rate_def float_of_int_def fl_numeral)
  have m: "matches request_logs q (demo_log t code) \<longleftrightarrow> list_all (holds (request_logs_column (demo_log t code))) (q_Where q)" for q t code
    by (simp add: matches_def)
  have "logged_between 1 3 (demo_log t code) \<longleftrightarrow> 1 \<le> t \<and> t \<le> 3" "StatusCode (demo_log t code) = code" for t code
    by (simp_all add: logged_between_def demo_log_def)
  then show ?thesis
    using fl_int [of "-100"]
    by (simp add: AnalyticsService_GetSummary_def NewAnalyticsService_def CountByTimeRange_def
        GetAverageResponseTime_def GetPercentile_def CountByStatusCodeRange_def GetTopEndpoints_def
        busy_gorm_def mem_log_gorm_def gorm.extend_def log_gorm.fields_def mem_gorm_def Let_def
        selected_def m query_builders rate set_rates_def AnalyticsSummary_zero_def int64_def)
qed

end
