(* ===== verification/Postgres.thy ===== *)
theory Postgres
  imports Analytics
begin

text \<open>
  The database wrapper, \<open>src/internal/storage/postgres.go\<close>.  The handle that the mapper opens
  is a record with the operations the gateway uses: the three tables, the connection pool
  underneath, migrations and transactions.  They work on the state \<open>'d\<close> of the server and of
  the pool.
\<close>

section \<open>The library\<close>

record 'd sql_DB =
  sql_PingContext :: "'d \<Rightarrow> go_error option \<times> 'd"
  sql_Close :: "'d \<Rightarrow> go_error option \<times> 'd"
  sql_SetMaxIdleConns :: "int \<Rightarrow> 'd \<Rightarrow> 'd"
  sql_SetMaxOpenConns :: "int \<Rightarrow> 'd \<Rightarrow> 'd"
  sql_SetConnMaxLifetime :: "duration \<Rightarrow> 'd \<Rightarrow> 'd"

record 'd gorm_DB =
  gdb_api_keys :: "('d, APIKey) gorm"
  gdb_users :: "('d, User) gorm"
  gdb_request_logs :: "'d log_gorm"
  gdb_DB :: "'d \<Rightarrow> (go_error + 'd sql_DB) \<times> 'd"
  gdb_AutoMigrate :: "string list \<Rightarrow> 'd \<Rightarrow> go_error option \<times> 'd"
  gdb_Transaction :: "('d \<Rightarrow> go_error option \<times> 'd) \<Rightarrow> 'd \<Rightarrow> go_error option \<times> 'd"

section \<open>The wrapper\<close>

record 'd Postgres =
  pg_DB :: "'d gorm_DB"

text \<open>\<open>connect\<close> is \<open>gorm.Open\<close> with the driver for PostgreSQL.\<close>

definition NewPostgres ::
    "(string \<Rightarrow> 'd \<Rightarrow> (go_error + 'd gorm_DB) \<times> 'd) \<Rightarrow> string \<Rightarrow> 'd \<Rightarrow> (go_error + 'd Postgres) \<times> 'd" where
  "NewPostgres connect dsn d =
     (case connect dsn d of
        (Inl err, d) \<Rightarrow> (Inl (Errorf ''failed to connect to database: '' err), d)
      | (Inr db, d) \<Rightarrow>
          (case gdb_DB db d of
             (Inl err, d) \<Rightarrow> (Inl (Errorf ''failed to get database instance: '' err), d)
           | (Inr sqlDB, d) \<Rightarrow>
               (let d = sql_SetMaxIdleConns sqlDB 10 d;
                    d = sql_SetMaxOpenConns sqlDB 100 d;
                    d = sql_SetConnMaxLifetime sqlDB Hour d
                in (Inr \<lparr>pg_DB = db\<rparr>, d))))"

definition Postgres_Ping :: "'d Postgres \<Rightarrow> 'd \<Rightarrow> go_error option \<times> 'd" where
  "Postgres_Ping p d =
     (case gdb_DB (pg_DB p) d of
        (Inl err, d) \<Rightarrow> (Some err, d)
      | (Inr sqlDB, d) \<Rightarrow> sql_PingContext sqlDB d)"

definition AutoMigrate :: "'d Postgres \<Rightarrow> 'd \<Rightarrow> go_error option \<times> 'd" where
  "AutoMigrate p d =
     gdb_AutoMigrate (pg_DB p)
       [APIKey_TableName, RateLimitTier_TableName, User_TableName, RequestLog_TableName] d"

definition Postgres_Close :: "'d Postgres \<Rightarrow> 'd \<Rightarrow> go_error option \<times> 'd" where
  "Postgres_Close p d =
     (case gdb_DB (pg_DB p) d of
        (Inl err, d) \<Rightarrow> (Some err, d)
      | (Inr sqlDB, d) \<Rightarrow> sql_Close sqlDB d)"

definition Transaction ::
    "'d Postgres \<Rightarrow> ('d \<Rightarrow> go_error option \<times> 'd) \<Rightarrow> 'd \<Rightarrow> go_error option \<times> 'd" where
  "Transaction p fn d = gdb_Transaction (pg_DB p) fn d"

end
