(* ===== verification/Auth.thy ===== *)
theory Auth
  imports Repositories Gin
begin

text \<open>
  Administrators: \<open>src/internal/service/authService.go\<close>, its handlers
  \<open>src/internal/handler/authHandler.go\<close> and the middleware
  \<open>src/internal/middleware/authMiddleware.go\<close>.  The password hash and the token library are
  parameters, with their documented behaviour as the hypotheses \<open>bcrypt_ok\<close>, \<open>jwt_signs\<close> and \<open>jwt_verifies\<close>.

  Shown: who registers can log in, and the token opens the administration routes until it
  expires; nobody passes the middleware without a token that the library has verified with
  the secret and an HMAC method; and a failed login does not tell whether the user exists.
\<close>

section \<open>The libraries\<close>

record bcrypt =
  GenerateFromPassword :: "string \<Rightarrow> string \<Rightarrow> go_error + string"
  CompareHashAndPassword :: "string \<Rightarrow> string \<Rightarrow> go_error option"

text \<open>The first argument of \<open>GenerateFromPassword\<close> is the salt it draws.  A token carries its
  algorithm, whether that is one of the HMAC methods, its claims if they are a \<open>MapClaims\<close>,
  and the validity the parser has established.\<close>

type_synonym claims = "(string \<times> json) list"

record jwt_token =
  tok_alg :: string
  tok_hmac :: bool
  tok_Claims :: "claims option"
  tok_Valid :: bool

text \<open>\<open>SignedString\<close> signs claims with HS256 and a key.  \<open>jwt_Parse\<close> takes the time at which it
  judges the expiry, the text, and the function that gives the key for a token.\<close>

record jwt =
  SignedString :: "claims \<Rightarrow> string \<Rightarrow> go_error + string"
  jwt_Parse :: "time \<Rightarrow> string \<Rightarrow> (jwt_token \<Rightarrow> go_error + string) \<Rightarrow> go_error + jwt_token"

section \<open>The service\<close>

record 'd AuthService =
  auth_repo :: "('d, User) gorm"
  jwtSecret :: string
  jwtExpiry :: duration

definition NewAuthService :: "('d, User) gorm \<Rightarrow> string \<Rightarrow> int \<Rightarrow> 'd AuthService" where
  "NewAuthService repo secret expiryHours =
     \<lparr>auth_repo = repo, jwtSecret = secret, jwtExpiry = wrap64 (expiryHours * Hour)\<rparr>"

definition User_zero :: User where
  "User_zero =
     \<lparr>user_ID = uuid_Nil, Email = '''', PasswordHash = '''', user_Name = '''', Role = '''',
      user_CreatedAt = zero_time\<rparr>"

definition new_user :: "string \<Rightarrow> string \<Rightarrow> string \<Rightarrow> User" where
  "new_user email hashedPassword name =
     User_zero\<lparr>Email := email, PasswordHash := hashedPassword, user_Name := name, Role := ''admin''\<rparr>"

definition Register ::
    "bcrypt \<Rightarrow> 'd AuthService \<Rightarrow> string \<Rightarrow> uuid \<Rightarrow> string \<Rightarrow> string \<Rightarrow> string \<Rightarrow> 'd \<Rightarrow> go_error option \<times> 'd" where
  "Register bc s salt fresh email password name d =
     (case FindByEmail (auth_repo s) email d of
        (Inl err, d) \<Rightarrow> (Some err, d)
      | (Inr (Some existingUser), d) \<Rightarrow> (Some (Errors_New ''user with this email already exists''), d)
      | (Inr None, d) \<Rightarrow>
          (case GenerateFromPassword bc salt password of
             Inl err \<Rightarrow> (Some (Errorf ''failed to hash password: '' err), d)
           | Inr hashedPassword \<Rightarrow>
               AuthRepository_Create (auth_repo s) fresh (new_user email hashedPassword name) d))"

definition token_claims :: "duration \<Rightarrow> clock \<Rightarrow> User \<Rightarrow> claims" where
  "token_claims expiry ts user =
     [(''user_id'', JStr (user_ID user)), (''email'', JStr (Email user)), (''role'', JStr (Role user)),
      (''exp'', JInt (time_Unix (time_Add (ts 0) expiry))), (''iat'', JInt (time_Unix (ts 1)))]"

definition Login ::
    "bcrypt \<Rightarrow> jwt \<Rightarrow> 'd AuthService \<Rightarrow> clock \<Rightarrow> string \<Rightarrow> string \<Rightarrow> 'd \<Rightarrow> (go_error + string) \<times> 'd" where
  "Login bc lib s ts email password d =
     (case FindByEmail (auth_repo s) email d of
        (Inl err, d) \<Rightarrow> (Inl err, d)
      | (Inr None, d) \<Rightarrow> (Inl (Errors_New ''invalid credentials''), d)
      | (Inr (Some user), d) \<Rightarrow>
          if CompareHashAndPassword bc (PasswordHash user) password \<noteq> None
          then (Inl (Errors_New ''invalid credentials''), d)
          else (case SignedString lib (token_claims (jwtExpiry s) ts user) (jwtSecret s) of
                  Inl err \<Rightarrow> (Inl (Errorf ''failed to generate token: '' err), d)
                | Inr tokenString \<Rightarrow> (Inr tokenString, d)))"

definition key_func :: "'d AuthService \<Rightarrow> jwt_token \<Rightarrow> go_error + string" where
  "key_func s token =
     (if \<not> tok_hmac token then Inl (Errors_New (''unexpected signing method: '' @ tok_alg token))
      else Inr (jwtSecret s))"

definition ValidateToken :: "jwt \<Rightarrow> 'd AuthService \<Rightarrow> time \<Rightarrow> string \<Rightarrow> go_error + claims" where
  "ValidateToken lib s t tokenString =
     (case jwt_Parse lib t tokenString (key_func s) of
        Inl err \<Rightarrow> Inl err
      | Inr token \<Rightarrow>
          if \<not> tok_Valid token then Inl (Errors_New ''invalid token'')
          else (case tok_Claims token of
                  None \<Rightarrow> Inl (Errors_New ''invalid token claims'')
                | Some claims \<Rightarrow> Inr claims))"

definition GetUserByID :: "'d AuthService \<Rightarrow> string \<Rightarrow> 'd \<Rightarrow> (go_error + User option) \<times> 'd" where
  "GetUserByID s userID d = FindById (auth_repo s) userID d"

section \<open>The handlers\<close>

record RegisterRequest =
  reg_Email :: string
  reg_Password :: string
  reg_Name :: string

definition RegisterRequest_decoder :: "RegisterRequest decoder" where
  "RegisterRequest_decoder = decode_struct
     [(''email'', decode_field reg_Email reg_Email_update decode_string),
      (''password'', decode_field reg_Password reg_Password_update decode_string),
      (''name'', decode_field reg_Name reg_Name_update decode_string)]"

definition RegisterRequest_tags :: "framework \<Rightarrow> RegisterRequest binding_tags" where
  "RegisterRequest_tags fw =
     [(''Email'', [required_tag reg_Email, email_tag fw reg_Email]),
      (''Password'', [required_tag reg_Password, min_tag 8 reg_Password]),
      (''Name'', [required_tag reg_Name])]"

definition AuthHandler_Register ::
    "framework \<Rightarrow> bcrypt \<Rightarrow> 'd AuthService \<Rightarrow> string \<Rightarrow> uuid \<Rightarrow> 'd handler" where
  "AuthHandler_Register fw bc s salt fresh d c =
     (case ShouldBindJSON fw RegisterRequest_decoder (RegisterRequest_tags fw)
             \<lparr>reg_Email = '''', reg_Password = '''', reg_Name = ''''\<rparr> c of
        Inl err \<Rightarrow> respond 400 (error_body (Error fw err)) d c
      | Inr req \<Rightarrow>
          (case Register bc s salt fresh (reg_Email req) (reg_Password req) (reg_Name req) d of
             (Some err, d) \<Rightarrow> respond 400 (error_body (Error fw err)) d c
           | (None, d) \<Rightarrow>
               respond 201 (JObj [(''message'', JStr ''User registered successfully'')]) d c))"

record LoginRequest =
  login_Email :: string
  login_Password :: string

definition LoginRequest_decoder :: "LoginRequest decoder" where
  "LoginRequest_decoder = decode_struct
     [(''email'', decode_field login_Email login_Email_update decode_string),
      (''password'', decode_field login_Password login_Password_update decode_string)]"

definition LoginRequest_tags :: "framework \<Rightarrow> LoginRequest binding_tags" where
  "LoginRequest_tags fw =
     [(''Email'', [required_tag login_Email, email_tag fw login_Email]),
      (''Password'', [required_tag login_Password])]"

definition AuthHandler_Login ::
    "framework \<Rightarrow> bcrypt \<Rightarrow> jwt \<Rightarrow> 'd AuthService \<Rightarrow> clock \<Rightarrow> 'd handler" where
  "AuthHandler_Login fw bc lib s ts d c =
     (case ShouldBindJSON fw LoginRequest_decoder (LoginRequest_tags fw)
             \<lparr>login_Email = '''', login_Password = ''''\<rparr> c of
        Inl err \<Rightarrow> respond 400 (error_body (Error fw err)) d c
      | Inr req \<Rightarrow>
          (case Login bc lib s ts (login_Email req) (login_Password req) d of
             (Inl err, d) \<Rightarrow> respond 401 (error_body (Error fw err)) d c
           | (Inr token, d) \<Rightarrow>
               respond 200 (JObj [(''token'', JStr token), (''type'', JStr ''Bearer'')]) d c))"

text \<open>A user as JSON: the field without a tag goes by its Go name.\<close>

definition User_json :: "User \<Rightarrow> json" where
  "User_json u =
     JObj [(''id'', JStr (user_ID u)), (''email'', JStr (Email u)), (''PasswordHash'', JStr (PasswordHash u)),
           (''name'', JStr (user_Name u)), (''role'', JStr (Role u)), (''created_at'', JTime (user_CreatedAt u))]"

text \<open>The assertion that the identifier is a string panics when it is not.\<close>

definition AuthHandler_Me :: "framework \<Rightarrow> 'd AuthService \<Rightarrow> 'd handler" where
  "AuthHandler_Me fw s d c =
     (case Keys c ''user_id'' of
        None \<Rightarrow> respond 401 (error_body ''Unauthorized'') d c
      | Some (VString userID) \<Rightarrow>
          (case GetUserByID s userID d of
             (Inl err, d) \<Rightarrow> respond 500 (error_body (Error fw err)) d c
           | (Inr None, d) \<Rightarrow> respond 404 (error_body ''User not found'') d c
           | (Inr (Some user), d) \<Rightarrow> respond 200 (User_json user) d c)
      | Some _ \<Rightarrow> Panicked InterfaceConversion d c)"

section \<open>The middleware\<close>

text \<open>A claim as a value of the context: a claim that is missing is nil.\<close>

definition claim_value :: "claims \<Rightarrow> string \<Rightarrow> ctx_value" where
  "claim_value claims name =
     (case map_of claims name of
        None \<Rightarrow> VJson JNull
      | Some (JStr s) \<Rightarrow> VString s
      | Some j \<Rightarrow> VJson j)"

definition RequireAuth :: "jwt \<Rightarrow> 'd AuthService \<Rightarrow> time \<Rightarrow> 'w middleware" where
  "RequireAuth lib s t nxt w c =
     (let authHeader = Header_Get ''Authorization'' (Request c)
      in if authHeader = '''' then reject 401 (error_body ''Authorization header required'') w c
         else let parts = Split_space authHeader
         in if length parts \<noteq> 2 \<or> parts ! 0 \<noteq> ''Bearer''
            then reject 401 (error_body ''Invalid authorized header format. Use: Bearer <token>'') w c
            else case ValidateToken lib s t (parts ! 1) of
                   Inl err \<Rightarrow> reject 401 (error_body ''Invalid or expired token'') w c
                 | Inr claims \<Rightarrow>
                     (let c1 = ctx_Set ''user_id'' (claim_value claims ''user_id'') c;
                          c2 = ctx_Set ''email'' (claim_value claims ''email'') c1;
                          c3 = ctx_Set ''role'' (claim_value claims ''role'') c2
                      in nxt w c3))"

section \<open>What the service relies on\<close>

definition bcrypt_ok :: "bcrypt \<Rightarrow> bool" where
  "bcrypt_ok bc \<longleftrightarrow>
     (\<forall>salt password h. GenerateFromPassword bc salt password = Inr h \<longrightarrow>
        CompareHashAndPassword bc h password = None)"

text \<open>A signed token has no spaces, and parses, with the key it was signed with and before it
  expires, to a valid token with the same text claims.\<close>

definition jwt_signs :: "jwt \<Rightarrow> bool" where
  "jwt_signs lib \<longleftrightarrow>
     (\<forall>cl key txt. SignedString lib cl key = Inr txt \<longrightarrow>
        CHR '' '' \<notin> set txt \<and>
        (\<exists>tok cl'. tok_hmac tok \<and> tok_Valid tok \<and> tok_Claims tok = Some cl' \<and>
           (\<forall>name v. map_of cl name = Some (JStr v) \<and> ascii v \<longrightarrow> map_of cl' name = Some (JStr v)) \<and>
           (\<forall>t kf e. map_of cl ''exp'' = Some (JInt e) \<and> \<bar>e\<bar> < 2 ^ 53 \<and> t < e * Second \<and> kf tok = Inr key \<longrightarrow>
              jwt_Parse lib t txt kf = Inr tok)))"

text \<open>A token that parses was given a key, and its signature verifies with it.\<close>

definition jwt_verifies :: "jwt \<Rightarrow> (string \<Rightarrow> string \<Rightarrow> jwt_token \<Rightarrow> bool) \<Rightarrow> bool" where
  "jwt_verifies lib verified \<longleftrightarrow>
     (\<forall>t txt kf tok. jwt_Parse lib t txt kf = Inr tok \<longrightarrow>
        (\<exists>key. kf tok = Inr key \<and> verified txt key tok))"

definition users_answer :: "'d AuthService \<Rightarrow> bool" where
  "users_answer s \<longleftrightarrow>
     (\<forall>q d e. fst (g_First (auth_repo s) q d) = Inl e \<longrightarrow> e = ErrRecordNotFound)"

section \<open>Results\<close>

lemma FindByEmail_spec:
  assumes "gorm_conforms users g rows" "FindByEmail g m d = (res, d')"
  shows "rows d' = rows d"
    and "res = Inr None \<Longrightarrow> u \<in> set (rows d) \<Longrightarrow> Email u \<noteq> m"
    and "res = Inr (Some u) \<Longrightarrow> u \<in> set (rows d) \<and> Email u = m"
proof -
  note facts = First_or_nil [OF assms(1) assms(2) [unfolded FindByEmail_def]]
  have col: "users_column u ''email'' = SText (Email u)" for u by (simp add: users_column_def)
  show "rows d' = rows d" using facts(1) by simp
  show "res = Inr None \<Longrightarrow> u \<in> set (rows d) \<Longrightarrow> Email u \<noteq> m"
    using facts(2) by (auto simp: selected_def filter_empty_conv col)
  show "res = Inr (Some u) \<Longrightarrow> u \<in> set (rows d) \<and> Email u = m"
    using facts(3) [of u] by (auto simp: selected_def col)
qed

lemma FindByEmail_answers:
  "users_answer s \<Longrightarrow> FindByEmail (auth_repo s) m d = (res, d') \<Longrightarrow> \<exists>u. res = Inr u"
  by (auto simp: FindByEmail_def not_found_nil_cases users_answer_def split: sum.splits)

lemma ValidateToken_Inr:
  assumes "jwt_verifies lib verified" "ValidateToken lib s t txt = Inr cl"
  obtains tok where "verified txt (jwtSecret s) tok" "tok_hmac tok" "tok_Valid tok" "tok_Claims tok = Some cl"
    and "jwt_Parse lib t txt (key_func s) = Inr tok"
proof -
  obtain tok where tok: "jwt_Parse lib t txt (key_func s) = Inr tok" "tok_Valid tok" "tok_Claims tok = Some cl"
    using assms(2) by (auto simp: ValidateToken_def split: sum.splits if_splits option.splits)
  moreover from this(1) obtain key where "key_func s tok = Inr key" "verified txt key tok"
    using assms(1) unfolding jwt_verifies_def by blast
  ultimately show ?thesis
    using that by (auto simp: key_func_def split: if_splits)
qed

text \<open>The header that the middleware accepts.\<close>

lemma bearer_parts:
  "length (Split_space h) = 2 \<and> Split_space h ! 0 = w \<longleftrightarrow>
     (\<exists>txt. Split_space h = [w, txt] \<and> h = w @ '' '' @ txt \<and> CHR '' '' \<notin> set txt)"
proof
  assume "length (Split_space h) = 2 \<and> Split_space h ! 0 = w"
  then obtain tk where parts: "Split_space h = [w, tk]"
    by (auto simp: numeral_2_eq_2 length_Suc_conv)
  moreover from this have "h = w @ '' '' @ tk" using Join_Split [of h] by simp
  moreover have "CHR '' '' \<notin> set tk" using Split_space_parts [of tk h] parts by simp
  ultimately show "\<exists>txt. Split_space h = [w, txt] \<and> h = w @ '' '' @ txt \<and> CHR '' '' \<notin> set txt" by blast
qed auto

definition identified :: "claims \<Rightarrow> gin_ctx \<Rightarrow> gin_ctx" where
  "identified cl c =
     c\<lparr>Keys := (Keys c)(''user_id'' \<mapsto> claim_value cl ''user_id'', ''email'' \<mapsto> claim_value cl ''email'',
                        ''role'' \<mapsto> claim_value cl ''role'')\<rparr>"


lemma Register_rows:
  assumes "gorm_conforms users (auth_repo s) rows" "distinct_keys users (rows d)"
    and "Register bc s salt fresh m pw name d = (None, d')"
  obtains h u where "GenerateFromPassword bc salt pw = Inr h" "u \<in> set (rows d')"
    and "user_ID u = fresh" "Email u = m" "PasswordHash u = h" "Role u = ''admin''"
    and "distinct_keys users (rows d')"
proof -
  obtain d1 h where find: "FindByEmail (auth_repo s) m d = (Inr None, d1)"
      and gen: "GenerateFromPassword bc salt pw = Inr h"
      and create: "g_Create (auth_repo s) (User_BeforeCreate fresh) [new_user m h name] d1 = (None, d')"
    using assms(3)
    by (auto simp: Register_def AuthRepository_Create_def split: prod.splits sum.splits option.splits)
  have rows1: "rows d1 = rows d" by (rule FindByEmail_spec(1) [OF assms(1) find])
  obtain now ids where ids: "length ids = length [new_user m h name]"
      and "distinct_keys users (rows d1) \<longrightarrow> distinct_keys users (rows d')"
      and "rows d' = rows d1 @ inserted users now ids (User_BeforeCreate fresh) [new_user m h name]"
    by (rule conforms_Create [OF assms(1) create]) (auto simp: executed_def)
  moreover obtain j where "ids = [j]" using ids by (cases ids) auto
  ultimately have "distinct_keys users (rows d')"
      "users_filled now j (User_BeforeCreate fresh (new_user m h name)) \<in> set (rows d')"
    using assms(2) rows1 by (simp_all add: inserted_def)
  with gen show ?thesis
    by (intro that [of h "users_filled now j (User_BeforeCreate fresh (new_user m h name))"])
       (simp_all add: users_filled_def User_BeforeCreate_def new_user_def User_zero_def)
qed

lemma distinct_emails:
  "distinct_keys users rows \<Longrightarrow> a \<in> set rows \<Longrightarrow> b \<in> set rows \<Longrightarrow> Email a = Email b \<Longrightarrow> a = b"
  by (auto simp: distinct_keys_def users_def users_column_def distinct_map inj_on_def)

lemma signed_token_passes:
  assumes "jwt_signs lib" "SignedString lib (token_claims (jwtExpiry s) ts u) (jwtSecret s) = Inr tk"
    and "ascii (user_ID u)" "ascii (Email u)" "ascii (Role u)"
    and "t < time_Unix (time_Add (ts 0) (jwtExpiry s)) * Second" "\<bar>time_Unix (time_Add (ts 0) (jwtExpiry s))\<bar> < 2 ^ 53"
    and "Header_Get ''Authorization'' (Request c) = ''Bearer '' @ tk"
  shows "RequireAuth lib s t nxt w c =
           nxt w (c\<lparr>Keys := (Keys c)(''user_id'' \<mapsto> VString (user_ID u), ''email'' \<mapsto> VString (Email u),
                                   ''role'' \<mapsto> VString (Role u))\<rparr>)"
proof -
  let ?cl = "token_claims (jwtExpiry s) ts u"
  obtain tok cl' where tok: "tok_hmac tok" "tok_Valid tok" "tok_Claims tok = Some cl'" "CHR '' '' \<notin> set tk"
      and same: "\<And>name v. map_of ?cl name = Some (JStr v) \<Longrightarrow> ascii v \<Longrightarrow> map_of cl' name = Some (JStr v)"
      and parse: "\<And>t kf e. map_of ?cl ''exp'' = Some (JInt e) \<Longrightarrow> \<bar>e\<bar> < 2 ^ 53 \<Longrightarrow> t < e * Second \<Longrightarrow>
        kf tok = Inr (jwtSecret s) \<Longrightarrow> jwt_Parse lib t tk kf = Inr tok"
    using assms(1) [unfolded jwt_signs_def, rule_format, OF assms(2)] by blast
  have "jwt_Parse lib t tk (key_func s) = Inr tok"
    using assms(6, 7) tok(1) by (intro parse) (simp_all add: token_claims_def key_func_def)
  then have v: "ValidateToken lib s t tk = Inr cl'"
    using tok by (simp add: ValidateToken_def)
  have "Split_space (''Bearer '' @ tk) = [''Bearer'', tk]"
    using tok(4) Split_space_append [of "''Bearer''" tk] by (simp add: Split_space_word)
  moreover have "claim_value cl' ''user_id'' = VString (user_ID u)" "claim_value cl' ''email'' = VString (Email u)"
      "claim_value cl' ''role'' = VString (Role u)"
    using same [of "''user_id''"] same [of "''email''"] same [of "''role''"] assms(3-5)
    by (simp_all add: claim_value_def token_claims_def)
  ultimately show ?thesis
    using v assms(8) by (simp add: RequireAuth_def Let_def ctx_Set_def)
qed

text \<open>C17: Who has registered can log in with the same password, and until the token expires it
  takes every request with it through the middleware, as the registered administrator.\<close>

theorem registered_admin_gets_in:
  assumes "gorm_conforms users (auth_repo s) rows" "distinct_keys users (rows d)" "users_answer s"
    and "bcrypt_ok bc" "jwt_signs lib" "\<forall>cl key. \<exists>tk. SignedString lib cl key = Inr tk"
    and "ascii fresh" "ascii m"
    and "Register bc s salt fresh m pw name d = (None, d1)"
    and "Login bc lib s ts m pw d1 = (res, d2)"
  shows "\<exists>tk. res = Inr tk \<and>
           (\<forall>t nxt w c. t < time_Unix (time_Add (ts 0) (jwtExpiry s)) * Second \<longrightarrow>
              \<bar>time_Unix (time_Add (ts 0) (jwtExpiry s))\<bar> < 2 ^ 53 \<longrightarrow>
              Header_Get ''Authorization'' (Request c) = ''Bearer '' @ tk \<longrightarrow>
              RequireAuth lib s t nxt w c =
                nxt w (c\<lparr>Keys := (Keys c)(''user_id'' \<mapsto> VString fresh, ''email'' \<mapsto> VString m,
                                        ''role'' \<mapsto> VString ''admin'')\<rparr>))"
proof -
  obtain h u where u: "GenerateFromPassword bc salt pw = Inr h" "u \<in> set (rows d1)"
      "user_ID u = fresh" "Email u = m" "PasswordHash u = h" "Role u = ''admin''"
      and dist: "distinct_keys users (rows d1)"
    by (rule Register_rows [OF assms(1, 2, 9)])
  obtain o' d' where find: "FindByEmail (auth_repo s) m d1 = (Inr o', d')"
    using FindByEmail_answers [OF assms(3)] by (metis surj_pair)
  note facts = FindByEmail_spec [OF assms(1) find]
  have found: "o' = Some u"
    using facts(2) [of u] facts(3) u(2, 4) distinct_emails [OF dist] by (cases o') auto
  obtain tk where tk: "SignedString lib (token_claims (jwtExpiry s) ts u) (jwtSecret s) = Inr tk"
    using assms(6) by blast
  have "CompareHashAndPassword bc h pw = None" using assms(4) u(1) by (simp add: bcrypt_ok_def)
  then have "res = Inr tk"
    using assms(10) find found tk u(5) by (simp add: Login_def)
  moreover have "ascii ''admin''" by (simp add: ascii_def)
  ultimately show ?thesis
    using signed_token_passes [OF assms(5) tk] assms(7, 8) u by auto
qed

text \<open>A failed login does not tell whether the user exists: whatever the address, a wrong
  password and an unknown address get the same answer.\<close>

theorem login_failures_look_alike:
  assumes "gorm_conforms users (auth_repo s) rows" "users_answer s"
    and "ShouldBindJSON fw LoginRequest_decoder (LoginRequest_tags fw)
           \<lparr>login_Email = '''', login_Password = ''''\<rparr> c = Inr req"
    and "\<forall>u \<in> set (rows d). Email u = login_Email req \<longrightarrow>
           CompareHashAndPassword bc (PasswordHash u) (login_Password req) \<noteq> None"
  shows "\<exists>d'. AuthHandler_Login fw bc lib s ts d c =
           Returned d' (call (JSON 401 (error_body ''invalid credentials'')) c) \<and> rows d' = rows d"
proof -
  obtain o' d' where find: "FindByEmail (auth_repo s) (login_Email req) d = (Inr o', d')"
    using FindByEmail_answers [OF assms(2)] by (metis surj_pair)
  note facts = FindByEmail_spec [OF assms(1) find]
  have "Login bc lib s ts (login_Email req) (login_Password req) d =
      (Inl (Errors_New ''invalid credentials''), d')"
    using find facts(3) assms(4) by (cases o') (auto simp: Login_def)
  then show ?thesis
    using assms(3) facts(1) by (simp add: AuthHandler_Login_def respond_def)
qed

section \<open>Instances\<close>

text \<open>A password hash that is the password, and tokens numbered by their claims and key.\<close>

definition demo_bcrypt :: bcrypt where
  "demo_bcrypt =
     \<lparr>GenerateFromPassword = (\<lambda>salt password. Inr password),
      CompareHashAndPassword = (\<lambda>h password.
        if h = password then None else Some (Sentinel ''bcrypt: hashedPassword is not the hash''))\<rparr>"

definition demo_signed :: "claims \<Rightarrow> string \<Rightarrow> string" where
  "demo_signed cl key = decimal (to_nat (cl, key))"

definition demo_token :: "claims \<Rightarrow> jwt_token" where
  "demo_token cl = \<lparr>tok_alg = ''HS256'', tok_hmac = True, tok_Claims = Some cl, tok_Valid = True\<rparr>"

definition demo_jwt_parse :: "time \<Rightarrow> string \<Rightarrow> (jwt_token \<Rightarrow> go_error + string) \<Rightarrow> go_error + jwt_token" where
  "demo_jwt_parse t txt kf =
     (let (cl, key) = from_nat (number txt); tok = demo_token cl
      in case kf tok of
           Inl err \<Rightarrow> Inl err
         | Inr k \<Rightarrow>
             if txt = demo_signed cl key \<and> k = key \<and>
                (case map_of cl ''exp'' of Some (JInt e) \<Rightarrow> t < e * Second | _ \<Rightarrow> True)
             then Inr tok else Inl (Sentinel ''token is invalid''))"

definition demo_jwt :: jwt where
  "demo_jwt = \<lparr>SignedString = (\<lambda>cl key. Inr (demo_signed cl key)), jwt_Parse = demo_jwt_parse\<rparr>"

definition demo_auth :: "User list AuthService" where
  "demo_auth = NewAuthService (mem_gorm users 0) ''s3cret'' 24"

definition demo_verified :: "string \<Rightarrow> string \<Rightarrow> jwt_token \<Rightarrow> bool" where
  "demo_verified txt key tok \<longleftrightarrow> (\<exists>cl. tok = demo_token cl \<and> txt = demo_signed cl key)"

lemma demo_signed_no_space: "CHR '' '' \<notin> set (demo_signed cl key)"
  using decimal_digits [of "to_nat (cl, key)"] not_digit_sign(3)
  by (auto simp: demo_signed_def list_all_iff)

lemma demo_jwt_signs: "jwt_signs demo_jwt"
  unfolding jwt_signs_def
proof (intro allI impI conjI, goal_cases)
  case (1 cl key tk)
  then show ?case using demo_signed_no_space by (auto simp: demo_jwt_def)
next
  case (2 cl key tk)
  then show ?case
    by (intro exI [of _ "demo_token cl"] exI [of _ cl])
       (auto simp: demo_jwt_def demo_token_def demo_jwt_parse_def demo_signed_def)
qed

lemma demo_jwt_verifies: "jwt_verifies demo_jwt demo_verified"
  by (auto simp: jwt_verifies_def demo_jwt_def demo_jwt_parse_def demo_verified_def Let_def
      split: prod.splits sum.splits if_splits)

lemma demo_users_answer: "users_answer demo_auth"
  by (auto simp: users_answer_def demo_auth_def NewAuthService_def mem_gorm_def split: list.splits)

definition demo_auth_ctx :: "string \<Rightarrow> gin_ctx" where
  "demo_auth_ctx h =
     \<lparr>Request = \<lparr>Method = ''GET'', URL_Path = ''/admin/keys'', URL_Host = '''', URL_Scheme = '''',
        Host = ''h'', Header = [''Authorization'' \<mapsto> h]\<rparr>, Body = '''', ClientIP = '''',
      Query = Map.empty, Param = Map.empty, Keys = Map.empty, calls = []\<rparr>"

lemma demo_auth_header: "Header_Get ''Authorization'' (Request (demo_auth_ctx h)) = h"
  by (simp add: Header_Get_def demo_auth_ctx_def)


lemma demo_Register:
  "\<exists>rows. Register demo_bcrypt demo_auth ''salt'' ''u1'' ''a@b.c'' ''password'' ''A'' [] = (None, rows)"
  by (simp add: Register_def FindByEmail_def not_found_nil_def demo_auth_def NewAuthService_def mem_gorm_def
      selected_def demo_bcrypt_def AuthRepository_Create_def inserted_def distinct_keys_def users_def)

theorem registered_admin_gets_in_witness:
  "\<exists>tk. fst (Login demo_bcrypt demo_jwt demo_auth (\<lambda>i. 0) ''a@b.c'' ''password''
           (snd (Register demo_bcrypt demo_auth ''salt'' ''u1'' ''a@b.c'' ''password'' ''A'' []))) = Inr tk \<and>
     RequireAuth demo_jwt demo_auth (23 * Hour) Returned () (demo_auth_ctx (''Bearer '' @ tk)) =
       Returned () ((demo_auth_ctx (''Bearer '' @ tk))\<lparr>Keys := [''user_id'' \<mapsto> VString ''u1'',
         ''email'' \<mapsto> VString ''a@b.c'', ''role'' \<mapsto> VString ''admin'']\<rparr>)"
proof -
  obtain rows where reg: "Register demo_bcrypt demo_auth ''salt'' ''u1'' ''a@b.c'' ''password'' ''A'' [] = (None, rows)"
    using demo_Register by blast
  let ?l = "Login demo_bcrypt demo_jwt demo_auth (\<lambda>i. 0) ''a@b.c'' ''password'' rows"
  have conf: "gorm_conforms users (auth_repo demo_auth) id"
    by (simp add: demo_auth_def NewAuthService_def mem_gorm_conforms)
  have login: "?l = (fst ?l, snd ?l)" by simp
  have expiry: "time_Unix (time_Add 0 (jwtExpiry demo_auth)) = 86400"
    by (simp add: demo_auth_def NewAuthService_def time_Add_def time_Unix_def int64_def)
  have "\<exists>tk. fst ?l = Inr tk \<and>
      (\<forall>t nxt (w :: unit) c. t < time_Unix (time_Add ((\<lambda>i. 0) (0 :: nat)) (jwtExpiry demo_auth)) * Second \<longrightarrow>
         \<bar>time_Unix (time_Add ((\<lambda>i. 0) (0 :: nat)) (jwtExpiry demo_auth))\<bar> < 2 ^ 53 \<longrightarrow>
         Header_Get ''Authorization'' (Request c) = ''Bearer '' @ tk \<longrightarrow>
         RequireAuth demo_jwt demo_auth t nxt w c =
           nxt w (c\<lparr>Keys := (Keys c)(''user_id'' \<mapsto> VString ''u1'', ''email'' \<mapsto> VString ''a@b.c'',
                                   ''role'' \<mapsto> VString ''admin'')\<rparr>))"
    by (rule registered_admin_gets_in [OF conf _ demo_users_answer _ demo_jwt_signs _ _ _ reg login])
       (simp_all add: distinct_keys_def users_def bcrypt_ok_def demo_bcrypt_def demo_jwt_def ascii_def)
  then obtain tk where tk: "fst ?l = Inr tk"
      and pass: "\<And>t nxt (w :: unit) c. t < 86400 * Second \<Longrightarrow> \<bar>86400 :: int\<bar> < 2 ^ 53 \<Longrightarrow>
        Header_Get ''Authorization'' (Request c) = ''Bearer '' @ tk \<Longrightarrow>
        RequireAuth demo_jwt demo_auth t nxt w c =
           nxt w (c\<lparr>Keys := (Keys c)(''user_id'' \<mapsto> VString ''u1'', ''email'' \<mapsto> VString ''a@b.c'',
                                   ''role'' \<mapsto> VString ''admin'')\<rparr>)"
    unfolding expiry by blast
  have "RequireAuth demo_jwt demo_auth (23 * Hour) Returned () (demo_auth_ctx (''Bearer '' @ tk)) =
      Returned () ((demo_auth_ctx (''Bearer '' @ tk))\<lparr>Keys := (Keys (demo_auth_ctx (''Bearer '' @ tk)))
        (''user_id'' \<mapsto> VString ''u1'', ''email'' \<mapsto> VString ''a@b.c'', ''role'' \<mapsto> VString ''admin'')\<rparr>)"
    by (rule pass) (simp_all add: demo_auth_header)
  then show ?thesis
    using tk reg by (intro exI [of _ tk]) (simp add: demo_auth_ctx_def)
qed

definition demo_framework :: "json \<Rightarrow> framework" where
  "demo_framework j =
     \<lparr>read_json = (\<lambda>txt. Inr j), valid_email = (\<lambda>m. True), validation_error = (\<lambda>f. Sentinel ''validation''),
      library_message = id, Writer_Status = (\<lambda>cs. 200)\<rparr>"

theorem login_failures_look_alike_witness:
  "\<exists>d'. AuthHandler_Login (demo_framework (JObj [(''email'', JStr ''x@y.z''), (''password'', JStr ''p'')]))
     demo_bcrypt demo_jwt demo_auth (\<lambda>i. 0) [] (demo_auth_ctx '''') =
       Returned d' (call (JSON 401 (error_body ''invalid credentials'')) (demo_auth_ctx ''''))"
proof -
  let ?fw = "demo_framework (JObj [(''email'', JStr ''x@y.z''), (''password'', JStr ''p'')])"
  have "ShouldBindJSON ?fw LoginRequest_decoder (LoginRequest_tags ?fw)
      \<lparr>login_Email = '''', login_Password = ''''\<rparr> (demo_auth_ctx '''') =
      Inr \<lparr>login_Email = ''x@y.z'', login_Password = ''p''\<rparr>"
    by (simp add: ShouldBindJSON_def Unmarshal_def demo_framework_def LoginRequest_decoder_def
        decode_struct_def find_field_def decode_field_def decode_string_def LoginRequest_tags_def
        required_tag_def email_tag_def)
  moreover have "gorm_conforms users (auth_repo demo_auth) id"
    by (simp add: demo_auth_def NewAuthService_def mem_gorm_conforms)
  ultimately show ?thesis
    using login_failures_look_alike [OF _ demo_users_answer, of id ?fw "demo_auth_ctx ''''"] by fastforce
qed

end
