(* ===== verification/RedisStore.thy ===== *)
theory RedisStore
  imports Float64 "HOL-Library.AList" "HOL-Library.Char_ord" "HOL-Library.List_Lexorder"
begin

text \<open>
  The Redis wrapper, \<open>src/internal/storage/redis.go\<close>.  The client library and the server are
  not part of the repository: the client is an argument, a record with one operation for
  each method the gateway calls on it, over a state \<open>'r\<close> that comprises the server and the
  network.  The first argument of an operation is the time at which the server executes it.

  What the gateway relies on is \<open>redis_conforms\<close>: seen through a view of the server as a
  database of keys with an optional expiry, a call either has the documented effect and
  reply of its command, or reports an error and has had that effect or none.  \<open>mem_client\<close>
  satisfies it.
\<close>

section \<open>The client\<close>

datatype pipe_cmd =
    ZRemRangeByScore string string string
  | ZCard string

record 'r redis_client =
  c_Ping :: "time \<Rightarrow> 'r \<Rightarrow> (go_error + unit) \<times> 'r"
  c_Get :: "time \<Rightarrow> string \<Rightarrow> 'r \<Rightarrow> (go_error + string) \<times> 'r"
  c_Set :: "time \<Rightarrow> string \<Rightarrow> string \<Rightarrow> duration \<Rightarrow> 'r \<Rightarrow> (go_error + unit) \<times> 'r"
  c_Incr :: "time \<Rightarrow> string \<Rightarrow> 'r \<Rightarrow> (go_error + int) \<times> 'r"
  c_Expire :: "time \<Rightarrow> string \<Rightarrow> duration \<Rightarrow> 'r \<Rightarrow> (go_error + unit) \<times> 'r"
  c_Exec :: "time \<Rightarrow> pipe_cmd list \<Rightarrow> 'r \<Rightarrow> (go_error + int list) \<times> 'r"
  c_ZAdd :: "time \<Rightarrow> string \<Rightarrow> (rat \<times> string) list \<Rightarrow> 'r \<Rightarrow> (go_error + unit) \<times> 'r"
  c_ZCount :: "time \<Rightarrow> string \<Rightarrow> string \<Rightarrow> string \<Rightarrow> 'r \<Rightarrow> (go_error + int) \<times> 'r"
  c_ZRange :: "time \<Rightarrow> string \<Rightarrow> int \<Rightarrow> int \<Rightarrow> 'r \<Rightarrow> (go_error + string list) \<times> 'r"
  c_Close :: "'r \<Rightarrow> (go_error + unit) \<times> 'r"

definition redis_Nil :: go_error where
  "redis_Nil = Sentinel ''redis: nil''"

section \<open>The wrapper\<close>

text \<open>\<open>NewRedis\<close>: \<open>dial\<close> is \<open>redis.NewClient\<close>, which gives a client and does not connect.\<close>

definition NewRedis ::
    "(string \<Rightarrow> string \<Rightarrow> int \<Rightarrow> 'r redis_client) \<Rightarrow> time \<Rightarrow> string \<Rightarrow> string \<Rightarrow> int \<Rightarrow> 'r \<Rightarrow>
     (go_error + 'r redis_client) \<times> 'r" where
  "NewRedis dial t addr password db r =
     (let client = dial addr password db
      in case c_Ping client t r of
           (Inl err, r) \<Rightarrow> (Inl (Errorf ''failed to connect to Redis: '' err), r)
         | (Inr _, r) \<Rightarrow> (Inr client, r))"

definition Redis_Ping :: "'r redis_client \<Rightarrow> time \<Rightarrow> 'r \<Rightarrow> (go_error + unit) \<times> 'r" where
  "Redis_Ping client t r = c_Ping client t r"

definition Redis_Get :: "'r redis_client \<Rightarrow> time \<Rightarrow> string \<Rightarrow> 'r \<Rightarrow> (go_error + string) \<times> 'r" where
  "Redis_Get client t key r = c_Get client t key r"

definition Redis_Set ::
    "'r redis_client \<Rightarrow> time \<Rightarrow> string \<Rightarrow> string \<Rightarrow> duration \<Rightarrow> 'r \<Rightarrow> (go_error + unit) \<times> 'r" where
  "Redis_Set client t key value expiration r = c_Set client t key value expiration r"

definition Redis_Incr :: "'r redis_client \<Rightarrow> time \<Rightarrow> string \<Rightarrow> 'r \<Rightarrow> (go_error + int) \<times> 'r" where
  "Redis_Incr client t key r = c_Incr client t key r"

definition Redis_Expire ::
    "'r redis_client \<Rightarrow> time \<Rightarrow> string \<Rightarrow> duration \<Rightarrow> 'r \<Rightarrow> (go_error + unit) \<times> 'r" where
  "Redis_Expire client t key expiration r = c_Expire client t key expiration r"

text \<open>\<open>Pipeline()\<close> collects commands locally; \<open>Exec\<close> sends them.\<close>

definition Redis_Pipeline :: "'r redis_client \<Rightarrow> pipe_cmd list" where
  "Redis_Pipeline client = []"

definition Redis_Exec ::
    "'r redis_client \<Rightarrow> time \<Rightarrow> pipe_cmd list \<Rightarrow> 'r \<Rightarrow> (go_error + int list) \<times> 'r" where
  "Redis_Exec client t pipe r = c_Exec client t pipe r"

definition Redis_ZAdd ::
    "'r redis_client \<Rightarrow> time \<Rightarrow> string \<Rightarrow> (rat \<times> string) list \<Rightarrow> 'r \<Rightarrow>
     (go_error + unit) \<times> 'r" where
  "Redis_ZAdd client t key members r = c_ZAdd client t key members r"

definition Redis_ZCount ::
    "'r redis_client \<Rightarrow> time \<Rightarrow> string \<Rightarrow> string \<Rightarrow> string \<Rightarrow> 'r \<Rightarrow> (go_error + int) \<times> 'r" where
  "Redis_ZCount client t key lo hi r = c_ZCount client t key lo hi r"

definition Redis_ZRange ::
    "'r redis_client \<Rightarrow> time \<Rightarrow> string \<Rightarrow> int \<Rightarrow> int \<Rightarrow> 'r \<Rightarrow> (go_error + string list) \<times> 'r" where
  "Redis_ZRange client t key start stop r = c_ZRange client t key start stop r"

definition Redis_Close :: "'r redis_client \<Rightarrow> 'r \<Rightarrow> (go_error + unit) \<times> 'r" where
  "Redis_Close client r = c_Close client r"

lemmas redis_wrapper = Redis_Ping_def Redis_Get_def Redis_Set_def Redis_Incr_def Redis_Expire_def
  Redis_Exec_def Redis_ZAdd_def Redis_ZCount_def Redis_ZRange_def Redis_Close_def

section \<open>The documented commands\<close>

text \<open>A sorted set is a list of members with scores, without repeated members.\<close>

type_synonym zset = "(string \<times> rat) list"

datatype rvalue = RStr string | RZset zset

record rentry =
  rval :: rvalue
  expires :: "time option"

type_synonym rdb = "string \<rightharpoonup> rentry"

definition alive :: "time \<Rightarrow> rentry \<Rightarrow> bool" where
  "alive t e = (case expires e of None \<Rightarrow> True | Some x \<Rightarrow> t < x)"

definition live :: "time \<Rightarrow> rdb \<Rightarrow> string \<Rightarrow> rentry option" where
  "live t db k = (case db k of None \<Rightarrow> None | Some e \<Rightarrow> if alive t e then Some e else None)"

definition WRONGTYPE :: go_error where
  "WRONGTYPE = Sentinel ''WRONGTYPE''"

definition db_get :: "time \<Rightarrow> string \<Rightarrow> rdb \<Rightarrow> (go_error + string) \<times> rdb" where
  "db_get t k db =
     (case live t db k of
        None \<Rightarrow> (Inl redis_Nil, db)
      | Some e \<Rightarrow> (case rval e of RStr s \<Rightarrow> (Inr s, db) | RZset z \<Rightarrow> (Inl WRONGTYPE, db)))"

lemma db_get_same [simp]: "snd (db_get t k db) = db"
  by (simp add: db_get_def split: option.splits rvalue.splits)

text \<open>\<open>ttl t d\<close> is the moment at which a key given the lifetime \<open>d\<close> at time \<open>t\<close> expires; a \<open>SET\<close>
  with the duration 0 gives none.\<close>

definition db_set ::
    "(time \<Rightarrow> duration \<Rightarrow> time) \<Rightarrow> time \<Rightarrow> string \<Rightarrow> string \<Rightarrow> duration \<Rightarrow> rdb \<Rightarrow>
     (go_error + unit) \<times> rdb" where
  "db_set ttl t k v d db =
     (Inr (), db(k \<mapsto> \<lparr>rval = RStr v, expires = (if d = 0 then None else Some (ttl t d))\<rparr>))"

text \<open>\<open>INCR\<close> accepts the decimal representation of a 64-bit integer only and keeps the expiry.\<close>

definition db_incr :: "time \<Rightarrow> string \<Rightarrow> rdb \<Rightarrow> (go_error + int) \<times> rdb" where
  "db_incr t k db =
     (case live t db k of
        None \<Rightarrow> (Inr 1, db(k \<mapsto> \<lparr>rval = RStr (Itoa 1), expires = None\<rparr>))
      | Some e \<Rightarrow>
          (case rval e of
             RZset z \<Rightarrow> (Inl WRONGTYPE, db)
           | RStr s \<Rightarrow>
               (let n = fst (Atoi s)
                in if s = Itoa n \<and> n < max_int64
                   then (Inr (n + 1), db(k \<mapsto> e\<lparr>rval := RStr (Itoa (n + 1))\<rparr>))
                   else (Inl (Sentinel ''ERR''), db))))"

definition db_expire ::
    "(time \<Rightarrow> duration \<Rightarrow> time) \<Rightarrow> time \<Rightarrow> string \<Rightarrow> duration \<Rightarrow> rdb \<Rightarrow> (go_error + unit) \<times> rdb" where
  "db_expire ttl t k d db =
     (case live t db k of
        None \<Rightarrow> (Inr (), db)
      | Some e \<Rightarrow> (Inr (), db(k \<mapsto> e\<lparr>expires := Some (ttl t d)\<rparr>)))"

definition db_zset :: "time \<Rightarrow> rdb \<Rightarrow> string \<Rightarrow> go_error + zset" where
  "db_zset t db k =
     (case live t db k of
        None \<Rightarrow> Inr []
      | Some e \<Rightarrow> (case rval e of RZset z \<Rightarrow> Inr z | RStr s \<Rightarrow> Inl WRONGTYPE))"

text \<open>Storing a sorted set keeps the expiry of a live key; an empty one removes the key.\<close>

definition put_zset :: "time \<Rightarrow> string \<Rightarrow> zset \<Rightarrow> rdb \<Rightarrow> rdb" where
  "put_zset t k z db =
     (if z = [] then db(k := None)
      else db(k \<mapsto> \<lparr>rval = RZset z,
                     expires = (case live t db k of None \<Rightarrow> None | Some e \<Rightarrow> expires e)\<rparr>))"

text \<open>A bound of a score range given as a decimal literal.\<close>

definition score_bound :: "string \<Rightarrow> rat" where
  "score_bound s = fl (of_int (fst (Atoi s)))"

definition in_scores :: "string \<Rightarrow> string \<Rightarrow> rat \<Rightarrow> bool" where
  "in_scores lo hi x \<longleftrightarrow> score_bound lo \<le> x \<and> x \<le> score_bound hi"

fun db_cmd :: "time \<Rightarrow> pipe_cmd \<Rightarrow> rdb \<Rightarrow> (go_error + int) \<times> rdb" where
  "db_cmd t (ZRemRangeByScore k lo hi) db =
     (case db_zset t db k of
        Inl e \<Rightarrow> (Inl e, db)
      | Inr z \<Rightarrow>
          (let kept = filter (\<lambda>(m, x). \<not> in_scores lo hi x) z
           in (Inr (int (length z) - int (length kept)), put_zset t k kept db)))"
| "db_cmd t (ZCard k) db =
     (case db_zset t db k of Inl e \<Rightarrow> (Inl e, db) | Inr z \<Rightarrow> (Inr (int (length z)), db))"

text \<open>A pipeline runs all its commands; its error is the first error among them.\<close>

fun db_exec :: "time \<Rightarrow> pipe_cmd list \<Rightarrow> rdb \<Rightarrow> (go_error + int list) \<times> rdb" where
  "db_exec t [] db = (Inr [], db)"
| "db_exec t (c # cs) db =
     (case db_cmd t c db of
        (Inl e, db) \<Rightarrow> (Inl e, snd (db_exec t cs db))
      | (Inr n, db) \<Rightarrow>
          (case db_exec t cs db of (Inl e, db) \<Rightarrow> (Inl e, db) | (Inr ns, db) \<Rightarrow> (Inr (n # ns), db)))"

definition db_zadd ::
    "time \<Rightarrow> string \<Rightarrow> (rat \<times> string) list \<Rightarrow> rdb \<Rightarrow> (go_error + unit) \<times> rdb" where
  "db_zadd t k ms db =
     (case db_zset t db k of
        Inl e \<Rightarrow> (Inl e, db)
      | Inr z \<Rightarrow> (Inr (), put_zset t k (fold (\<lambda>(x, m). AList.update m x) ms z) db))"

definition db_zcount :: "time \<Rightarrow> string \<Rightarrow> string \<Rightarrow> string \<Rightarrow> rdb \<Rightarrow> (go_error + int) \<times> rdb" where
  "db_zcount t k lo hi db =
     (case db_zset t db k of
        Inl e \<Rightarrow> (Inl e, db)
      | Inr z \<Rightarrow> (Inr (int (length (filter (\<lambda>(m, x). in_scores lo hi x) z))), db))"

text \<open>\<open>ZRANGE\<close> with indices that are not negative: by score, then by member.\<close>

definition zset_order :: "zset \<Rightarrow> string list" where
  "zset_order z = map fst (sort_key snd (sort_key fst z))"

definition db_zrange :: "time \<Rightarrow> string \<Rightarrow> int \<Rightarrow> int \<Rightarrow> rdb \<Rightarrow> (go_error + string list) \<times> rdb" where
  "db_zrange t k start stop db =
     (case db_zset t db k of
        Inl e \<Rightarrow> (Inl e, db)
      | Inr z \<Rightarrow> (Inr (drop (nat start) (take (nat (stop + 1)) (zset_order z))), db))"

section \<open>What the gateway relies on\<close>

text \<open>A call as the client sees it: the reply of the command and its effect, or an error
  other than the missing-key reply, with the effect or without.\<close>

definition executes :: "rdb \<Rightarrow> (go_error + 'a) \<times> rdb \<Rightarrow> (go_error + 'a) \<times> rdb \<Rightarrow> bool" where
  "executes db spec out \<longleftrightarrow>
     out = spec \<or>
     (\<exists>e. fst out = Inl e \<and> e \<noteq> redis_Nil \<and> (snd out = db \<or> snd out = snd spec))"

fun decimal_bounds :: "pipe_cmd \<Rightarrow> bool" where
  "decimal_bounds (ZRemRangeByScore k lo hi) \<longleftrightarrow> (\<exists>a b. lo = Itoa a \<and> hi = Itoa b)"
| "decimal_bounds (ZCard k) \<longleftrightarrow> True"

text \<open>Lifetimes are whole positive numbers of seconds; a key lives at least that long.  A
  pipeline that fails may have run any number of its commands.\<close>

definition lifetime :: "duration \<Rightarrow> bool" where
  "lifetime d \<longleftrightarrow> 0 < d \<and> d mod Second = 0"

definition redis_conforms ::
    "'r redis_client \<Rightarrow> ('r \<Rightarrow> rdb) \<Rightarrow> (time \<Rightarrow> duration \<Rightarrow> time) \<Rightarrow> bool" where
  "redis_conforms client view ttl \<longleftrightarrow>
     (\<forall>t d. lifetime d \<longrightarrow> t + d \<le> ttl t d) \<and>
     (\<forall>t k r. executes (view r) (db_get t k (view r)) (apsnd view (c_Get client t k r))) \<and>
     (\<forall>t k v d r. d = 0 \<or> lifetime d \<longrightarrow>
        executes (view r) (db_set ttl t k v d (view r)) (apsnd view (c_Set client t k v d r))) \<and>
     (\<forall>t k r. executes (view r) (db_incr t k (view r)) (apsnd view (c_Incr client t k r))) \<and>
     (\<forall>t k d r. lifetime d \<longrightarrow>
        executes (view r) (db_expire ttl t k d (view r)) (apsnd view (c_Expire client t k d r))) \<and>
     (\<forall>t cs r. list_all decimal_bounds cs \<longrightarrow>
        apsnd view (c_Exec client t cs r) = db_exec t cs (view r) \<or>
        (\<exists>e n. fst (c_Exec client t cs r) = Inl e \<and> e \<noteq> redis_Nil \<and>
           view (snd (c_Exec client t cs r)) = snd (db_exec t (take n cs) (view r)))) \<and>
     (\<forall>t k ms r.
        executes (view r) (db_zadd t k ms (view r)) (apsnd view (c_ZAdd client t k ms r))) \<and>
     (\<forall>t k a b r.
        executes (view r) (db_zcount t k (Itoa a) (Itoa b) (view r))
          (apsnd view (c_ZCount client t k (Itoa a) (Itoa b) r))) \<and>
     (\<forall>t k i j r. 0 \<le> i \<longrightarrow> 0 \<le> j \<longrightarrow>
        executes (view r) (db_zrange t k i j (view r)) (apsnd view (c_ZRange client t k i j r))) \<and>
     (\<forall>t r. view (snd (c_Ping client t r)) = view r)"

text \<open>A client that runs every command on a database in memory.\<close>

definition mem_client :: "rdb redis_client" where
  "mem_client =
     \<lparr>c_Ping = (\<lambda>t db. (Inr (), db)), c_Get = db_get, c_Set = db_set (\<lambda>t d. t + d),
      c_Incr = db_incr, c_Expire = db_expire (\<lambda>t d. t + d), c_Exec = db_exec, c_ZAdd = db_zadd,
      c_ZCount = db_zcount, c_ZRange = db_zrange, c_Close = (\<lambda>db. (Inr (), db))\<rparr>"

lemma executes_refl [simp]: "executes db spec spec"
  by (simp add: executes_def)

lemma apsnd_id_eq [simp]: "apsnd (\<lambda>x. x) p = p" "apsnd id p = p"
  by (cases p; simp)+

lemma mem_conforms: "redis_conforms mem_client id (\<lambda>t d. t + d)"
  by (auto simp: redis_conforms_def mem_client_def)

text \<open>The laws as the limiters use them.\<close>

definition replied :: "rdb \<Rightarrow> (go_error + 'a) \<times> rdb \<Rightarrow> go_error + 'a \<Rightarrow> rdb \<Rightarrow> bool" where
  "replied db spec res db' \<longleftrightarrow>
     res = fst spec \<and> db' = snd spec \<or>
     (\<exists>e. res = Inl e \<and> e \<noteq> redis_Nil) \<and> (db' = db \<or> db' = snd spec)"

lemma executes_replied:
  "p = (res, r') \<Longrightarrow> executes (view r) spec (apsnd view p) \<Longrightarrow> replied (view r) spec res (view r')"
  by (cases spec) (auto simp: executes_def replied_def)

lemma replied_db: "replied db spec res db' \<Longrightarrow> db' = db \<or> db' = snd spec"
  by (auto simp: replied_def)

lemma replied_Inr: "replied db spec (Inr x) db' \<Longrightarrow> spec = (Inr x, db')"
  by (cases spec) (auto simp: replied_def)

lemma replied_Nil: "replied db spec (Inl redis_Nil) db' \<Longrightarrow> spec = (Inl redis_Nil, db')"
  by (cases spec) (auto simp: replied_def)

lemma conforms_laws:
  assumes "redis_conforms client view ttl"
  shows conforms_ttl: "lifetime d \<Longrightarrow> t + d \<le> ttl t d"
    and law_Get: "executes (view r) (db_get t k (view r)) (apsnd view (c_Get client t k r))"
    and law_Set: "d = 0 \<or> lifetime d \<Longrightarrow>
      executes (view r) (db_set ttl t k v d (view r)) (apsnd view (c_Set client t k v d r))"
    and law_Incr: "executes (view r) (db_incr t k (view r)) (apsnd view (c_Incr client t k r))"
    and law_Expire: "lifetime d \<Longrightarrow>
      executes (view r) (db_expire ttl t k d (view r)) (apsnd view (c_Expire client t k d r))"
    and law_ZAdd:
      "executes (view r) (db_zadd t k ms (view r)) (apsnd view (c_ZAdd client t k ms r))"
    and law_ZCount: "executes (view r) (db_zcount t k (Itoa a) (Itoa b) (view r))
      (apsnd view (c_ZCount client t k (Itoa a) (Itoa b) r))"
    and law_ZRange: "0 \<le> i \<Longrightarrow> 0 \<le> j \<Longrightarrow>
      executes (view r) (db_zrange t k i j (view r)) (apsnd view (c_ZRange client t k i j r))"
    and law_Exec: "list_all decimal_bounds cs \<Longrightarrow>
      apsnd view (c_Exec client t cs r) = db_exec t cs (view r) \<or>
      (\<exists>e n. fst (c_Exec client t cs r) = Inl e \<and> e \<noteq> redis_Nil \<and>
         view (snd (c_Exec client t cs r)) = snd (db_exec t (take n cs) (view r)))"
    and law_Ping: "view (snd (c_Ping client t r)) = view r"
  apply (rule assms [unfolded redis_conforms_def, THEN conjunct1, rule_format]; assumption)
  apply (rule assms [unfolded redis_conforms_def, THEN conjunct2, THEN conjunct1, rule_format])
  apply (rule assms [unfolded redis_conforms_def, THEN conjunct2, THEN conjunct2, THEN conjunct1, rule_format]; assumption)
  apply (rule assms [unfolded redis_conforms_def, THEN conjunct2, THEN conjunct2, THEN conjunct2, THEN conjunct1, rule_format])
  apply (rule assms [unfolded redis_conforms_def, THEN conjunct2, THEN conjunct2, THEN conjunct2, THEN conjunct2, THEN conjunct1, rule_format]; assumption)
  apply (rule assms [unfolded redis_conforms_def, THEN conjunct2, THEN conjunct2, THEN conjunct2, THEN conjunct2, THEN conjunct2, THEN conjunct2, THEN conjunct1, rule_format])
  apply (rule assms [unfolded redis_conforms_def, THEN conjunct2, THEN conjunct2, THEN conjunct2, THEN conjunct2, THEN conjunct2, THEN conjunct2, THEN conjunct2, THEN conjunct1, rule_format])
  apply (rule assms [unfolded redis_conforms_def, THEN conjunct2, THEN conjunct2, THEN conjunct2, THEN conjunct2, THEN conjunct2, THEN conjunct2, THEN conjunct2, THEN conjunct2, THEN conjunct1, rule_format]; assumption)
  apply (rule assms [unfolded redis_conforms_def, THEN conjunct2, THEN conjunct2, THEN conjunct2, THEN conjunct2, THEN conjunct2, THEN conjunct1, rule_format]; assumption)
  apply (rule assms [unfolded redis_conforms_def, THEN conjunct2, THEN conjunct2, THEN conjunct2, THEN conjunct2, THEN conjunct2, THEN conjunct2, THEN conjunct2, THEN conjunct2, THEN conjunct2, rule_format])
  done

lemma conforms_Get:
  "redis_conforms client view ttl \<Longrightarrow> Redis_Get client t k r = (res, r') \<Longrightarrow>
     replied (view r) (db_get t k (view r)) res (view r')"
  unfolding Redis_Get_def by (rule executes_replied, assumption) (rule law_Get)

lemma conforms_Set:
  "redis_conforms client view ttl \<Longrightarrow> d = 0 \<or> lifetime d \<Longrightarrow> Redis_Set client t k v d r = (res, r') \<Longrightarrow>
     replied (view r) (db_set ttl t k v d (view r)) res (view r')"
  unfolding Redis_Set_def by (rule executes_replied, assumption) (rule law_Set)

lemma conforms_Incr:
  "redis_conforms client view ttl \<Longrightarrow> Redis_Incr client t k r = (res, r') \<Longrightarrow>
     replied (view r) (db_incr t k (view r)) res (view r')"
  unfolding Redis_Incr_def by (rule executes_replied, assumption) (rule law_Incr)

lemma conforms_Expire:
  "redis_conforms client view ttl \<Longrightarrow> lifetime d \<Longrightarrow> Redis_Expire client t k d r = (res, r') \<Longrightarrow>
     replied (view r) (db_expire ttl t k d (view r)) res (view r')"
  unfolding Redis_Expire_def by (rule executes_replied, assumption) (rule law_Expire)

lemma conforms_ZAdd:
  "redis_conforms client view ttl \<Longrightarrow> Redis_ZAdd client t k ms r = (res, r') \<Longrightarrow>
     replied (view r) (db_zadd t k ms (view r)) res (view r')"
  unfolding Redis_ZAdd_def by (rule executes_replied, assumption) (rule law_ZAdd)

lemma conforms_ZCount:
  "redis_conforms client view ttl \<Longrightarrow> Redis_ZCount client t k (Itoa a) (Itoa b) r = (res, r') \<Longrightarrow>
     replied (view r) (db_zcount t k (Itoa a) (Itoa b) (view r)) res (view r')"
  unfolding Redis_ZCount_def by (rule executes_replied, assumption) (rule law_ZCount)

lemma conforms_ZRange:
  "redis_conforms client view ttl \<Longrightarrow> 0 \<le> i \<Longrightarrow> 0 \<le> j \<Longrightarrow>
     Redis_ZRange client t k i j r = (res, r') \<Longrightarrow>
     replied (view r) (db_zrange t k i j (view r)) res (view r')"
  unfolding Redis_ZRange_def by (rule executes_replied, assumption) (rule law_ZRange)

lemma conforms_Exec:
  assumes "redis_conforms client view ttl" "list_all decimal_bounds cs"
    and "Redis_Exec client t cs r = (res, r')"
  shows "(res, view r') = db_exec t cs (view r) \<or>
     (\<exists>e n. res = Inl e \<and> e \<noteq> redis_Nil \<and> view r' = snd (db_exec t (take n cs) (view r)))"
proof -
  have "apsnd view (c_Exec client t cs r) = db_exec t cs (view r) \<or>
        (\<exists>e n. fst (c_Exec client t cs r) = Inl e \<and> e \<noteq> redis_Nil \<and>
           view (snd (c_Exec client t cs r)) = snd (db_exec t (take n cs) (view r)))"
    by (rule law_Exec [OF assms(1, 2)])
  then show ?thesis using assms(3) by (simp add: Redis_Exec_def)
qed

end
