(* ===== verification/ApiKeys.thy ===== *)
theory ApiKeys
  imports Repositories RedisStore Gin
begin

text \<open>
  API keys: the service \<open>src/internal/service/apikey.go\<close> with its cache in Redis, its
  administration handlers \<open>src/internal/handler/apikey.go\<close>, and the middleware
  \<open>src/internal/middleware/apikey.go\<close>.  The hash function, the text of JSON documents and
  the parsing of identifiers are parameters (\<open>key_env\<close>).
\<close>

section \<open>The state and the service\<close>

text \<open>The two stores, and the keys whose last use a goroutine has still to record.\<close>

record ('r, 'd) stores =
  s_redis :: 'r
  s_db :: 'd
  s_pending :: "uuid list"

definition via_redis :: "('r \<Rightarrow> 'a \<times> 'r) \<Rightarrow> ('r, 'd) stores \<Rightarrow> 'a \<times> ('r, 'd) stores" where
  "via_redis f st = (case f (s_redis st) of (x, r) \<Rightarrow> (x, st\<lparr>s_redis := r\<rparr>))"

definition via_db :: "('d \<Rightarrow> 'a \<times> 'd) \<Rightarrow> ('r, 'd) stores \<Rightarrow> 'a \<times> ('r, 'd) stores" where
  "via_db f st = (case f (s_db st) of (x, d) \<Rightarrow> (x, st\<lparr>s_db := d\<rparr>))"

record key_env =
  Sum256 :: "string \<Rightarrow> string"
  Marshal :: "json \<Rightarrow> string"
  Parse_json :: "string \<Rightarrow> go_error + json"
  uuid_Parse :: "string \<Rightarrow> go_error + uuid"

record ('r, 'd) APIKeyService =
  aks_repository :: "('d, APIKey) gorm"
  aks_redis :: "'r redis_client"

definition NewAPIKeyService ::
    "('d, APIKey) gorm \<Rightarrow> 'r redis_client \<Rightarrow> ('r, 'd) APIKeyService" where
  "NewAPIKeyService repo redis = \<lparr>aks_repository = repo, aks_redis = redis\<rparr>"

section \<open>API keys as JSON\<close>

definition APIKey_zero :: APIKey where
  "APIKey_zero =
     \<lparr>ID = uuid_Nil, KeyHash = '''', Name = '''', CreatedBy = '''', Tier = '''', IsActive = False,
      CreatedAt = zero_time, LastUsedAt = None\<rparr>"

definition APIKey_json :: "APIKey \<Rightarrow> json" where
  "APIKey_json a =
     JObj ([(''id'', JStr (ID a)), (''name'', JStr (Name a)), (''created_by'', JStr (CreatedBy a)),
            (''tier'', JStr (Tier a)), (''is_active'', JBool (IsActive a)),
            (''created_at'', JTime (CreatedAt a))] @
           (case LastUsedAt a of None \<Rightarrow> [] | Some t \<Rightarrow> [(''last_used_at'', JTime t)]))"

definition decode_time :: "time decoder" where
  "decode_time j x = (case j of JTime t \<Rightarrow> (t, False) | JNull \<Rightarrow> (x, False) | _ \<Rightarrow> (x, True))"

definition decode_uuid :: "key_env \<Rightarrow> uuid decoder" where
  "decode_uuid env j x =
     (case j of
        JStr s \<Rightarrow> (case uuid_Parse env s of Inl err \<Rightarrow> (x, True) | Inr u \<Rightarrow> (u, False))
      | JNull \<Rightarrow> (x, False)
      | _ \<Rightarrow> (x, True))"

definition APIKey_decoder :: "key_env \<Rightarrow> APIKey decoder" where
  "APIKey_decoder env = decode_struct
     [(''id'', decode_field ID ID_update (decode_uuid env)),
      (''name'', decode_field Name Name_update decode_string),
      (''created_by'', decode_field CreatedBy CreatedBy_update decode_string),
      (''tier'', decode_field Tier Tier_update decode_string),
      (''is_active'', decode_field IsActive IsActive_update decode_bool),
      (''created_at'', decode_field CreatedAt CreatedAt_update decode_time),
      (''last_used_at'',
         decode_field LastUsedAt LastUsedAt_update (decode_ptr zero_time decode_time))]"

definition Unmarshal_APIKey :: "key_env \<Rightarrow> string \<Rightarrow> APIKey option" where
  "Unmarshal_APIKey env txt =
     (case Unmarshal (Parse_json env) (APIKey_decoder env) APIKey_zero txt of
        (a, None) \<Rightarrow> Some a
      | (a, Some err) \<Rightarrow> None)"

section \<open>The operations\<close>

definition key_hash :: "key_env \<Rightarrow> string \<Rightarrow> string" where
  "key_hash env key = hex_EncodeToString (Sum256 env key)"

definition cache_key :: "string \<Rightarrow> string" where
  "cache_key keyHash = ''apikey:cache:'' @ keyHash"

text \<open>\<open>rand\<close> is the outcome of reading 32 random bytes, \<open>fresh\<close> what \<open>uuid.New()\<close> returns.\<close>

definition generated_key :: "string \<Rightarrow> string" where
  "generated_key keyBytes = ''gw_'' @ base64_EncodeToString keyBytes"

definition new_key :: "key_env \<Rightarrow> string \<Rightarrow> string \<Rightarrow> string \<Rightarrow> string \<Rightarrow> APIKey" where
  "new_key env key name createdBy tier =
     APIKey_zero\<lparr>KeyHash := key_hash env key, Name := name, CreatedBy := createdBy, Tier := tier,
                 IsActive := True\<rparr>"

definition APIKeyService_Create ::
    "key_env \<Rightarrow> ('r, 'd) APIKeyService \<Rightarrow> go_error + string \<Rightarrow> uuid \<Rightarrow> string \<Rightarrow> string \<Rightarrow> string \<Rightarrow>
     ('r, 'd) stores \<Rightarrow> (go_error + string) \<times> ('r, 'd) stores" where
  "APIKeyService_Create env s rand fresh name createdBy tier st =
     (case rand of
        Inl err \<Rightarrow> (Inl (Errorf ''failed to generate random key: '' err), st)
      | Inr keyBytes \<Rightarrow>
          (let key = generated_key keyBytes;
               apiKey = new_key env key name createdBy tier
           in case via_db (APIKeyRepository_Create (aks_repository s) fresh apiKey) st of
                (Some err, st) \<Rightarrow> (Inl (Errorf ''failed to create API key: '' err), st)
              | (None, st) \<Rightarrow> (Inr key, st)))"

text \<open>\<open>Validate\<close> talks to the stores up to three times.  \<open>Validate_lookup\<close> is everything up to
  the decision to write to the cache, \<open>Validate_store\<close> the write.\<close>

datatype lookup = Finished "go_error + APIKey option" | Fetched string APIKey

definition cache_hit :: "key_env \<Rightarrow> go_error + string \<Rightarrow> APIKey option" where
  "cache_hit env cached =
     (case cached of
        Inl err \<Rightarrow> None
      | Inr txt \<Rightarrow> if txt \<noteq> '''' then Unmarshal_APIKey env txt else None)"

definition Validate_lookup ::
    "key_env \<Rightarrow> ('r, 'd) APIKeyService \<Rightarrow> time \<Rightarrow> string \<Rightarrow> ('r, 'd) stores \<Rightarrow>
     lookup \<times> ('r, 'd) stores" where
  "Validate_lookup env s t key st =
     (let keyHash = key_hash env key;
          (cached, st) = via_redis (Redis_Get (aks_redis s) t (cache_key keyHash)) st
      in case cache_hit env cached of
           Some apiKey \<Rightarrow> (Finished (Inr (Some apiKey)), st)
         | None \<Rightarrow>
             (case via_db (FindByHash (aks_repository s) keyHash) st of
                (Inl err, st) \<Rightarrow> (Finished (Inl err), st)
              | (Inr None, st) \<Rightarrow> (Finished (Inr None), st)
              | (Inr (Some apiKey), st) \<Rightarrow> (Fetched keyHash apiKey, st)))"

definition Validate_store ::
    "key_env \<Rightarrow> ('r, 'd) APIKeyService \<Rightarrow> time \<Rightarrow> string \<Rightarrow> APIKey \<Rightarrow> ('r, 'd) stores \<Rightarrow>
     ('r, 'd) stores" where
  "Validate_store env s t keyHash apiKey st =
     snd (via_redis (Redis_Set (aks_redis s) t (cache_key keyHash)
                       (Marshal env (APIKey_json apiKey)) (5 * Minute)) st)"

definition Validate ::
    "key_env \<Rightarrow> ('r, 'd) APIKeyService \<Rightarrow> clock \<Rightarrow> string \<Rightarrow> ('r, 'd) stores \<Rightarrow>
     (go_error + APIKey option) \<times> ('r, 'd) stores" where
  "Validate env s ts key st =
     (case Validate_lookup env s (ts 0) key st of
        (Finished res, st) \<Rightarrow> (res, st)
      | (Fetched keyHash apiKey, st) \<Rightarrow>
          (Inr (Some apiKey), Validate_store env s (ts 1) keyHash apiKey st))"

definition APIKeyService_Get ::
    "('r, 'd) APIKeyService \<Rightarrow> string \<Rightarrow> ('r, 'd) stores \<Rightarrow>
     (go_error + APIKey option) \<times> ('r, 'd) stores" where
  "APIKeyService_Get s keyID st = via_db (FindByID (aks_repository s) keyID) st"

definition APIKeyService_List ::
    "('r, 'd) APIKeyService \<Rightarrow> ('r, 'd) stores \<Rightarrow>
     (APIKey list \<times> go_error option) \<times> ('r, 'd) stores" where
  "APIKeyService_List s st = via_db (APIKeyRepository_List (aks_repository s)) st"

definition invalidateCache ::
    "('r, 'd) APIKeyService \<Rightarrow> time \<Rightarrow> string \<Rightarrow> ('r, 'd) stores \<Rightarrow> ('r, 'd) stores" where
  "invalidateCache s t keyID st =
     (case via_db (FindByID (aks_repository s) keyID) st of
        (Inr (Some apiKey), st) \<Rightarrow>
          snd (via_redis (Redis_Set (aks_redis s) t (cache_key (KeyHash apiKey)) '''' 0) st)
      | (_, st) \<Rightarrow> st)"

definition APIKeyService_Update ::
    "('r, 'd) APIKeyService \<Rightarrow> clock \<Rightarrow> string \<Rightarrow> (string \<rightharpoonup> sql_val) \<Rightarrow> ('r, 'd) stores \<Rightarrow>
     go_error option \<times> ('r, 'd) stores" where
  "APIKeyService_Update s ts keyID updates st =
     (let st1 = (if updates ''tier'' \<noteq> None then invalidateCache s (ts 0) keyID st else st);
          st2 = (if updates ''is_active'' \<noteq> None then invalidateCache s (ts 1) keyID st1 else st1)
      in via_db (APIKeyRepository_Update (aks_repository s) keyID updates) st2)"

definition APIKeyService_Delete ::
    "('r, 'd) APIKeyService \<Rightarrow> time \<Rightarrow> string \<Rightarrow> ('r, 'd) stores \<Rightarrow>
     go_error option \<times> ('r, 'd) stores" where
  "APIKeyService_Delete s t keyID st =
     via_db (APIKeyRepository_Delete (aks_repository s) keyID) (invalidateCache s t keyID st)"

definition UpdateLastUsed ::
    "('r, 'd) APIKeyService \<Rightarrow> time \<Rightarrow> uuid \<Rightarrow> ('r, 'd) stores \<Rightarrow> ('r, 'd) stores" where
  "UpdateLastUsed s now keyID st =
     snd (via_db (APIKeyRepository_UpdateLastUsed (aks_repository s) now keyID) st)"

section \<open>The administration handlers\<close>

record CreateKeyRequest =
  ckr_Name :: string
  ckr_CreatedBy :: string
  ckr_Tier :: string

definition CreateKeyRequest_decoder :: "CreateKeyRequest decoder" where
  "CreateKeyRequest_decoder = decode_struct
     [(''name'', decode_field ckr_Name ckr_Name_update decode_string),
      (''created_by'', decode_field ckr_CreatedBy ckr_CreatedBy_update decode_string),
      (''tier'', decode_field ckr_Tier ckr_Tier_update decode_string)]"

definition CreateKeyRequest_tags :: "CreateKeyRequest binding_tags" where
  "CreateKeyRequest_tags =
     [(''Name'', [required_tag ckr_Name]), (''Tier'', [required_tag ckr_Tier])]"

definition APIKeyHandler_Create ::
    "framework \<Rightarrow> key_env \<Rightarrow> ('r, 'd) APIKeyService \<Rightarrow> go_error + string \<Rightarrow> uuid \<Rightarrow>
     ('r, 'd) stores handler" where
  "APIKeyHandler_Create fw env s rand fresh st c =
     (case ShouldBindJSON fw CreateKeyRequest_decoder CreateKeyRequest_tags
             \<lparr>ckr_Name = '''', ckr_CreatedBy = '''', ckr_Tier = ''''\<rparr> c of
        Inl err \<Rightarrow> respond 400 (error_body (Error fw err)) st c
      | Inr req \<Rightarrow>
          (case APIKeyService_Create env s rand fresh (ckr_Name req) (ckr_CreatedBy req) (ckr_Tier req) st of
             (Inl err, st) \<Rightarrow> respond 500 (error_body (Error fw err)) st c
           | (Inr key, st) \<Rightarrow>
               respond 201 (JObj [(''key'', JStr key),
                 (''message'', JStr ''Save this key - it won't be shown again'')]) st c))"

definition APIKeyHandler_List ::
    "framework \<Rightarrow> ('r, 'd) APIKeyService \<Rightarrow> ('r, 'd) stores handler" where
  "APIKeyHandler_List fw s st c =
     (case APIKeyService_List s st of
        ((keys, Some err), st) \<Rightarrow> respond 500 (error_body (Error fw err)) st c
      | ((keys, None), st) \<Rightarrow> respond 200 (JList (map APIKey_json keys)) st c)"

definition APIKeyHandler_Get ::
    "framework \<Rightarrow> ('r, 'd) APIKeyService \<Rightarrow> ('r, 'd) stores handler" where
  "APIKeyHandler_Get fw s st c =
     (case APIKeyService_Get s (ctx_Param ''id'' c) st of
        (Inl err, st) \<Rightarrow> respond 500 (error_body (Error fw err)) st c
      | (Inr None, st) \<Rightarrow> respond 404 (error_body ''API key not found'') st c
      | (Inr (Some apiKey), st) \<Rightarrow> respond 200 (APIKey_json apiKey) st c)"

record UpdateKeyRequest =
  ukr_Tier :: "string option"
  ukr_IsActive :: "bool option"

definition UpdateKeyRequest_decoder :: "UpdateKeyRequest decoder" where
  "UpdateKeyRequest_decoder = decode_struct
     [(''tier'', decode_field ukr_Tier ukr_Tier_update (decode_ptr '''' decode_string)),
      (''is_active'', decode_field ukr_IsActive ukr_IsActive_update (decode_ptr False decode_bool))]"

definition key_updates :: "UpdateKeyRequest \<Rightarrow> (string \<rightharpoonup> sql_val)" where
  "key_updates req =
     (let u0 = Map.empty;
          u1 = (case ukr_Tier req of None \<Rightarrow> u0 | Some tier \<Rightarrow> u0(''tier'' \<mapsto> SText tier))
      in case ukr_IsActive req of None \<Rightarrow> u1 | Some b \<Rightarrow> u1(''is_active'' \<mapsto> SBool b))"

text \<open>The map has no entries exactly when neither field was given.\<close>

definition APIKeyHandler_Update ::
    "framework \<Rightarrow> ('r, 'd) APIKeyService \<Rightarrow> clock \<Rightarrow> ('r, 'd) stores handler" where
  "APIKeyHandler_Update fw s ts st c =
     (case ShouldBindJSON fw UpdateKeyRequest_decoder [] \<lparr>ukr_Tier = None, ukr_IsActive = None\<rparr> c of
        Inl err \<Rightarrow> respond 400 (error_body (Error fw err)) st c
      | Inr req \<Rightarrow>
          if ukr_Tier req = None \<and> ukr_IsActive req = None
          then respond 400 (error_body ''No fields to update'') st c
          else (case APIKeyService_Update s ts (ctx_Param ''id'' c) (key_updates req) st of
                  (Some err, st) \<Rightarrow> respond 500 (error_body (Error fw err)) st c
                | (None, st) \<Rightarrow>
                    respond 200 (JObj [(''message'', JStr ''API key updated successfully'')]) st c))"

definition APIKeyHandler_Delete ::
    "framework \<Rightarrow> ('r, 'd) APIKeyService \<Rightarrow> time \<Rightarrow> ('r, 'd) stores handler" where
  "APIKeyHandler_Delete fw s t st c =
     (case APIKeyService_Delete s t (ctx_Param ''id'' c) st of
        (Some err, st) \<Rightarrow> respond 500 (error_body (Error fw err)) st c
      | (None, st) \<Rightarrow> respond 200 (JObj [(''message'', JStr ''API key deleted successfully'')]) st c)"

lemma key_updates_empty: "key_updates req = Map.empty \<longleftrightarrow> ukr_Tier req = None \<and> ukr_IsActive req = None"
  by (auto simp: key_updates_def Let_def split: option.splits)

section \<open>The middleware\<close>

text \<open>\<open>get\<close> and \<open>put\<close> give access to the stores in the state of the handlers.  The goroutine that
  records the use is noted in \<open>s_pending\<close>; it runs at some later time.\<close>

definition APIKeyValidator ::
    "key_env \<Rightarrow> ('r, 'd) APIKeyService \<Rightarrow> clock \<Rightarrow> ('w \<Rightarrow> ('r, 'd) stores) \<Rightarrow>
     (('r, 'd) stores \<Rightarrow> 'w \<Rightarrow> 'w) \<Rightarrow> 'w middleware" where
  "APIKeyValidator env s ts get put nxt w c =
     (let apiKeyHeader = Header_Get ''X-Api-Key'' (Request c)
      in if apiKeyHeader = '''' then nxt w c
         else case Validate env s ts (TrimSpace apiKeyHeader) (get w) of
                (Inr (Some apiKey), st) \<Rightarrow>
                  (let c1 = ctx_Set ''api_key'' (VAPIKey apiKey) c;
                       c2 = ctx_Set ''api_key_id'' (VUUID (ID apiKey)) c1;
                       c3 = ctx_Set ''api_key_tier'' (VString (Tier apiKey)) c2
                   in nxt (put (st\<lparr>s_pending := s_pending st @ [ID apiKey]\<rparr>) w) c3)
              | (_, st) \<Rightarrow> reject 401 (error_body ''Invalid API key'') (put st w) c)"

definition run_pending ::
    "('r, 'd) APIKeyService \<Rightarrow> time \<Rightarrow> ('r, 'd) stores \<Rightarrow> ('r, 'd) stores" where
  "run_pending s now st =
     (case s_pending st of
        [] \<Rightarrow> st
      | keyID # rest \<Rightarrow> UpdateLastUsed s now keyID (st\<lparr>s_pending := rest\<rparr>))"

end
