(* ===== verification/RequestLogger.thy ===== *)
theory RequestLogger
  imports Repositories Gin Systems
begin

text \<open>
  The request log of \<open>src/internal/middleware/requestlogger.go\<close>: the middleware that offers an
  entry for every request to a bounded channel, and the worker that collects the entries into
  batches and inserts them into the database.  Requests and worker run concurrently; a step
  is one operation on the channel together with what the worker does with it.

  Shown: no accepted entry is lost, repeated or reordered on its way to the database, batches
  have between one and a hundred entries, and an entry is dropped only when the channel is
  full.
\<close>

section \<open>The worker\<close>

record Logger_state =
  logChannel :: "RequestLog list"
  bufferSize :: nat
  batch :: "RequestLog list"

definition InitRequestLogger :: "nat \<Rightarrow> Logger_state" where
  "InitRequestLogger n = \<lparr>logChannel = [], bufferSize = n, batch = []\<rparr>"

text \<open>An error of the insertion is printed and the batch is given up.\<close>

definition insertBatch :: "('d, RequestLog) gorm \<Rightarrow> RequestLog list \<Rightarrow> 'd \<Rightarrow> go_error option \<times> 'd" where
  "insertBatch g logs d = (if length logs = 0 then (None, d) else g_Create g id logs d)"

text \<open>The two cases of the worker's \<open>select\<close>.  The batch that was inserted, and the error of the
  insertion, are part of the result.\<close>

type_synonym flush = "RequestLog list \<times> go_error option"

definition worker_receive ::
    "('d, RequestLog) gorm \<Rightarrow> Logger_state \<Rightarrow> 'd \<Rightarrow> (flush \<times> Logger_state \<times> 'd) option" where
  "worker_receive g st d =
     (case logChannel st of
        [] \<Rightarrow> None
      | entry # rest \<Rightarrow>
          (let b = batch st @ [entry]; st1 = st\<lparr>logChannel := rest, batch := b\<rparr>
           in if length b \<ge> 100
              then (case insertBatch g b d of (err, d) \<Rightarrow> Some ((b, err), st1\<lparr>batch := []\<rparr>, d))
              else Some (([], None), st1, d)))"

definition worker_tick ::
    "('d, RequestLog) gorm \<Rightarrow> Logger_state \<Rightarrow> 'd \<Rightarrow> flush \<times> Logger_state \<times> 'd" where
  "worker_tick g st d =
     (if length (batch st) > 0
      then (case insertBatch g (batch st) d of (err, d) \<Rightarrow> ((batch st, err), st\<lparr>batch := []\<rparr>, d))
      else (([], None), st, d))"

section \<open>The middleware\<close>

text \<open>The send of the middleware's \<open>select\<close>, with its default: the result says whether the
  entry was queued.\<close>

definition offer :: "RequestLog \<Rightarrow> Logger_state \<Rightarrow> bool \<times> Logger_state" where
  "offer entry st =
     (if length (logChannel st) < bufferSize st then (True, st\<lparr>logChannel := logChannel st @ [entry]\<rparr>)
      else (False, st))"

definition Milliseconds :: "duration \<Rightarrow> int" where
  "Milliseconds d = d sdiv 1000000"

definition log_entry :: "framework \<Rightarrow> time \<Rightarrow> time \<Rightarrow> gin_ctx \<Rightarrow> RequestLog" where
  "log_entry fw start now c =
     \<lparr>log_ID = 0, Timestamp = start,
      APIKeyID = (case Keys c ''api_key_id'' of Some (VUUID i) \<Rightarrow> Some i | _ \<Rightarrow> None),
      log_Method = Method (Request c), log_Path = URL_Path (Request c),
      StatusCode = Writer_Status fw (calls c),
      ResponseTimeMs = Milliseconds (time_Sub now start), IPAddress = ClientIP c,
      UserAgent = Header_Get ''User-Agent'' (Request c),
      BackendServer = Header_Get ''X-Backend-Server'' (Request c)\<rparr>"

text \<open>\<open>get\<close> and \<open>put\<close> give access to the logger in the state of the handlers.  A panic of the
  handlers behind passes through: the code after \<open>c.Next()\<close> is not deferred.\<close>

definition RequestLogger ::
    "framework \<Rightarrow> clock \<Rightarrow> ('w \<Rightarrow> Logger_state) \<Rightarrow> (Logger_state \<Rightarrow> 'w \<Rightarrow> 'w) \<Rightarrow> 'w middleware" where
  "RequestLogger fw ts get put nxt w c =
     (case nxt w c of
        Panicked p w c \<Rightarrow> Panicked p w c
      | Returned w c \<Rightarrow>
          (let (sent, st) = offer (log_entry fw (ts 0) (ts 1) c) (get w)
           in Returned (put st w) c))"

section \<open>Requests and worker together\<close>

datatype log_event = Queued RequestLog | Dropped RequestLog | Worked flush

inductive log_step ::
    "('d, RequestLog) gorm \<Rightarrow> Logger_state \<times> 'd \<Rightarrow> log_event \<Rightarrow> Logger_state \<times> 'd \<Rightarrow> bool"
  for g :: "('d, RequestLog) gorm" where
  offer_queued: "offer l st = (True, st') \<Longrightarrow> log_step g (st, d) (Queued l) (st', d)"
| offer_dropped: "offer l st = (False, st') \<Longrightarrow> log_step g (st, d) (Dropped l) (st', d)"
| receive: "worker_receive g st d = Some (f, st', d') \<Longrightarrow> log_step g (st, d) (Worked f) (st', d')"
| tick: "worker_tick g st d = (f, st', d') \<Longrightarrow> log_step g (st, d) (Worked f) (st', d')"

fun queued :: "log_event list \<Rightarrow> RequestLog list" where
  "queued [] = []"
| "queued (Queued l # es) = l # queued es"
| "queued (Dropped l # es) = queued es"
| "queued (Worked f # es) = queued es"

fun batches :: "log_event list \<Rightarrow> RequestLog list list" where
  "batches [] = []"
| "batches (Worked (ls, err) # es) = (if ls = [] then batches es else ls # batches es)"
| "batches (Queued l # es) = batches es"
| "batches (Dropped l # es) = batches es"

fun accepted :: "log_event \<Rightarrow> bool" where
  "accepted (Worked (ls, err)) \<longleftrightarrow> err = None"
| "accepted _ \<longleftrightarrow> True"

lemma queued_append [simp]: "queued (es @ fs) = queued es @ queued fs"
  by (induction es rule: queued.induct) simp_all

lemma batches_append [simp]: "batches (es @ fs) = batches es @ batches fs"
  by (induction es rule: batches.induct) simp_all

definition logger_inv :: "nat \<Rightarrow> Logger_state \<Rightarrow> bool" where
  "logger_inv n st \<longleftrightarrow> bufferSize st = n \<and> length (logChannel st) \<le> n \<and> length (batch st) < 100"

inductive_simps log_step_Queued: "log_step g (st, d) (Queued l) s'"
inductive_simps log_step_Dropped: "log_step g (st, d) (Dropped l) s'"

text \<open>What one step does to the entries in transit.\<close>

lemma log_step_transit:
  assumes "log_step g (st, d) e (st', d')" "logger_inv n st"
  shows "logger_inv n st' \<and>
    batch st @ logChannel st @ queued [e] = concat (batches [e]) @ batch st' @ logChannel st' \<and>
    list_all (\<lambda>b. 0 < length b \<and> length b \<le> 100) (batches [e]) \<and>
    (\<exists>err. insertBatch g (concat (batches [e])) d = (err, d') \<and> (accepted e \<longrightarrow> err = None))"
  using assms(1)
proof cases
  case (offer_queued l)
  with assms(2) show ?thesis
    by (auto simp: offer_def logger_inv_def insertBatch_def split: if_splits)
next
  case (offer_dropped l)
  with assms(2) show ?thesis
    by (auto simp: offer_def logger_inv_def insertBatch_def split: if_splits)
next
  case (receive f)
  then obtain l rest where "logChannel st = l # rest"
    by (auto simp: worker_receive_def split: list.splits)
  with receive assms(2) show ?thesis
    by (cases "length (batch st) \<ge> 99")
       (auto simp: worker_receive_def logger_inv_def insertBatch_def Let_def split: prod.splits)
next
  case (tick f)
  obtain err d1 where ins: "insertBatch g (batch st) d = (err, d1)"
    by (cases "insertBatch g (batch st) d")
  show ?thesis
  proof (cases "batch st = []")
    case True
    with tick have "e = Worked ([], None)" "st' = st" "d' = d" by (auto simp: worker_tick_def)
    with True assms(2) show ?thesis by (simp add: logger_inv_def insertBatch_def)
  next
    case False
    with tick have "e = Worked (batch st, err)" "st' = st\<lparr>batch := []\<rparr>" "d' = d1"
      by (auto simp: worker_tick_def ins)
    with False assms(2) ins show ?thesis by (simp add: logger_inv_def)
  qed
qed

interpretation request_log: invariant_system
  "\<lambda>s. fst s = InitRequestLogger n" "log_step g" "\<lambda>s. logger_inv n (fst s)"
proof (unfold_locales, goal_cases)
  case (1 s)
  then show ?case by (simp add: logger_inv_def InitRequestLogger_def)
next
  case (2 s e t)
  then show ?case using log_step_transit [of g "fst s" "snd s" e "fst t" "snd t" n] by simp
qed

lemma run_transit:
  "run (log_step g) s es t \<Longrightarrow> fst s = InitRequestLogger n \<Longrightarrow>
     queued es = concat (batches es) @ batch (fst t) @ logChannel (fst t) \<and>
     list_all (\<lambda>b. 0 < length b \<and> length b \<le> 100) (batches es) \<and> logger_inv n (fst t)"
proof (induction rule: run.induct)
  case (run_Nil s)
  then show ?case by (simp add: InitRequestLogger_def logger_inv_def)
next
  case (run_snoc s es t e u)
  then show ?case
    using log_step_transit [of g "fst t" "snd t" e "fst u" "snd u" n] by simp
qed

text \<open>C13: Under every interleaving of requests and worker, what has been queued is, in order,
  what has been inserted followed by the current batch and the channel: nothing is lost,
  repeated or reordered.  Every inserted batch has one to a hundred entries, the current
  batch fewer than a hundred, the channel never exceeds its capacity, and an entry is dropped
  only when the channel is full.\<close>

theorem request_log_conserves:
  assumes "run (log_step g) (InitRequestLogger n, d0) es (st, d)"
  shows "queued es = concat (batches es) @ batch st @ logChannel st \<and>
         list_all (\<lambda>b. 0 < length b \<and> length b \<le> 100) (batches es) \<and>
         length (batch st) < 100 \<and> length (logChannel st) \<le> n \<and>
         (\<forall>l s'. log_step g (st, d) (Dropped l) s' \<longrightarrow> length (logChannel st) = n)"
  using run_transit [OF assms, of n]
  by (auto simp: logger_inv_def log_step_Dropped offer_def split: if_splits)

section \<open>What reaches the database\<close>

text \<open>An entry up to the number that the database gives it.\<close>

definition unnumbered :: "RequestLog \<Rightarrow> RequestLog" where
  "unnumbered l = l\<lparr>log_ID := 0\<rparr>"

lemma inserted_unnumbered:
  "length ids = length ls \<Longrightarrow> map unnumbered (inserted request_logs now ids id ls) = map unnumbered ls"
  by (induction ids ls rule: list_induct2)
     (simp_all add: inserted_def request_logs_filled_def unnumbered_def)

lemma insertBatch_rows:
  assumes "gorm_conforms request_logs g rows" "insertBatch g b d = (None, d')"
  shows "\<exists>ls. rows d' = rows d @ ls \<and> map unnumbered ls = map unnumbered b"
proof (cases "b = []")
  case False
  then have create: "g_Create g id b d = (None, d')" using assms(2) by (simp add: insertBatch_def)
  obtain now ids where "length ids = length b" "rows d' = rows d @ inserted request_logs now ids id b"
    by (rule conforms_Create [OF assms(1) create]) (auto simp: executed_def)
  then show ?thesis by (auto intro!: inserted_unnumbered)
qed (use assms(2) in \<open>simp add: insertBatch_def\<close>)

lemma run_rows:
  assumes "gorm_conforms request_logs g rows"
    and "run (log_step g) s es t" "logger_inv n (fst s)" "list_all accepted es"
  shows "\<exists>ls. rows (snd t) = rows (snd s) @ ls \<and> map unnumbered ls = map unnumbered (concat (batches es))"
  using assms(2-4)
proof (induction rule: run.induct)
  case (run_Nil s)
  then show ?case by simp
next
  case (run_snoc s es t e u)
  have "logger_inv n (fst t)" by (rule request_log.inv_run [OF run_snoc.hyps(1) run_snoc.prems(1)])
  then have "insertBatch g (concat (batches [e])) (snd t) = (None, snd u)"
    using log_step_transit [of g "fst t" "snd t" e "fst u" "snd u" n] run_snoc.hyps(2) run_snoc.prems(2)
    by auto
  then obtain ls' where "rows (snd u) = rows (snd t) @ ls'"
      "map unnumbered ls' = map unnumbered (concat (batches [e]))"
    using insertBatch_rows [OF assms(1)] by blast
  moreover obtain ls where "rows (snd t) = rows (snd s) @ ls"
      "map unnumbered ls = map unnumbered (concat (batches es))"
    using run_snoc by auto
  ultimately show ?case by (intro exI [of _ "ls @ ls'"]) simp
qed

text \<open>As long as the database accepts the insertions, the table grows by the queued entries in
  the order in which they were queued, and at any moment at most 99 entries and the content of
  the channel are still to come.\<close>

theorem queued_entries_reach_the_table:
  assumes "gorm_conforms request_logs g rows"
    and "run (log_step g) (InitRequestLogger n, d0) es (st, d)" "list_all accepted es"
  shows "\<exists>k ls. rows d = rows d0 @ ls \<and> map unnumbered ls = map unnumbered (take k (queued es)) \<and>
           k \<le> length (queued es) \<and> length (queued es) \<le> k + 99 + n"
proof -
  have q: "queued es = concat (batches es) @ batch st @ logChannel st" and inv: "logger_inv n st"
    using run_transit [OF assms(2), of n] by auto
  obtain ls where ls: "rows d = rows d0 @ ls" "map unnumbered ls = map unnumbered (concat (batches es))"
    using run_rows [OF assms(1, 2) _ assms(3), of n] by (auto simp: logger_inv_def InitRequestLogger_def)
  then show ?thesis
    using q inv
    by (intro exI [of _ "length (concat (batches es))"] exI [of _ ls]) (simp add: logger_inv_def)
qed

text \<open>C34: From every state, if no further entries come in, the worker needs only to receive what
  is in the channel and to be woken by its ticker once: then everything has been inserted.\<close>

theorem worker_drains:
  "\<exists>es st' d'. run (log_step g) (st, d) es (st', d') \<and> length es = Suc (length (logChannel st)) \<and>
     queued es = [] \<and> concat (batches es) = batch st @ logChannel st \<and>
     batch st' = [] \<and> logChannel st' = []"
proof (induction "logChannel st" arbitrary: st d)
  case Nil
  obtain ls err st' d' where "worker_tick g st d = ((ls, err), st', d')" by (metis surj_pair)
  moreover from this have "log_step g (st, d) (Worked (ls, err)) (st', d')" by (rule tick)
  ultimately show ?case
    using Nil by (intro exI [of _ "[Worked (ls, err)]"] exI [of _ st'] exI [of _ d'])
      (auto simp: worker_tick_def split: if_splits prod.splits)
next
  case (Cons l rest)
  obtain ls err st1 d1 where recv: "worker_receive g st d = Some ((ls, err), st1, d1)"
    using Cons.hyps(2) by (cases "worker_receive g st d")
      (auto simp: worker_receive_def Let_def split: list.splits if_splits prod.splits)
  have st1: "logChannel st1 = rest" "ls @ batch st1 = batch st @ [l]"
    using recv Cons.hyps(2) by (auto simp: worker_receive_def Let_def split: list.splits if_splits prod.splits)
  obtain es st' d' where es: "run (log_step g) (st1, d1) es (st', d')" "length es = Suc (length rest)"
      "queued es = []" "concat (batches es) = batch st1 @ rest" "batch st' = []" "logChannel st' = []"
    using Cons.hyps(1) [of st1 d1] st1(1) by blast
  have "run (log_step g) (st, d) (Worked (ls, err) # es) (st', d')"
    using es(1) receive [OF recv] by (auto simp: run_Cons)
  moreover have "concat (batches (Worked (ls, err) # es)) = (ls @ batch st1) @ rest"
    by (simp add: es(4))
  moreover have "\<dots> = batch st @ l # rest"
    by (simp only: st1(2) append_assoc append_Cons append_Nil)
  ultimately show ?case
    using es Cons.hyps(2) [symmetric] by (intro exI [of _ "Worked (ls, err) # es"] exI [of _ st'] exI [of _ d']) auto
qed

section \<open>Instances\<close>

definition demo_entry :: "string \<Rightarrow> RequestLog" where
  "demo_entry path =
     \<lparr>log_ID = 0, Timestamp = 7, APIKeyID = None, log_Method = ''GET'', log_Path = path, StatusCode = 200,
      ResponseTimeMs = 3, IPAddress = ''10.0.0.1'', UserAgent = '''', BackendServer = ''''\<rparr>"

abbreviation mem_logs :: "(RequestLog list, RequestLog) gorm" where
  "mem_logs \<equiv> mem_gorm request_logs 0"

text \<open>Three requests, a channel for two entries, and the worker between them.\<close>

abbreviation demo_events :: "log_event list" where
  "demo_events \<equiv> [Queued (demo_entry ''a''), Worked ([], None), Queued (demo_entry ''b''), Queued (demo_entry ''c''),
     Dropped (demo_entry ''d''), Worked ([demo_entry ''a''], None)]"

lemma demo_run:
  "\<exists>d. run (log_step mem_logs) (InitRequestLogger 2, []) demo_events
     (\<lparr>logChannel = [demo_entry ''b'', demo_entry ''c''], bufferSize = 2, batch = []\<rparr>, d)"
proof -
  let ?s = "\<lambda>ch b. \<lparr>logChannel = ch, bufferSize = 2, batch = b\<rparr>"
  let ?a = "demo_entry ''a''" and ?b = "demo_entry ''b''" and ?c = "demo_entry ''c''"
  have "log_step mem_logs (?s [] [], []) (Queued ?a) (?s [?a] [], [])"
    by (rule offer_queued) (simp add: offer_def)
  moreover have "log_step mem_logs (?s [?a] [], []) (Worked ([], None)) (?s [] [?a], [])"
    by (rule receive) (simp add: worker_receive_def Let_def)
  moreover have "log_step mem_logs (?s [] [?a], []) (Queued ?b) (?s [?b] [?a], [])"
    by (rule offer_queued) (simp add: offer_def)
  moreover have "log_step mem_logs (?s [?b] [?a], []) (Queued ?c) (?s [?b, ?c] [?a], [])"
    by (rule offer_queued) (simp add: offer_def)
  moreover have "log_step mem_logs (?s [?b, ?c] [?a], []) (Dropped (demo_entry ''d'')) (?s [?b, ?c] [?a], [])"
    by (rule offer_dropped) (simp add: offer_def)
  moreover have "log_step mem_logs (?s [?b, ?c] [?a], []) (Worked ([?a], None))
      (?s [?b, ?c] [], snd (insertBatch mem_logs [?a] []))"
    by (rule tick) (simp add: worker_tick_def insertBatch_def mem_gorm_def inserted_def distinct_keys_def request_logs_def Let_def)
  ultimately show ?thesis
    unfolding InitRequestLogger_def run_Cons run_Nil_iff by blast
qed

theorem request_log_conserves_witness:
  "\<exists>st d. run (log_step mem_logs) (InitRequestLogger 2, []) demo_events (st, d) \<and>
     queued demo_events = concat (batches demo_events) @ batch st @ logChannel st \<and>
     length (logChannel st) = 2"
proof -
  obtain d where r: "run (log_step mem_logs) (InitRequestLogger 2, []) demo_events
      (\<lparr>logChannel = [demo_entry ''b'', demo_entry ''c''], bufferSize = 2, batch = []\<rparr>, d)"
    using demo_run by blast
  from request_log_conserves [OF r] r show ?thesis by fastforce
qed

theorem queued_entries_reach_the_table_witness:
  "\<exists>st d k ls. run (log_step mem_logs) (InitRequestLogger 2, []) demo_events (st, d) \<and>
     id d = id [] @ ls \<and> map unnumbered ls = map unnumbered (take k (queued demo_events)) \<and>
     k \<le> length (queued demo_events) \<and> length (queued demo_events) \<le> k + 99 + 2"
proof -
  obtain st d where r: "run (log_step mem_logs) (InitRequestLogger 2, []) demo_events (st, d)"
    using demo_run by blast
  have "list_all accepted demo_events" by simp
  from queued_entries_reach_the_table [OF mem_gorm_conforms r this] r show ?thesis by blast
qed

end
