(* ===== verification/FixedWindow.thy ===== *)
theory FixedWindow
  imports RedisStore Systems "HOL-Library.Multiset"
begin

text \<open>
  The fixed-window rate limiter, \<open>src/internal/ratelimit/fixed_window.go\<close>.  \<open>Allow\<close> sends two
  commands, \<open>INCR\<close> and, for the first request of a window, \<open>EXPIRE\<close>; the requests of several
  gateways interleave between them and may be lost in between, which is what \<open>fw_step\<close>
  describes.
\<close>

section \<open>The limiter\<close>

record FixedWindowLimiter =
  fw_limit :: int
  fw_window :: duration

definition NewFixedWindow :: "int \<Rightarrow> duration \<Rightarrow> FixedWindowLimiter" where
  "NewFixedWindow limit window = \<lparr>fw_limit = limit, fw_window = window\<rparr>"

text \<open>\<open>time.Now().Unix() / int64(f.window.Seconds())\<close>, a division that can panic.\<close>

definition window_seconds :: "FixedWindowLimiter \<Rightarrow> int" where
  "window_seconds f = int_of_float (Duration_Seconds (fw_window f))"

definition currentWindow :: "FixedWindowLimiter \<Rightarrow> time \<Rightarrow> int outcome" where
  "currentWindow f now =
     (if window_seconds f = 0 then Inl IntegerDivideByZero
      else Inr (wrap64 (time_Unix now sdiv window_seconds f)))"

definition fixed_key :: "string \<Rightarrow> int \<Rightarrow> string" where
  "fixed_key key w = ''ratelimit:fixed:'' @ key @ CHR '':'' # Itoa w"

text \<open>The two commands of \<open>Allow\<close>, with the time at which the server executes them.\<close>

definition fw_incr ::
    "'r redis_client \<Rightarrow> FixedWindowLimiter \<Rightarrow> time \<Rightarrow> time \<Rightarrow> string \<Rightarrow> 'r \<Rightarrow>
     (int \<times> (go_error + int)) outcome \<times> 'r" where
  "fw_incr client f now t key r =
     (case currentWindow f now of
        Inl p \<Rightarrow> (Inl p, r)
      | Inr w \<Rightarrow> (case Redis_Incr client t (fixed_key key w) r of (res, r) \<Rightarrow> (Inr (w, res), r)))"

definition fw_expire ::
    "'r redis_client \<Rightarrow> FixedWindowLimiter \<Rightarrow> time \<Rightarrow> string \<Rightarrow> int \<Rightarrow> 'r \<Rightarrow> 'r" where
  "fw_expire client f t key w r = snd (Redis_Expire client t (fixed_key key w) (fw_window f) r)"

definition FixedWindow_Allow ::
    "'r redis_client \<Rightarrow> FixedWindowLimiter \<Rightarrow> clock \<Rightarrow> string \<Rightarrow> 'r \<Rightarrow>
     (bool \<times> go_error option) outcome \<times> 'r" where
  "FixedWindow_Allow client f ts key r =
     (case fw_incr client f (ts 0) (ts 1) key r of
        (Inl p, r) \<Rightarrow> (Inl p, r)
      | (Inr (w, Inl err), r) \<Rightarrow> (Inr (False, Some err), r)
      | (Inr (w, Inr n), r) \<Rightarrow>
          (let r = (if n = 1 then fw_expire client f (ts 2) key w r else r)
           in (Inr (n \<le> fw_limit f, None), r)))"

definition remaining_key :: "string \<Rightarrow> int \<Rightarrow> string" where
  "remaining_key key w = ''ratelimit:'' @ key @ CHR '':'' # Itoa w"

definition FixedWindow_Remaining ::
    "'r redis_client \<Rightarrow> FixedWindowLimiter \<Rightarrow> clock \<Rightarrow> string \<Rightarrow> 'r \<Rightarrow>
     (int \<times> go_error option) outcome \<times> 'r" where
  "FixedWindow_Remaining client f ts key r =
     (case currentWindow f (ts 0) of
        Inl p \<Rightarrow> (Inl p, r)
      | Inr w \<Rightarrow>
          (case Redis_Get client (ts 1) (remaining_key key w) r of
             (Inl err, r) \<Rightarrow>
               if err = redis_Nil then (Inr (fw_limit f, None), r) else (Inr (0, Some err), r)
           | (Inr val, r) \<Rightarrow>
               (let n = fst (Atoi val);
                    remaining = wrap64 (fw_limit f - n)
                in (Inr (if remaining < 0 then 0 else remaining, None), r))))"

definition FixedWindow_Limit :: "FixedWindowLimiter \<Rightarrow> int" where
  "FixedWindow_Limit f = fw_limit f"

definition FixedWindow_Window :: "FixedWindowLimiter \<Rightarrow> duration" where
  "FixedWindow_Window f = fw_window f"

definition FixedWindow_Reset ::
    "FixedWindowLimiter \<Rightarrow> clock \<Rightarrow> string \<Rightarrow> (time \<times> go_error option) outcome" where
  "FixedWindow_Reset f ts key =
     (case currentWindow f (ts 0) of
        Inl p \<Rightarrow> Inl p
      | Inr w \<Rightarrow>
          (let nextWindow = wrap64 (wrap64 (w + 1) * window_seconds f)
           in Inr (nextWindow * Second, None)))"

section \<open>Windows\<close>

text \<open>A window of \<open>s\<close> whole seconds, the only kind the gateway uses.\<close>

definition whole_seconds :: "FixedWindowLimiter \<Rightarrow> int \<Rightarrow> bool" where
  "whole_seconds f s \<longleftrightarrow> fw_window f = s * Second \<and> 0 < s \<and> int64 (fw_window f)"

lemma whole_seconds_range: "whole_seconds f s \<Longrightarrow> 0 < s \<and> s \<le> 9223372036 \<and> s \<noteq> 0"
  by (auto simp: whole_seconds_def int64_def)

lemma window_seconds_whole [simp]: "whole_seconds f s \<Longrightarrow> window_seconds f = s"
  using whole_seconds_range [of f s] Duration_Seconds_whole [of s]
  by (simp add: window_seconds_def whole_seconds_def int64_def)

lemma whole_lifetime: "whole_seconds f s \<Longrightarrow> lifetime (fw_window f)"
  by (simp add: whole_seconds_def lifetime_def)

lemma time_Unix_div:
  "0 < s \<Longrightarrow> time_Unix t div s = w \<longleftrightarrow> w * (s * Second) \<le> t \<and> t < (w + 1) * (s * Second)"
proof -
  assume s: "0 < s"
  have "time_Unix t div s = t div (s * Second)"
    using s zdiv_zmult2_eq [of s t Second] by (simp add: time_Unix_def mult.commute)
  moreover have "t div (s * Second) = w \<longleftrightarrow>
      w * (s * Second) \<le> t \<and> t < (w + 1) * (s * Second)"
  proof
    assume "t div (s * Second) = w"
    then have "t = w * (s * Second) + t mod (s * Second)"
      using div_mult_mod_eq [of t "s * Second"] by simp
    moreover have "0 \<le> t mod (s * Second)" "t mod (s * Second) < s * Second"
      using s by simp_all
    ultimately show "w * (s * Second) \<le> t \<and> t < (w + 1) * (s * Second)"
      unfolding distrib_right mult_1 by linarith
  next
    assume "w * (s * Second) \<le> t \<and> t < (w + 1) * (s * Second)"
    then show "t div (s * Second) = w"
      by (intro int_div_pos_eq [where r = "t - w * (s * Second)"]) (auto simp: algebra_simps)
  qed
  ultimately show ?thesis by simp
qed

section \<open>Concurrent gateways\<close>

text \<open>
  The state: the server, the \<open>EXPIRE\<close> commands that are still to be sent (each with the time
  of the \<open>INCR\<close> it follows), and the replies to the \<open>INCR\<close> commands in the order of their
  execution.  An \<open>INCR\<close> reaches the server before its window has ended there.
\<close>

record 'r fw_sys =
  fw_redis :: 'r
  fw_pending :: "(string \<times> int \<times> time) multiset"
  fw_log :: "(string \<times> int \<times> (go_error + int)) list"

datatype fw_event = Counted string int | ExpirySet string int | Crashed

inductive fw_step ::
    "'r redis_client \<Rightarrow> FixedWindowLimiter \<Rightarrow> 'r fw_sys \<Rightarrow> fw_event \<Rightarrow> 'r fw_sys \<Rightarrow> bool"
  for client :: "'r redis_client" and f :: FixedWindowLimiter where
  fw_step_incr:
    "fw_incr client f now t key (fw_redis s) = (Inr (w, res), r) \<Longrightarrow>
     time_Unix t div window_seconds f = w \<Longrightarrow>
     fw_step client f s (Counted key w)
       (s\<lparr>fw_redis := r,
          fw_pending := (if res = Inr 1 then add_mset (key, w, t) (fw_pending s) else fw_pending s),
          fw_log := fw_log s @ [(key, w, res)]\<rparr>)"
| fw_step_expire:
    "(key, w, t0) \<in># fw_pending s \<Longrightarrow> t0 \<le> t \<Longrightarrow>
     fw_step client f s (ExpirySet key w)
       (s\<lparr>fw_redis := fw_expire client f t key w (fw_redis s),
          fw_pending := fw_pending s - {#(key, w, t0)#}\<rparr>)"
| fw_step_crash:
    "pending \<subseteq># fw_pending s \<Longrightarrow> fw_step client f s Crashed (s\<lparr>fw_pending := pending\<rparr>)"

lemma fw_step_incr_to:
  "fw_incr client f now t key (fw_redis s) = (Inr (w, res), r) \<Longrightarrow>
   time_Unix t div window_seconds f = w \<Longrightarrow>
   s' = s\<lparr>fw_redis := r,
          fw_pending := (if res = Inr 1 then add_mset (key, w, t) (fw_pending s) else fw_pending s),
          fw_log := fw_log s @ [(key, w, res)]\<rparr> \<Longrightarrow>
   fw_step client f s (Counted key w) s'"
  by (simp only: fw_step_incr)

definition admits :: "FixedWindowLimiter \<Rightarrow> go_error + int \<Rightarrow> bool" where
  "admits f res = (case res of Inl e \<Rightarrow> False | Inr n \<Rightarrow> n \<le> fw_limit f)"

definition admitted ::
    "FixedWindowLimiter \<Rightarrow> (string \<times> int \<times> (go_error + int)) list \<Rightarrow> string \<Rightarrow> int \<Rightarrow> nat" where
  "admitted f l key w = length (filter (\<lambda>(k, v, res). k = key \<and> v = w \<and> admits f res) l)"

definition requested ::
    "(string \<times> int \<times> (go_error + int)) list \<Rightarrow> string \<Rightarrow> int \<Rightarrow> nat" where
  "requested l key w = length (filter (\<lambda>(k, v, res). k = key \<and> v = w) l)"

definition no_errors :: "(string \<times> int \<times> (go_error + int)) list \<Rightarrow> bool" where
  "no_errors l = list_all (\<lambda>(k, v, res). \<not> isl res) l"

lemma fixed_key_inj [simp]: "fixed_key k v = fixed_key l w \<longleftrightarrow> k = l \<and> v = w"
  by (simp add: fixed_key_def)

text \<open>What is known of the entry of one window: it holds at least the number \<open>A\<close> of admitted
  requests, exactly the number \<open>R\<close> of requests if none met an error, and it outlives the
  window, which ends at \<open>x\<close>.\<close>

definition fw_entry :: "time \<Rightarrow> nat \<Rightarrow> nat \<Rightarrow> bool \<Rightarrow> rentry option \<Rightarrow> bool" where
  "fw_entry x A R ok ent =
     (case ent of
        None \<Rightarrow> A = 0 \<and> (ok \<longrightarrow> R = 0)
      | Some e \<Rightarrow>
          \<exists>n. rval e = RStr (Itoa n) \<and> int64 n \<and> 1 \<le> n \<and> int A \<le> n \<and> (ok \<longrightarrow> n = int R) \<and>
              (\<forall>y. expires e = Some y \<longrightarrow> x \<le> y))"

definition fw_counts :: "FixedWindowLimiter \<Rightarrow> nat \<Rightarrow> nat \<Rightarrow> bool \<Rightarrow> bool" where
  "fw_counts f A R ok \<longleftrightarrow> A \<le> nat (fw_limit f) \<and> (ok \<longrightarrow> A = min R (nat (fw_limit f)))"

lemma alive_entry: "fw_entry x A R ok (Some e) \<Longrightarrow> t < x \<Longrightarrow> alive t e"
  by (auto simp: fw_entry_def alive_def split: option.splits)

lemma fw_entry_incr:
  assumes "fw_entry x A R ok (db K)" "fw_counts f A R ok" "t < x"
    and "replied db (db_incr t K db) res db'"
  defines "A' \<equiv> A + of_bool (admits f res)"
  shows "fw_entry x A' (Suc R) (ok \<and> \<not> isl res) (db' K) \<and>
    fw_counts f A' (Suc R) (ok \<and> \<not> isl res) \<and> (\<forall>K'. K' \<noteq> K \<longrightarrow> db' K' = db K')"
proof (cases "db K")
  case None
  then have "db_incr t K db = (Inr 1, db(K \<mapsto> \<lparr>rval = RStr (Itoa 1), expires = None\<rparr>))"
    by (simp add: db_incr_def live_def)
  with assms None show ?thesis
    by (auto simp: replied_def fw_entry_def fw_counts_def admits_def int64_def)
next
  case (Some e)
  then have "alive t e" using assms by (auto intro: alive_entry)
  with Some have live: "live t db K = Some e" by (simp add: live_def)
  obtain n where n: "rval e = RStr (Itoa n)" "int64 n" "1 \<le> n" "int A \<le> n" "ok \<longrightarrow> n = int R"
      "\<forall>y. expires e = Some y \<longrightarrow> x \<le> y"
    using assms(1) Some by (auto simp: fw_entry_def)
  have spec: "db_incr t K db =
      (if n < max_int64 then (Inr (n + 1), db(K \<mapsto> e\<lparr>rval := RStr (Itoa (n + 1))\<rparr>))
       else (Inl (Sentinel ''ERR''), db))"
    using n by (simp add: db_incr_def live)
  show ?thesis
  proof (cases res)
    case (Inl err)
    then have "db' = db \<or> n < max_int64 \<and> db' = db(K \<mapsto> e\<lparr>rval := RStr (Itoa (n + 1))\<rparr>)"
      using replied_db [OF assms(4)] spec by (auto split: if_splits)
    then show ?thesis
      using Inl n assms(2) Some
      by (auto simp: A'_def admits_def fw_entry_def fw_counts_def int64_def)
  next
    case (Inr m)
    then have "n < max_int64" "m = n + 1" "db' = db(K \<mapsto> e\<lparr>rval := RStr (Itoa (n + 1))\<rparr>)"
      using replied_Inr [of db _ m db'] assms(4) spec by (auto split: if_splits)
    then show ?thesis
      using Inr n assms(2)
      by (auto simp: A'_def admits_def fw_entry_def fw_counts_def int64_def of_bool_def)
  qed
qed

definition fw_init ::
    "'r redis_client \<Rightarrow> ('r \<Rightarrow> rdb) \<Rightarrow> (time \<Rightarrow> duration \<Rightarrow> time) \<Rightarrow> FixedWindowLimiter \<Rightarrow> int \<Rightarrow>
     'r fw_sys \<Rightarrow> bool" where
  "fw_init client view ttl f s st \<longleftrightarrow>
     redis_conforms client view ttl \<and> whole_seconds f s \<and>
     (\<forall>k w. view (fw_redis st) (fixed_key k w) = None) \<and> fw_pending st = {#} \<and> fw_log st = []"

definition fw_inv ::
    "'r redis_client \<Rightarrow> ('r \<Rightarrow> rdb) \<Rightarrow> (time \<Rightarrow> duration \<Rightarrow> time) \<Rightarrow> FixedWindowLimiter \<Rightarrow> int \<Rightarrow>
     'r fw_sys \<Rightarrow> bool" where
  "fw_inv client view ttl f s st \<longleftrightarrow>
     redis_conforms client view ttl \<and> whole_seconds f s \<and>
     (\<forall>k w. fw_entry ((w + 1) * (s * Second)) (admitted f (fw_log st) k w)
        (requested (fw_log st) k w) (no_errors (fw_log st)) (view (fw_redis st) (fixed_key k w))) \<and>
     (\<forall>k w. fw_counts f (admitted f (fw_log st) k w) (requested (fw_log st) k w)
        (no_errors (fw_log st))) \<and>
     (\<forall>k w t. (k, w, t) \<in># fw_pending st \<longrightarrow> w * (s * Second) \<le> t)"

lemma counts_snoc [simp]:
  "admitted f (l @ [(k, w, res)]) k' w' =
     admitted f l k' w' + of_bool (k' = k \<and> w' = w \<and> admits f res)"
  "requested (l @ [(k, w, res)]) k' w' = requested l k' w' + of_bool (k' = k \<and> w' = w)"
  "no_errors (l @ [(k, w, res)]) = (no_errors l \<and> \<not> isl res)"
  by (auto simp: admitted_def requested_def no_errors_def)

lemma fw_entry_weaken: "fw_entry x A R ok ent \<Longrightarrow> fw_entry x A R (ok \<and> b) ent"
  by (auto simp: fw_entry_def split: option.splits)

lemma fw_counts_weaken: "fw_counts f A R ok \<Longrightarrow> fw_counts f A R (ok \<and> b)"
  by (auto simp: fw_counts_def)

lemma fw_entry_expire:
  assumes "fw_entry x A R ok (db K')" "K' = K \<longrightarrow> x \<le> ttl t d"
    and "replied db (db_expire ttl t K d db) res db'"
  shows "fw_entry x A R ok (db' K')"
  using assms replied_db [OF assms(3)]
  by (auto simp: db_expire_def fw_entry_def live_def split: option.splits if_splits)

lemma fw_inv_incr:
  assumes inv: "fw_inv client view ttl f s st"
    and step: "fw_incr client f now t key (fw_redis st) = (Inr (w, res), r)"
    and w: "time_Unix t div window_seconds f = w"
  shows "fw_inv client view ttl f s
    (st\<lparr>fw_redis := r,
        fw_pending := (if res = Inr 1 then add_mset (key, w, t) (fw_pending st) else fw_pending st),
        fw_log := fw_log st @ [(key, w, res)]\<rparr>)"
proof -
  let ?l = "fw_log st" and ?db = "view (fw_redis st)"
  have conf: "redis_conforms client view ttl" and whole: "whole_seconds f s"
    using inv by (simp_all add: fw_inv_def)
  have s: "0 < s" using whole_seconds_range [OF whole] by simp
  have t: "w * (s * Second) \<le> t" "t < (w + 1) * (s * Second)"
    using w time_Unix_div [OF s, of t w] whole by auto
  have "Redis_Incr client t (fixed_key key w) (fw_redis st) = (res, r)"
    using step by (auto simp: fw_incr_def split: sum.splits prod.splits)
  then have rep: "replied ?db (db_incr t (fixed_key key w) ?db) res (view r)"
    using conf by (rule conforms_Incr [rotated])
  have entry: "fw_entry ((v + 1) * (s * Second)) (admitted f ?l k v) (requested ?l k v)
      (no_errors ?l) (?db (fixed_key k v))" and
    counts: "fw_counts f (admitted f ?l k v) (requested ?l k v) (no_errors ?l)" for k v
    using inv by (simp_all add: fw_inv_def)
  note new = fw_entry_incr [OF entry counts t(2) rep]
  have "fw_entry ((v + 1) * (s * Second)) (admitted f (?l @ [(key, w, res)]) k v)
      (requested (?l @ [(key, w, res)]) k v) (no_errors (?l @ [(key, w, res)]))
      (view r (fixed_key k v)) \<and>
    fw_counts f (admitted f (?l @ [(key, w, res)]) k v)
      (requested (?l @ [(key, w, res)]) k v) (no_errors (?l @ [(key, w, res)]))" for k v
  proof (cases "k = key \<and> v = w")
    case True
    then show ?thesis using new by simp
  next
    case False
    then show ?thesis
      using new entry [of v k] counts [of k v] fw_entry_weaken fw_counts_weaken by auto
  qed
  then show ?thesis
    using inv t(1) by (auto simp: fw_inv_def)
qed

lemma fw_inv_step: "fw_step client f st e st' \<Longrightarrow> fw_inv client view ttl f s st \<Longrightarrow>
    fw_inv client view ttl f s st'"
proof (induction rule: fw_step.induct [consumes 1, case_names incr expire crash])
  case (incr now t key st w res r)
  then show ?case by (blast intro: fw_inv_incr)
next
  case (expire key w t0 st t)
  obtain res r where r: "Redis_Expire client t (fixed_key key w) (fw_window f) (fw_redis st) = (res, r)"
    by fastforce
  have conf: "redis_conforms client view ttl" and whole: "whole_seconds f s"
    using expire by (simp_all add: fw_inv_def)
  note life = whole_lifetime [OF whole]
  have "w * (s * Second) \<le> t" using expire by (force simp: fw_inv_def)
  then have end_w: "(w + 1) * (s * Second) \<le> ttl t (fw_window f)"
    using conforms_ttl [OF conf life, of t] whole
    by (simp add: whole_seconds_def distrib_right)
  have "fw_entry ((v + 1) * (s * Second)) A R ok (view (fw_redis st) (fixed_key k v)) \<Longrightarrow>
      fw_entry ((v + 1) * (s * Second)) A R ok (view r (fixed_key k v))" for A R ok k v
    by (erule fw_entry_expire [OF _ _ conforms_Expire [OF conf life r]]) (use end_w in auto)
  then show ?case
    using expire r by (auto simp: fw_inv_def fw_expire_def dest: in_diffD)
next
  case (crash pending st)
  then show ?case by (auto simp: fw_inv_def dest: mset_subset_eqD)
qed

lemma fw_init_inv: "fw_init client view ttl f s st \<Longrightarrow> fw_inv client view ttl f s st"
  by (auto simp: fw_init_def fw_inv_def fw_entry_def fw_counts_def admitted_def requested_def)

interpretation fixed_window: invariant_system
    "fw_init client view ttl f s" "fw_step client f" "fw_inv client view ttl f s"
  for client view ttl f s
  by unfold_locales (auto intro: fw_init_inv fw_inv_step)

section \<open>Properties\<close>


text \<open>A run of two commands on the in-memory server.\<close>

definition demo_fw :: FixedWindowLimiter where
  "demo_fw = NewFixedWindow 1 Minute"

definition demo_fw_start :: "rdb fw_sys" where
  "demo_fw_start = \<lparr>fw_redis = Map.empty, fw_pending = {#}, fw_log = []\<rparr>"

lemma demo_fw_whole: "whole_seconds demo_fw 60"
  by (simp add: whole_seconds_def demo_fw_def NewFixedWindow_def int64_def)

lemma demo_fw_init: "fw_init mem_client id (\<lambda>t d. t + d) demo_fw 60 demo_fw_start"
  by (simp add: fw_init_def mem_conforms demo_fw_whole demo_fw_start_def)

lemma demo_fw_incr:
  "fw_incr mem_client demo_fw 5 5 ''k'' Map.empty =
     (Inr (0, Inr 1), [fixed_key ''k'' 0 \<mapsto> \<lparr>rval = RStr (Itoa 1), expires = None\<rparr>])"
  "fw_incr mem_client demo_fw 5 5 ''k''
       [fixed_key ''k'' 0 \<mapsto> \<lparr>rval = RStr (Itoa 1), expires = None\<rparr>] =
     (Inr (0, Inr 2), [fixed_key ''k'' 0 \<mapsto> \<lparr>rval = RStr (Itoa 2), expires = None\<rparr>])"
  using demo_fw_whole
  by (simp_all add: fw_incr_def currentWindow_def time_Unix_def Redis_Incr_def mem_client_def
      db_incr_def live_def alive_def int64_def)

lemma demo_fw_run:
  "\<exists>st. run (fw_step mem_client demo_fw) demo_fw_start [Counted ''k'' 0, Counted ''k'' 0] st \<and>
     fw_log st = [(''k'', 0, Inr 1), (''k'', 0, Inr 2)]"
proof -
  let ?key = "fixed_key ''k'' 0"
  let ?s1 = "\<lparr>fw_redis = [?key \<mapsto> \<lparr>rval = RStr (Itoa 1), expires = None\<rparr>],
    fw_pending = {#(''k'', 0, 5)#}, fw_log = [(''k'', 0, Inr 1)]\<rparr>"
  let ?s2 = "\<lparr>fw_redis = [?key \<mapsto> \<lparr>rval = RStr (Itoa 2), expires = None\<rparr>],
    fw_pending = {#(''k'', 0, 5)#}, fw_log = [(''k'', 0, Inr 1), (''k'', 0, Inr 2)]\<rparr>"
  have unix: "time_Unix 5 div window_seconds demo_fw = 0"
    using demo_fw_whole by (simp add: time_Unix_def)
  have "fw_step mem_client demo_fw demo_fw_start (Counted ''k'' 0) ?s1"
    by (rule fw_step_incr_to [where now = 5 and res = "Inr 1", OF _ unix])
      (simp_all add: demo_fw_start_def demo_fw_incr)
  moreover have "fw_step mem_client demo_fw ?s1 (Counted ''k'' 0) ?s2"
    by (rule fw_step_incr_to [where now = 5 and res = "Inr 2", OF _ unix])
      (simp_all add: demo_fw_incr)
  ultimately have "run (fw_step mem_client demo_fw) demo_fw_start
      [Counted ''k'' 0, Counted ''k'' 0] ?s2"
    unfolding run_Cons run_Nil_iff by blast
  then show ?thesis by force
qed


lemma fw_allow_run:
  assumes "FixedWindow_Allow client f ts key (fw_redis st) = (Inr (ok, err), r)"
    and "currentWindow f (ts 0) = Inr w" "time_Unix (ts 1) div window_seconds f = w"
    and "ts 1 \<le> ts 2"
  shows "\<exists>es st' res. run (fw_step client f) st es st' \<and> fw_redis st' = r \<and>
    fw_pending st' = fw_pending st \<and> fw_log st' = fw_log st @ [(key, w, res)] \<and>
    ok = admits f res \<and> err = (case res of Inl e \<Rightarrow> Some e | Inr n \<Rightarrow> None)"
proof -
  obtain res r1 where incr: "fw_incr client f (ts 0) (ts 1) key (fw_redis st) = (Inr (w, res), r1)"
    using assms(2)
    by (cases "Redis_Incr client (ts 1) (fixed_key key w) (fw_redis st)")
      (auto simp: fw_incr_def)
  define st1 where "st1 = st\<lparr>fw_redis := r1,
    fw_pending := (if res = Inr 1 then add_mset (key, w, ts 1) (fw_pending st) else fw_pending st),
    fw_log := fw_log st @ [(key, w, res)]\<rparr>"
  have step1: "fw_step client f st (Counted key w) st1"
    unfolding st1_def by (rule fw_step_incr [OF incr assms(3)])
  show ?thesis
  proof (cases "res = Inr 1")
    case False
    then show ?thesis
      using assms(1) incr step1
      by (intro exI [of _ "[Counted key w]"] exI [of _ st1] exI [of _ res])
        (auto simp: FixedWindow_Allow_def admits_def st1_def split: sum.splits)
  next
    case True
    define st2 where "st2 = st1\<lparr>fw_redis := fw_expire client f (ts 2) key w r1,
      fw_pending := fw_pending st\<rparr>"
    have "fw_step client f st1 (ExpirySet key w) st2"
      using fw_step_expire [of key w "ts 1" st1 "ts 2" client f] True assms(4)
      by (simp add: st1_def st2_def)
    with step1 have "run (fw_step client f) st [Counted key w, ExpirySet key w] st2"
      by (auto simp: run_Cons)
    then show ?thesis
      using assms(1) incr True
      by (intro exI [of _ "[Counted key w, ExpirySet key w]"] exI [of _ st2] exI [of _ res])
        (auto simp: FixedWindow_Allow_def admits_def st1_def st2_def)
  qed
qed

text \<open>\<^bold>\<open>Allow is made of these steps.\<close> A call of \<open>Allow\<close> whose \<open>INCR\<close> reaches the server
  within its window is a run of the concurrent system that appends one reply, leaves no
  command pending, and returns what that reply says.\<close>

theorem fixed_window_allow_refines:
  assumes "FixedWindow_Allow client f ts key (fw_redis st) = (Inr (ok, err), r)"
    and "currentWindow f (ts 0) = Inr w" "time_Unix (ts 1) div window_seconds f = w"
    and "ts 1 \<le> ts 2"
  shows "\<exists>es st' res. run (fw_step client f) st es st' \<and> fw_redis st' = r \<and>
    fw_pending st' = fw_pending st \<and> fw_log st' = fw_log st @ [(key, w, res)] \<and>
    ok = admits f res \<and> err = (case res of Inl e \<Rightarrow> Some e | Inr n \<Rightarrow> None)"
  using assms by (rule fw_allow_run)

lemma demo_fw_Allow:
  "FixedWindow_Allow mem_client demo_fw (\<lambda>i. 5) ''k'' Map.empty =
     (Inr (True, None),
      [fixed_key ''k'' 0 \<mapsto> \<lparr>rval = RStr (Itoa 1), expires = Some (5 + Minute)\<rparr>])"
proof -
  have "fw_expire mem_client demo_fw 5 ''k'' 0
      [fixed_key ''k'' 0 \<mapsto> \<lparr>rval = RStr (Itoa 1), expires = None\<rparr>] =
    [fixed_key ''k'' 0 \<mapsto> \<lparr>rval = RStr (Itoa 1), expires = Some (5 + Minute)\<rparr>]"
    by (simp add: fw_expire_def Redis_Expire_def mem_client_def db_expire_def live_def alive_def
        demo_fw_def NewFixedWindow_def)
  moreover have "fw_limit demo_fw = 1" by (simp add: demo_fw_def NewFixedWindow_def)
  ultimately show ?thesis by (simp add: FixedWindow_Allow_def demo_fw_incr)
qed

theorem fixed_window_allow_refines_witness:
  "\<exists>es st' res. run (fw_step mem_client demo_fw) demo_fw_start es st' \<and>
     fw_log st' = [(''k'', 0, res)] \<and> admits demo_fw res"
proof -
  have "currentWindow demo_fw 5 = Inr 0" "time_Unix 5 div window_seconds demo_fw = 0"
    using demo_fw_whole by (simp_all add: currentWindow_def time_Unix_def int64_def)
  then show ?thesis
    using fixed_window_allow_refines [of mem_client demo_fw "\<lambda>i. 5" "''k''" demo_fw_start]
      demo_fw_Allow by (fastforce simp: demo_fw_start_def)
qed

lemma fixed_key_remaining_key:
  "\<not> prefix ''fixed:'' key \<Longrightarrow> remaining_key key v \<noteq> fixed_key k w"
proof
  assume no: "\<not> prefix ''fixed:'' key" and eq: "remaining_key key v = fixed_key k w"
  have "(''ratelimit:'' @ key) @ CHR '':'' # Itoa v = (''ratelimit:fixed:'' @ k) @ CHR '':'' # Itoa w"
    using eq unfolding remaining_key_def fixed_key_def by (simp only: append.assoc)
  then have "''ratelimit:'' @ key = ''ratelimit:fixed:'' @ k"
    by (subst (asm) colon_key_eq) simp_all
  then have "key = ''fixed:'' @ k" by simp
  then show False using no by simp
qed

lemma fw_step_frame:
  assumes "fw_step client f st e st'" "redis_conforms client view ttl" "whole_seconds f s"
    and "\<And>k w. K \<noteq> fixed_key k w"
  shows "view (fw_redis st') K = view (fw_redis st) K"
  using assms
proof (induction rule: fw_step.induct [consumes 1, case_names incr expire crash])
  case (incr now t key st w res r)
  then have "Redis_Incr client t (fixed_key key w) (fw_redis st) = (res, r)"
    by (auto simp: fw_incr_def split: sum.splits prod.splits)
  from replied_db [OF conforms_Incr [OF incr(3) this]] incr(5)[of key w] show ?case
    by (auto simp: db_incr_def Let_def split: option.splits rvalue.splits)
next
  case (expire key w t0 st t)
  obtain res r where r: "Redis_Expire client t (fixed_key key w) (fw_window f) (fw_redis st) = (res, r)"
    by fastforce
  from replied_db [OF conforms_Expire [OF expire(3) whole_lifetime [OF expire(4)] r]]
    expire(5)[of key w] r show ?case
    by (auto simp: fw_expire_def db_expire_def split: option.splits)
qed simp

lemma fw_run_frame:
  "run (fw_step client f) st es st' \<Longrightarrow> redis_conforms client view ttl \<Longrightarrow> whole_seconds f s \<Longrightarrow>
     (\<And>k w. K \<noteq> fixed_key k w) \<Longrightarrow> view (fw_redis st') K = view (fw_redis st) K"
proof (induction rule: run.induct)
  case (run_snoc s0 es t e u)
  then show ?case using fw_step_frame [OF run_snoc(2)] by metis
qed simp

text \<open>\<^bold>\<open>Remaining never decreases.\<close> \<open>Remaining\<close> reads the key
  \<open>ratelimit:<client>:<window>\<close>, while \<open>Allow\<close> counts under \<open>ratelimit:fixed:<client>:<window>\<close>.
  After any number of requests it therefore reports the whole limit, unless reading fails.\<close>

theorem fixed_window_remaining_constant:
  assumes "fw_init client view ttl f s st0"
    and "run (fw_step client f) st0 es st"
    and "\<And>w. view (fw_redis st0) (remaining_key key w) = None" "\<not> prefix ''fixed:'' key"
  shows "(\<exists>r. FixedWindow_Remaining client f ts key (fw_redis st) = (Inr (fw_limit f, None), r)) \<or>
    (\<exists>e r. FixedWindow_Remaining client f ts key (fw_redis st) = (Inr (0, Some e), r))"
proof -
  have conf: "redis_conforms client view ttl" and whole: "whole_seconds f s"
    using assms(1) by (simp_all add: fw_init_def)
  obtain w where w: "currentWindow f (ts 0) = Inr w"
    using whole whole_seconds_range [OF whole] by (simp add: currentWindow_def)
  obtain res r where get: "Redis_Get client (ts 1) (remaining_key key w) (fw_redis st) = (res, r)"
    by fastforce
  have "view (fw_redis st) (remaining_key key w) = None"
    using fw_run_frame [where view = view, OF assms(2) conf whole
        fixed_key_remaining_key [OF assms(4)]] assms(3) by metis
  then have "db_get (ts 1) (remaining_key key w) (view (fw_redis st)) =
      (Inl redis_Nil, view (fw_redis st))"
    by (simp add: db_get_def live_def)
  then have "\<exists>e. res = Inl e"
    using conforms_Get [OF conf get] by (auto simp: replied_def)
  then obtain e where "res = Inl e" ..
  then show ?thesis
    using w get by (cases "e = redis_Nil") (auto simp: FixedWindow_Remaining_def)
qed

theorem fixed_window_remaining_constant_witness:
  "\<exists>st. run (fw_step mem_client demo_fw) demo_fw_start [Counted ''k'' 0, Counted ''k'' 0] st \<and>
     requested (fw_log st) ''k'' 0 = 2 \<and>
     ((\<exists>r. FixedWindow_Remaining mem_client demo_fw (\<lambda>i. 6) ''k'' (fw_redis st) =
          (Inr (fw_limit demo_fw, None), r)) \<or>
      (\<exists>e r. FixedWindow_Remaining mem_client demo_fw (\<lambda>i. 6) ''k'' (fw_redis st) =
          (Inr (0, Some e), r)))"
proof -
  obtain st where st: "run (fw_step mem_client demo_fw) demo_fw_start
      [Counted ''k'' 0, Counted ''k'' 0] st"
    and l: "fw_log st = [(''k'', 0, Inr 1), (''k'', 0, Inr 2)]"
    using demo_fw_run by blast
  have "(\<exists>r. FixedWindow_Remaining mem_client demo_fw (\<lambda>i. 6) ''k'' (fw_redis st) =
          (Inr (fw_limit demo_fw, None), r)) \<or>
      (\<exists>e r. FixedWindow_Remaining mem_client demo_fw (\<lambda>i. 6) ''k'' (fw_redis st) =
          (Inr (0, Some e), r))"
    by (rule fixed_window_remaining_constant [OF demo_fw_init st])
      (simp_all add: demo_fw_start_def)
  with st l show ?thesis by (auto simp: requested_def)
qed

text \<open>\<^bold>\<open>The reset time.\<close> For a window of whole seconds \<open>Reset\<close> returns without an error the
  first moment of the next window: a multiple of the window, later than now by at most one
  window.\<close>

theorem fixed_window_reset:
  assumes "whole_seconds f s" "0 \<le> ts 0" "time_Unix (ts 0) \<le> 2 ^ 62"
  shows "\<exists>reset. FixedWindow_Reset f ts key = Inr (reset, None) \<and> ts 0 < reset \<and>
    reset \<le> ts 0 + fw_window f \<and> reset mod fw_window f = 0"
proof -
  have s: "0 < s" "s \<le> 9223372036" using whole_seconds_range [OF assms(1)] by simp_all
  define w where "w = time_Unix (ts 0) div s"
  have u: "0 \<le> time_Unix (ts 0)" using assms(2) by (simp add: time_Unix_def)
  have bounds: "w * (s * Second) \<le> ts 0" "ts 0 < (w + 1) * (s * Second)"
    using time_Unix_div [OF s(1), of "ts 0" w] by (simp_all add: w_def)
  have "0 \<le> w" "w * s \<le> time_Unix (ts 0)"
    using u s(1) pos_mod_sign [of s "time_Unix (ts 0)"] minus_mod_eq_div_mult [of "time_Unix (ts 0)" s]
    by (simp_all add: w_def pos_imp_zdiv_nonneg_iff flip: minus_mod_eq_div_mult)
  moreover have "w \<le> w * s" using \<open>0 \<le> w\<close> s(1) by (simp add: mult_le_cancel_left1)
  ultimately have "int64 w" "int64 (w + 1)" "int64 ((w + 1) * s)"
    using assms(3) s by (simp_all add: int64_def distrib_right)
  moreover have "time_Unix (ts 0) sdiv s = w"
    using u s(1) by (simp add: signed_divide_int_def w_def sgn_if)
  ultimately have "FixedWindow_Reset f ts key = Inr ((w + 1) * (s * Second), None)"
    using assms(1) s(1) by (simp add: FixedWindow_Reset_def currentWindow_def algebra_simps)
  then show ?thesis
    using bounds assms(1) by (auto simp: whole_seconds_def distrib_right)
qed

theorem fixed_window_reset_witness:
  "\<exists>reset. FixedWindow_Reset demo_fw (\<lambda>i. 61 * Second) ''k'' = Inr (reset, None) \<and>
     61 * Second < reset \<and> reset \<le> 121 * Second \<and> reset mod Minute = 0"
  using fixed_window_reset [OF demo_fw_whole, of "\<lambda>i. 61 * Second" "''k''"]
  by (simp add: time_Unix_def demo_fw_def NewFixedWindow_def)

end
