(* ===== verification/SlidingWindow.thy ===== *)
theory SlidingWindow
  imports RedisStore Systems
begin

text \<open>
  The sliding-window rate limiter, \<open>src/internal/ratelimit/sliding_window.go\<close>: a sorted set per
  client whose members are the times of the admitted requests in nanoseconds, scored by the
  same number as a \<open>float64\<close>.  \<open>Allow\<close> is split where other requests can interleave: the
  pipeline that removes old members and counts the rest, and the commands that record the
  request.
\<close>

section \<open>The limiter\<close>

record SlidingWindowLimiter =
  sw_limit :: int
  sw_window :: duration

definition NewSlidingWindowLimiter :: "int \<Rightarrow> duration \<Rightarrow> SlidingWindowLimiter" where
  "NewSlidingWindowLimiter limit window = \<lparr>sw_limit = limit, sw_window = window\<rparr>"

definition time_UnixNano :: "time \<Rightarrow> int" where
  "time_UnixNano t = wrap64 t"

definition sliding_key :: "string \<Rightarrow> string" where
  "sliding_key key = ''ratelimit:sliding:'' @ key"

definition windowStart :: "SlidingWindowLimiter \<Rightarrow> time \<Rightarrow> time" where
  "windowStart s now = time_Add now (wrap64 (- sw_window s))"

text \<open>The pipeline, executed by the server at time \<open>t\<close>; \<open>Val()\<close> of a command without a reply
  is 0.\<close>

definition sw_count ::
    "'r redis_client \<Rightarrow> SlidingWindowLimiter \<Rightarrow> time \<Rightarrow> time \<Rightarrow> string \<Rightarrow> 'r \<Rightarrow> (go_error + int) \<times> 'r" where
  "sw_count client s now t key r =
     (let pipe = Redis_Pipeline client;
          pipe = pipe @ [ZRemRangeByScore (sliding_key key) ''0''
                           (Itoa (time_UnixNano (windowStart s now)))];
          pipe = pipe @ [ZCard (sliding_key key)]
      in case Redis_Exec client t pipe r of
           (Inl err, r) \<Rightarrow> (Inl err, r)
         | (Inr replies, r) \<Rightarrow> (Inr (case replies of [removed, n] \<Rightarrow> n | _ \<Rightarrow> 0), r))"

text \<open>Recording the request; the errors of both commands are ignored.\<close>

definition sw_add ::
    "'r redis_client \<Rightarrow> SlidingWindowLimiter \<Rightarrow> time \<Rightarrow> time \<Rightarrow> time \<Rightarrow> string \<Rightarrow> 'r \<Rightarrow> 'r" where
  "sw_add client s now t t' key r =
     (let r = snd (Redis_ZAdd client t (sliding_key key)
                     [(float_of_int (time_UnixNano now), Itoa (time_UnixNano now))] r)
      in snd (Redis_Expire client t' (sliding_key key) (sw_window s) r))"

definition SlidingWindow_Allow ::
    "'r redis_client \<Rightarrow> SlidingWindowLimiter \<Rightarrow> clock \<Rightarrow> string \<Rightarrow> 'r \<Rightarrow>
     (bool \<times> go_error option) \<times> 'r" where
  "SlidingWindow_Allow client s ts key r =
     (case sw_count client s (ts 0) (ts 1) key r of
        (Inl err, r) \<Rightarrow> ((False, Some err), r)
      | (Inr n, r) \<Rightarrow>
          if n < sw_limit s then ((True, None), sw_add client s (ts 0) (ts 2) (ts 3) key r)
          else ((False, None), r))"

definition SlidingWindow_Remaining ::
    "'r redis_client \<Rightarrow> SlidingWindowLimiter \<Rightarrow> clock \<Rightarrow> string \<Rightarrow> 'r \<Rightarrow>
     (int \<times> go_error option) \<times> 'r" where
  "SlidingWindow_Remaining client s ts key r =
     (let now = ts 0
      in case Redis_ZCount client (ts 1) (sliding_key key)
                (Itoa (time_UnixNano (windowStart s now))) (Itoa (time_UnixNano now)) r of
           (Inl err, r) \<Rightarrow> ((0, Some err), r)
         | (Inr n, r) \<Rightarrow>
             (let remaining = wrap64 (sw_limit s - n)
              in ((if remaining < 0 then 0 else remaining, None), r)))"

definition SlidingWindow_Limit :: "SlidingWindowLimiter \<Rightarrow> int" where
  "SlidingWindow_Limit s = sw_limit s"

definition SlidingWindow_Window :: "SlidingWindowLimiter \<Rightarrow> duration" where
  "SlidingWindow_Window s = sw_window s"

definition SlidingWindow_Reset ::
    "'r redis_client \<Rightarrow> SlidingWindowLimiter \<Rightarrow> clock \<Rightarrow> string \<Rightarrow> 'r \<Rightarrow>
     (time \<times> go_error option) \<times> 'r" where
  "SlidingWindow_Reset client s ts key r =
     (case Redis_ZRange client (ts 0) (sliding_key key) 0 0 r of
        (Inl err, r) \<Rightarrow> ((ts 1, None), r)
      | (Inr [], r) \<Rightarrow> ((ts 1, None), r)
      | (Inr (oldest # rest), r) \<Rightarrow> ((time_Add (Sscanf_d oldest) (sw_window s), None), r))"

section \<open>Sorted sets of times\<close>

text \<open>A client whose \<open>ZADD\<close> and \<open>EXPIRE\<close> never fail; the limiter ignores their errors.\<close>

definition reliable_writes ::
    "'r redis_client \<Rightarrow> ('r \<Rightarrow> rdb) \<Rightarrow> (time \<Rightarrow> duration \<Rightarrow> time) \<Rightarrow> bool" where
  "reliable_writes client view ttl \<longleftrightarrow>
     redis_conforms client view ttl \<and>
     (\<forall>t k ms r. apsnd view (c_ZAdd client t k ms r) = db_zadd t k ms (view r)) \<and>
     (\<forall>t k d r. lifetime d \<longrightarrow> apsnd view (c_Expire client t k d r) = db_expire ttl t k d (view r))"

lemma mem_reliable: "reliable_writes mem_client id (\<lambda>t d. t + d)"
  by (simp add: reliable_writes_def mem_conforms) (simp add: mem_client_def)

lemma reliable_view:
  assumes "reliable_writes client view ttl"
  shows "view (snd (Redis_ZAdd client t k ms r)) = snd (db_zadd t k ms (view r))"
    and "lifetime d \<Longrightarrow>
      view (snd (Redis_Expire client t k d r)) = snd (db_expire ttl t k d (view r))"
  using assms unfolding reliable_writes_def Redis_ZAdd_def Redis_Expire_def
  by (metis snd_apsnd)+

definition stamp :: "int \<Rightarrow> string \<times> rat" where
  "stamp e = (Itoa e, fl (of_int e))"

text \<open>The requests of the window that ends at \<open>T\<close>, up to the rounding of the scores.\<close>

definition recent :: "duration \<Rightarrow> time \<Rightarrow> time \<Rightarrow> bool" where
  "recent W T e \<longleftrightarrow> fl (of_int (T - W)) < fl (of_int e)"

lemma recent_less: "recent W T e \<Longrightarrow> T < e + W"
  using fl_mono [of "of_int e" "of_int (T - W)"] unfolding recent_def by (force simp: not_le [symmetric])

lemma recent_mono: "recent W T' e \<Longrightarrow> T \<le> T' \<Longrightarrow> recent W T e"
  using fl_mono [of "of_int (T - W)" "of_int (T' - W)"] unfolding recent_def
  by (meson diff_right_mono le_less_trans of_int_le_iff)

text \<open>Every recent request is a member of the set, which outlives it.\<close>

definition records :: "duration \<Rightarrow> time \<Rightarrow> int set \<Rightarrow> rentry option \<Rightarrow> bool" where
  "records W T E ent \<longleftrightarrow>
     (\<forall>e\<in>E. recent W T e \<longrightarrow>
        (\<exists>en z. ent = Some en \<and> rval en = RZset z \<and> stamp e \<in> set z \<and>
           (\<forall>x. expires en = Some x \<longrightarrow> e + W \<le> x)))"

definition zset_entry :: "rentry option \<Rightarrow> bool" where
  "zset_entry ent \<longleftrightarrow>
     (\<forall>en. ent = Some en \<longrightarrow> (\<exists>z. rval en = RZset z \<and> distinct (map fst z) \<and> set z \<subseteq> range stamp))"

lemma records_mono: "records W T E ent \<Longrightarrow> T \<le> T' \<Longrightarrow> records W T' E ent"
  unfolding records_def using recent_mono by meson

lemma zset_entry_db_zset:
  "zset_entry (db K) \<Longrightarrow> \<exists>z. db_zset t db K = Inr z \<and> distinct (map fst z) \<and> set z \<subseteq> range stamp"
  by (auto simp: zset_entry_def db_zset_def live_def split: option.splits)

lemma records_db_zset:
  assumes "records W T E (db K)" "db_zset t db K = Inr z" "t \<le> T" "e \<in> E" "recent W T e"
  shows "stamp e \<in> set z"
  using assms recent_less [OF assms(5)]
  by (force simp: records_def db_zset_def live_def alive_def split: option.splits)

lemma zset_entry_put:
  "distinct (map fst z) \<Longrightarrow> set z \<subseteq> range stamp \<Longrightarrow> zset_entry (put_zset t K z db K)"
  by (auto simp: zset_entry_def put_zset_def)

lemma put_zset_other [simp]: "K' \<noteq> K \<Longrightarrow> put_zset t K z db K' = db K'"
  by (simp add: put_zset_def)

lemma records_put:
  assumes "records W T E (db K)" "t \<le> T"
    and "\<And>e. e \<in> E \<Longrightarrow> recent W T e \<Longrightarrow> stamp e \<in> set z"
  shows "records W T E (put_zset t K z db K)"
  unfolding records_def
proof (intro ballI impI)
  fix e assume e: "e \<in> E" "recent W T e"
  then obtain en where en: "db K = Some en" "\<forall>x. expires en = Some x \<longrightarrow> e + W \<le> x"
    using assms(1) by (auto simp: records_def)
  then have "live t db K = Some en"
    using recent_less [OF e(2)] assms(2) by (auto simp: live_def alive_def split: option.splits)
  then show "\<exists>en z'. put_zset t K z db K = Some en \<and> rval en = RZset z' \<and> stamp e \<in> set z' \<and>
      (\<forall>x. expires en = Some x \<longrightarrow> e + W \<le> x)"
    using assms(3) [OF e] en by (auto simp: put_zset_def)
qed

lemma db_zset_put [simp]: "db_zset t (put_zset t K z db) K = Inr z"
  by (auto simp: db_zset_def put_zset_def live_def alive_def split: option.splits)

lemma Itoa_0: "''0'' = Itoa 0"
  by code_simp

section \<open>The two parts of Allow\<close>

definition sw_kept :: "int \<Rightarrow> zset \<Rightarrow> zset" where
  "sw_kept start z = filter (\<lambda>(m, x). \<not> in_scores ''0'' (Itoa start) x) z"

lemma sw_kept_props:
  "distinct (map fst z) \<Longrightarrow> distinct (map fst (sw_kept start z))" "set (sw_kept start z) \<subseteq> set z"
  by (auto simp: sw_kept_def distinct_map_filter)

lemma stamp_kept:
  assumes "stamp e \<in> set z" "recent W T e" "int64 start" "start \<le> T - W"
  shows "stamp e \<in> set (sw_kept start z)"
proof -
  have "fl (of_int start) \<le> fl (of_int (T - W))"
    using assms(4) by (intro fl_mono) (simp only: of_int_le_iff)
  then have "\<not> fl (of_int e) \<le> score_bound (Itoa start)"
    using assms(2, 3) by (simp add: score_bound_def recent_def)
  then show ?thesis
    using assms(1) by (auto simp: sw_kept_def stamp_def in_scores_def)
qed

lemma sw_pipeline:
  assumes "db_zset t db K = Inr z"
  shows "db_exec t [ZRemRangeByScore K ''0'' (Itoa start), ZCard K] db =
     (Inr [int (length z) - int (length (sw_kept start z)), int (length (sw_kept start z))],
      put_zset t K (sw_kept start z) db)"
    and "snd (db_exec t (take n [ZRemRangeByScore K ''0'' (Itoa start), ZCard K]) db)
      \<in> {db, put_zset t K (sw_kept start z) db}"
  using assms by (simp_all add: sw_kept_def Let_def take_Cons' )

lemma sw_count_effect:
  assumes conf: "redis_conforms client view ttl"
    and res: "sw_count client s now t key r = (res, r')"
    and start: "time_UnixNano (windowStart s now) = start" "int64 start" "start \<le> t - W"
    and ent: "zset_entry (view r (sliding_key key))" "records W t E (view r (sliding_key key))"
  shows "zset_entry (view r' (sliding_key key))" "records W t E (view r' (sliding_key key))"
    and "\<forall>K. K \<noteq> sliding_key key \<longrightarrow> view r' K = view r K"
    and "res = Inr n \<Longrightarrow> finite E \<Longrightarrow> int (card {e \<in> E. recent W t e}) \<le> n"
proof -
  let ?K = "sliding_key key" and ?db = "view r"
  let ?cmds = "[ZRemRangeByScore ?K ''0'' (Itoa start), ZCard ?K]"
  obtain z where z: "db_zset t ?db ?K = Inr z" "distinct (map fst z)" "set z \<subseteq> range stamp"
    using zset_entry_db_zset [where db = ?db, OF ent(1)] by blast
  obtain reply r1 where exec: "Redis_Exec client t ?cmds r = (reply, r1)" by fastforce
  have reply: "(reply, view r1) = db_exec t ?cmds ?db \<or>
      (\<exists>e n. reply = Inl e \<and> e \<noteq> redis_Nil \<and> view r1 = snd (db_exec t (take n ?cmds) ?db))"
    using conforms_Exec [OF conf _ exec] Itoa_0 by auto
  have r': "r' = r1" and n: "res = Inr n \<Longrightarrow> n = int (length (sw_kept start z))" for n
    using res exec reply sw_pipeline(1) [where start = start, OF z(1)]
    by (auto simp: sw_count_def Redis_Pipeline_def start(1) split: sum.splits)
  have new: "view r' \<in> {?db, put_zset t ?K (sw_kept start z) ?db}"
    using reply sw_pipeline(2) [where start = start, OF z(1)]
    unfolding r' sw_pipeline(1) [where start = start, OF z(1)] by (elim disjE exE conjE) auto
  have kept: "stamp e \<in> set (sw_kept start z)" if "e \<in> E" "recent W t e" for e
    using records_db_zset [OF ent(2) z(1) order_refl that] that start
    by (auto intro: stamp_kept)
  show "zset_entry (view r' ?K)"
    using new ent(1) zset_entry_put [of "sw_kept start z"] sw_kept_props [where z = z and start = start] z(2,3)
    by (auto simp del: set_filter)
  show "records W t E (view r' ?K)"
    using new ent(2) records_put [where db = ?db, OF ent(2) order_refl kept] by auto
  show "\<forall>K. K \<noteq> ?K \<longrightarrow> view r' K = ?db K" using new by auto
  assume "res = Inr n" and fin: "finite E"
  have "stamp ` {e \<in> E. recent W t e} \<subseteq> set (sw_kept start z)" using kept by auto
  then have "card (stamp ` {e \<in> E. recent W t e}) \<le> length (sw_kept start z)"
    by (meson card_length card_mono finite_set order_trans)
  moreover have "inj stamp" by (auto simp: inj_def stamp_def)
  ultimately have "card {e \<in> E. recent W t e} \<le> length (sw_kept start z)"
    by (simp add: card_image inj_on_subset)
  then show "int (card {e \<in> E. recent W t e}) \<le> n" using n [OF \<open>res = Inr n\<close>] by simp
qed

lemma update_set:
  "set (AList.update k v al) \<subseteq> insert (k, v) (set al)" "(k, v) \<in> set (AList.update k v al)"
  "(m, x) \<in> set al \<Longrightarrow> m \<noteq> k \<Longrightarrow> (m, x) \<in> set (AList.update k v al)"
  by (induction al) auto

text \<open>Adding a request at \<open>t\<close> and renewing the expiry.\<close>

lemma sw_add_db:
  assumes "reliable_writes client view ttl" "lifetime (sw_window s)" "int64 now"
    and z: "db_zset t (view r) (sliding_key key) = Inr z"
  shows "view (sw_add client s now t t key r) = (view r)(sliding_key key \<mapsto>
    \<lparr>rval = RZset (AList.update (Itoa now) (fl (of_int now)) z),
     expires = Some (ttl t (sw_window s))\<rparr>)"
proof -
  let ?K = "sliding_key key" and ?m = "[(fl (of_int now), Itoa now)]"
  define z' where "z' = AList.update (Itoa now) (fl (of_int now)) z"
  have add: "view (snd (Redis_ZAdd client t ?K ?m r)) = put_zset t ?K z' (view r)"
    by (simp add: reliable_view(1) [OF assms(1)] db_zadd_def z z'_def)
  have "view (sw_add client s now t t key r) =
      snd (db_expire ttl t ?K (sw_window s) (put_zset t ?K z' (view r)))"
    using assms(3)
    by (simp add: sw_add_def time_UnixNano_def float_of_int_def add
        reliable_view(2) [OF assms(1,2)])
  moreover have "z' \<noteq> []" by (simp add: z'_def)
  ultimately show ?thesis
    by (auto simp: db_expire_def put_zset_def live_def alive_def fun_eq_iff
        simp flip: z'_def split: option.splits)
qed

lemma sw_add_effect:
  assumes rel: "reliable_writes client view ttl" and W: "lifetime (sw_window s)"
    and now: "int64 now" "now \<le> t" and old: "\<forall>e\<in>E. e \<le> t"
    and ent: "zset_entry (view r (sliding_key key))"
      "records (sw_window s) t E (view r (sliding_key key))"
  shows "zset_entry (view (sw_add client s now t t key r) (sliding_key key))"
    and "records (sw_window s) t (insert now E)
      (view (sw_add client s now t t key r) (sliding_key key))"
    and "\<forall>K. K \<noteq> sliding_key key \<longrightarrow> view (sw_add client s now t t key r) K = view r K"
proof -
  let ?K = "sliding_key key" and ?db = "view r" and ?W = "sw_window s"
  obtain z where z: "db_zset t ?db ?K = Inr z" "distinct (map fst z)" "set z \<subseteq> range stamp"
    using zset_entry_db_zset [where db = ?db, OF ent(1)] by blast
  let ?z = "AList.update (Itoa now) (fl (of_int now)) z"
  note db = sw_add_db [OF rel W now(1) z(1)]
  have "stamp now \<in> range stamp" by simp
  then have "set ?z \<subseteq> range stamp"
    using z(3) update_set(1) [of "Itoa now" "fl (of_int now)" z] by (auto simp: stamp_def)
  then show "zset_entry (view (sw_add client s now t t key r) ?K)"
    using z(2) by (auto simp: db zset_entry_def distinct_update)
  have "e + ?W \<le> ttl t ?W" if "e \<in> insert now E" for e
    using conforms_ttl [OF _ W, of client view ttl t] rel that now(2) old
    by (force simp: reliable_writes_def)
  moreover have "stamp e \<in> set ?z" if "e \<in> insert now E" "recent ?W t e" for e
    using update_set(2) [of "Itoa now" "fl (of_int now)" z] that
      update_set(3) [of "Itoa e" "fl (of_int e)" z "Itoa now"]
      records_db_zset [OF ent(2) z(1) order_refl, of e]
    by (cases "e = now") (auto simp: stamp_def)
  ultimately show "records ?W t (insert now E) (view (sw_add client s now t t key r) ?K)"
    by (auto simp: db records_def)
  show "\<forall>K. K \<noteq> ?K \<longrightarrow> view (sw_add client s now t t key r) K = ?db K"
    by (simp add: db)
qed

section \<open>Requests one after the other\<close>

text \<open>
  The state: the server, the time of its last command, and for every request its client, its
  time and whether it was admitted.  A request reaches the server after it was made and after
  the previous one, \<open>ZADD\<close> and \<open>EXPIRE\<close> are executed at the same moment, and two requests of a
  client have different times.
\<close>

record 'r sw_sys =
  sw_redis :: 'r
  sw_clock :: time
  sw_log :: "(string \<times> time \<times> bool) list"

definition sw_times :: "(string \<times> time \<times> bool) list \<Rightarrow> string \<Rightarrow> time list" where
  "sw_times l key = map (\<lambda>(k, now, ok). now) (filter (\<lambda>(k, now, ok). k = key \<and> ok) l)"

inductive sw_step ::
    "'r redis_client \<Rightarrow> SlidingWindowLimiter \<Rightarrow> 'r sw_sys \<Rightarrow> (clock \<times> string) \<Rightarrow> 'r sw_sys \<Rightarrow> bool"
  for client :: "'r redis_client" and s :: SlidingWindowLimiter where
  sw_step_allow:
    "SlidingWindow_Allow client s ts key (sw_redis st) = ((ok, err), r) \<Longrightarrow>
     sw_clock st \<le> ts 1 \<Longrightarrow> ts 0 \<le> ts 1 \<Longrightarrow> ts 1 \<le> ts 2 \<Longrightarrow> ts 3 = ts 2 \<Longrightarrow>
     int64 (ts 0) \<Longrightarrow> sw_window s \<le> ts 0 \<Longrightarrow> ts 0 \<notin> set (sw_times (sw_log st) key) \<Longrightarrow>
     sw_step client s st (ts, key)
       (st\<lparr>sw_redis := r, sw_clock := ts 2, sw_log := sw_log st @ [(key, ts 0, ok)]\<rparr>)"

definition sw_init ::
    "'r redis_client \<Rightarrow> ('r \<Rightarrow> rdb) \<Rightarrow> (time \<Rightarrow> duration \<Rightarrow> time) \<Rightarrow> SlidingWindowLimiter \<Rightarrow>
     'r sw_sys \<Rightarrow> bool" where
  "sw_init client view ttl s st \<longleftrightarrow>
     reliable_writes client view ttl \<and> lifetime (sw_window s) \<and> int64 (sw_window s) \<and>
     (\<forall>key. view (sw_redis st) (sliding_key key) = None) \<and> sw_log st = []"

definition sw_inv ::
    "'r redis_client \<Rightarrow> ('r \<Rightarrow> rdb) \<Rightarrow> (time \<Rightarrow> duration \<Rightarrow> time) \<Rightarrow> SlidingWindowLimiter \<Rightarrow>
     'r sw_sys \<Rightarrow> bool" where
  "sw_inv client view ttl s st \<longleftrightarrow>
     reliable_writes client view ttl \<and> lifetime (sw_window s) \<and> int64 (sw_window s) \<and>
     (\<forall>key. zset_entry (view (sw_redis st) (sliding_key key)) \<and>
        records (sw_window s) (sw_clock st) (set (sw_times (sw_log st) key))
          (view (sw_redis st) (sliding_key key)) \<and>
        distinct (sw_times (sw_log st) key) \<and> (\<forall>e \<in> set (sw_times (sw_log st) key). e \<le> sw_clock st) \<and>
        card {e \<in> set (sw_times (sw_log st) key). recent (sw_window s) (sw_clock st) e}
          \<le> nat (sw_limit s))"

lemma sliding_key_inj [simp]: "sliding_key k = sliding_key l \<longleftrightarrow> k = l"
  by (simp add: sliding_key_def)

lemma sw_times_snoc [simp]:
  "sw_times (l @ [(k, now, ok)]) key = sw_times l key @ (if k = key \<and> ok then [now] else [])"
  by (simp add: sw_times_def)

lemma card_recent_mono:
  "T \<le> T' \<Longrightarrow> card {e \<in> set xs. recent W T' e} \<le> card {e \<in> set xs. recent W T e}"
  by (intro card_mono) (auto intro: recent_mono)

lemma card_insert_filter:
  assumes "finite A"
  shows "card {e \<in> insert x A. P e} \<le> Suc (card {e \<in> A. P e})"
proof -
  have "card {e \<in> insert x A. P e} \<le> card (insert x {e \<in> A. P e})"
    using assms by (intro card_mono) auto
  also have "\<dots> \<le> Suc (card {e \<in> A. P e})" using assms by (simp add: card_insert_if)
  finally show ?thesis .
qed

lemma windowStart_exact:
  assumes "lifetime (sw_window s)" "int64 (sw_window s)" "int64 now" "sw_window s \<le> now"
  shows "time_UnixNano (windowStart s now) = now - sw_window s" "int64 (now - sw_window s)"
  using assms by (auto simp: time_UnixNano_def windowStart_def time_Add_def int64_def lifetime_def)

text \<open>One call of \<open>Allow\<close>: what it leaves in the server, and that it admits only below the limit.\<close>

lemma Allow_effect:
  assumes rel: "reliable_writes client view ttl" and W: "lifetime (sw_window s)" "int64 (sw_window s)"
    and call: "SlidingWindow_Allow client s ts key r = ((ok, err), r')"
    and times: "ts 0 \<le> ts 1" "ts 1 \<le> ts 2" "ts 3 = ts 2" "int64 (ts 0)" "sw_window s \<le> ts 0"
    and E: "finite E" "\<forall>e\<in>E. e \<le> ts 1"
    and ent: "zset_entry (view r (sliding_key key))"
      "records (sw_window s) (ts 1) E (view r (sliding_key key))"
  shows "zset_entry (view r' (sliding_key key))"
    and "records (sw_window s) (ts 2) (if ok then insert (ts 0) E else E) (view r' (sliding_key key))"
    and "\<forall>K. K \<noteq> sliding_key key \<longrightarrow> view r' K = view r K"
    and "ok \<Longrightarrow> int (card {e \<in> E. recent (sw_window s) (ts 1) e}) < sw_limit s"
proof -
  obtain res r1 where cnt: "sw_count client s (ts 0) (ts 1) key r = (res, r1)" by fastforce
  have conf: "redis_conforms client view ttl" using rel by (simp add: reliable_writes_def)
  note start = windowStart_exact [OF W times(4,5)]
  have le: "ts 0 - sw_window s \<le> ts 1 - sw_window s" using times(1) by simp
  note c = sw_count_effect [OF conf cnt start le ent]
  have ent2: "records (sw_window s) (ts 2) E (view r1 (sliding_key key))"
    using c(2) times(2) by (rule records_mono)
  have old: "\<forall>e\<in>E. e \<le> ts 2" "ts 0 \<le> ts 2" using E(2) times by force+
  note a = sw_add_effect [OF rel W(1) times(4) old(2,1) c(1) ent2]
  have "(\<exists>n. res = Inr n \<and> n < sw_limit s \<and> ok \<and> r' = sw_add client s (ts 0) (ts 2) (ts 2) key r1) \<or>
      \<not> ok \<and> r' = r1"
    using call cnt times(3) by (auto simp: SlidingWindow_Allow_def split: sum.splits if_splits)
  then show "zset_entry (view r' (sliding_key key))"
    "records (sw_window s) (ts 2) (if ok then insert (ts 0) E else E) (view r' (sliding_key key))"
    "\<forall>K. K \<noteq> sliding_key key \<longrightarrow> view r' K = view r K"
    "ok \<Longrightarrow> int (card {e \<in> E. recent (sw_window s) (ts 1) e}) < sw_limit s"
    using a c(1,3) ent2 c(4) [OF _ E(1)] by force+
qed

lemma sw_inv_step: "sw_step client s st e st' \<Longrightarrow> sw_inv client view ttl s st \<Longrightarrow>
    sw_inv client view ttl s st'"
proof (induction rule: sw_step.induct [consumes 1, case_names allow])
  case (allow ts key st ok err r)
  let ?l = "sw_log st" and ?W = "sw_window s"
  have rel: "reliable_writes client view ttl" and W: "lifetime ?W" "int64 ?W"
    using allow.prems by (simp_all add: sw_inv_def)
  have inv: "zset_entry (view (sw_redis st) (sliding_key k))"
      "records ?W (ts 1) (set (sw_times ?l k)) (view (sw_redis st) (sliding_key k))"
      "distinct (sw_times ?l k)" "\<forall>e \<in> set (sw_times ?l k). e \<le> ts 1"
      "card {e \<in> set (sw_times ?l k). recent ?W (ts 1) e} \<le> nat (sw_limit s)" for k
    using allow.prems allow(2) card_recent_mono [OF allow(2), where W = ?W]
    by (auto simp: sw_inv_def intro: records_mono order_trans)
  note eff = Allow_effect [OF rel W allow(1,3,4,5,6,7) finite_set inv(4,1,2)]
  have le: "ts 0 \<le> ts 2" and later: "card {e \<in> set xs. recent ?W (ts 2) e} \<le>
      card {e \<in> set xs. recent ?W (ts 1) e}" for xs
    using allow(3,4) card_recent_mono [OF allow(4)] by auto
  have "card {e \<in> set (sw_times (?l @ [(key, ts 0, ok)]) k). recent ?W (ts 2) e} \<le> nat (sw_limit s)"
    for k
  proof (cases "k = key \<and> ok")
    case True
    have "card {e \<in> insert (ts 0) (set (sw_times ?l k)). recent ?W (ts 2) e} \<le>
        Suc (card {e \<in> set (sw_times ?l k). recent ?W (ts 2) e})"
      by (rule card_insert_filter) simp
    then show ?thesis
      using True eff(4) later [of "sw_times ?l k"] by simp
  next
    case False
    then show ?thesis using inv(5) [of k] later [of "sw_times ?l k"] by auto
  qed
  moreover have "records ?W (ts 2) (set (sw_times (?l @ [(key, ts 0, ok)]) k)) (view r (sliding_key k)) \<and>
      zset_entry (view r (sliding_key k))" for k
    using eff(1-3) inv(1,2) [of k] records_mono [OF _ allow(4)] by (cases "k = key"; cases ok) auto
  ultimately show ?case
    using rel W inv(3,4) allow(8) le allow(4) by (fastforce simp: sw_inv_def)
qed

lemma sw_init_inv: "sw_init client view ttl s st \<Longrightarrow> sw_inv client view ttl s st"
  by (auto simp: sw_init_def sw_inv_def zset_entry_def records_def sw_times_def)

interpretation sliding_window: invariant_system
    "sw_init client view ttl s" "sw_step client s" "sw_inv client view ttl s"
  for client view ttl s
  by unfold_locales (auto intro: sw_init_inv sw_inv_step)

text \<open>Scores of times before the year 2116 are off by at most 512 nanoseconds.\<close>

lemma recent_if_later:
  assumes "0 \<le> T - W" "T - W \<le> 2 ^ 62" "0 \<le> e" "e \<le> 2 ^ 62" "T - W + 1024 < e"
  shows "recent W T e"
proof -
  have bound: "\<bar>fl (of_int n) - of_int n\<bar> \<le> 512" if "0 \<le> n" "n \<le> 2 ^ 62" for n
  proof -
    have "(of_int n :: rat) \<le> of_int (2 ^ 62)" using that(2) by (simp only: of_int_le_iff)
    then have "(of_int n :: rat) / 2 ^ 53 \<le> 512" by simp
    then show ?thesis using fl_error [of "of_int n"] that(1) by simp
  qed
  have "(of_int (T - W + 1024) :: rat) < of_int e" using assms(5) by (simp only: of_int_less_iff)
  then show ?thesis
    using bound [OF assms(1,2)] bound [OF assms(3,4)] unfolding recent_def abs_le_iff by simp
qed

section \<open>Properties\<close>


definition demo_sw :: SlidingWindowLimiter where
  "demo_sw = NewSlidingWindowLimiter 1 Second"

definition demo_sw_start :: "rdb sw_sys" where
  "demo_sw_start = \<lparr>sw_redis = Map.empty, sw_clock = 0, sw_log = []\<rparr>"

definition demo_sw_db :: rdb where
  "demo_sw_db = [sliding_key ''k'' \<mapsto>
     \<lparr>rval = RZset [(Itoa 2000000000, 2000000000)], expires = Some 3000000000\<rparr>]"

lemma demo_sw_init: "sw_init mem_client id (\<lambda>t d. t + d) demo_sw demo_sw_start"
  by (simp add: sw_init_def mem_reliable demo_sw_def NewSlidingWindowLimiter_def lifetime_def
      int64_def demo_sw_start_def)

lemma demo_sw_scores:
  "in_scores ''0'' (Itoa 1000000000) 2000000000 = False"
  "in_scores ''0'' (Itoa 1500000000) 2000000000 = False"
  by (simp_all add: in_scores_def score_bound_def int64_def fl_numeral)

lemma demo_sw_Allow:
  "SlidingWindow_Allow mem_client demo_sw (\<lambda>i. 2000000000) ''k'' Map.empty =
     ((True, None), demo_sw_db)"
  "SlidingWindow_Allow mem_client demo_sw (\<lambda>i. 2500000000) ''k'' demo_sw_db =
     ((False, None), demo_sw_db)"
  by (simp_all add: SlidingWindow_Allow_def sw_count_def sw_add_def Redis_Pipeline_def
      Redis_Exec_def Redis_ZAdd_def Redis_Expire_def mem_client_def windowStart_def time_Add_def
      time_UnixNano_def demo_sw_def NewSlidingWindowLimiter_def int64_def db_zset_def live_def
      alive_def put_zset_def db_zadd_def db_expire_def float_of_int_def fl_numeral demo_sw_db_def
      demo_sw_scores fun_eq_iff)


lemma mem_count:
  assumes "db_zset t db (sliding_key key) = Inr z"
  shows "sw_count mem_client s now t key db =
    (Inr (int (length (sw_kept (time_UnixNano (windowStart s now)) z))),
     put_zset t (sliding_key key) (sw_kept (time_UnixNano (windowStart s now)) z) db)"
  unfolding sw_count_def Redis_Pipeline_def Redis_Exec_def mem_client_def Let_def append_Nil
    append_Cons redis_client.simps sw_pipeline(1) [OF assms]
  by simp

text \<open>The first part of \<open>Allow\<close> for several requests \<open>(now, t)\<close> before any of them has run the
  second part.\<close>

fun sw_counts ::
    "'r redis_client \<Rightarrow> SlidingWindowLimiter \<Rightarrow> string \<Rightarrow> (time \<times> time) list \<Rightarrow> 'r \<Rightarrow>
     (go_error + int) list" where
  "sw_counts client s key [] r = []"
| "sw_counts client s key ((now, t) # reqs) r =
     (case sw_count client s now t key r of (res, r) \<Rightarrow> res # sw_counts client s key reqs r)"

text \<open>\<^bold>\<open>Concurrent requests are not limited.\<close> Counting and recording are separate commands.
  When any number of requests count before the first of them records, each is told 0 and,
  if the limit is positive, admitted: the limit does not hold between gateways, even on a
  server that never fails.\<close>

theorem sliding_window_race:
  assumes "0 < sw_limit s" "db (sliding_key key) = None"
  shows "list_all (\<lambda>res. case res of Inl e \<Rightarrow> False | Inr n \<Rightarrow> n < sw_limit s)
    (sw_counts mem_client s key reqs db)"
  using assms(2)
proof (induction reqs arbitrary: db)
  case (Cons req reqs)
  have "db_zset t db (sliding_key key) = Inr []" for t
    using Cons.prems by (simp add: db_zset_def live_def)
  from mem_count [OF this] show ?case
    using Cons assms(1) by (cases req) (simp add: sw_kept_def put_zset_def)
qed simp

theorem sliding_window_race_witness:
  "list_all (\<lambda>res. case res of Inl e \<Rightarrow> False | Inr n \<Rightarrow> n < 1)
     (sw_counts mem_client demo_sw ''k''
        [(2000000000, 2000000010), (2000000001, 2000000011), (2000000002, 2000000012)] Map.empty)"
proof -
  have "sw_limit demo_sw = 1" by (simp add: demo_sw_def NewSlidingWindowLimiter_def)
  then show ?thesis
    using sliding_window_race [of demo_sw Map.empty "''k''"] by (simp only: zero_less_one)
qed

text \<open>Calls of \<open>Allow\<close> one after the other, all at the same time.\<close>

fun sw_repeat :: "'r redis_client \<Rightarrow> SlidingWindowLimiter \<Rightarrow> time \<Rightarrow> string \<Rightarrow> nat \<Rightarrow> 'r \<Rightarrow> bool list" where
  "sw_repeat client s t key 0 r = []"
| "sw_repeat client s t key (Suc n) r =
     (case SlidingWindow_Allow client s (\<lambda>i. t) key r of
        ((ok, err), r) \<Rightarrow> ok # sw_repeat client s t key n r)"

lemma mem_add:
  assumes "lifetime (sw_window s)" "int64 t" "db_zset t db (sliding_key key) = Inr z"
  shows "db_zset t (sw_add mem_client s t t t key db) (sliding_key key) =
    Inr (AList.update (Itoa t) (fl (of_int t)) z)"
  using sw_add_db [OF mem_reliable assms(1,2), where r = db and key = key and t = t] assms
  by (simp add: db_zset_def live_def alive_def lifetime_def)

text \<open>\<^bold>\<open>Requests of the same nanosecond count once.\<close> The member of a request is its time, so
  requests with the same reading of the clock overwrite each other.  With a limit of at
  least 2, any number of them are admitted, one after the other and on a server that never
  fails.\<close>

theorem sliding_window_same_instant:
  assumes "2 \<le> sw_limit s" "lifetime (sw_window s)" "int64 t"
    and "db_zset t db (sliding_key key) = Inr [] \<or> db_zset t db (sliding_key key) = Inr [stamp t]"
  shows "list_all (\<lambda>ok. ok) (sw_repeat mem_client s t key n db)"
  using assms(4)
proof (induction n arbitrary: db)
  case (Suc n)
  then obtain z where z: "db_zset t db (sliding_key key) = Inr z" "z = [] \<or> z = [stamp t]" by blast
  let ?z = "sw_kept (time_UnixNano (windowStart s t)) z"
  let ?db = "put_zset t (sliding_key key) ?z db"
  have kept: "?z = [] \<or> ?z = [stamp t]" using z(2) by (auto simp: sw_kept_def)
  then have "SlidingWindow_Allow mem_client s (\<lambda>i. t) key db =
      ((True, None), sw_add mem_client s t t t key ?db)"
    using assms(1) by (auto simp: SlidingWindow_Allow_def mem_count [OF z(1)])
  moreover have "db_zset t (sw_add mem_client s t t t key ?db) (sliding_key key) = Inr [stamp t]"
    using mem_add [OF assms(2,3) db_zset_put] kept by (auto simp: stamp_def)
  ultimately show ?case using Suc.IH by simp
qed simp

theorem sliding_window_same_instant_witness:
  "list_all (\<lambda>ok. ok)
     (sw_repeat mem_client (NewSlidingWindowLimiter 2 Minute) (90 * Second) ''k'' 5 Map.empty)"
  by (rule sliding_window_same_instant)
    (simp_all add: NewSlidingWindowLimiter_def lifetime_def int64_def db_zset_def live_def)

text \<open>\<^bold>\<open>The reset time.\<close> \<open>Reset\<close> never reports an error.  If the set can be read and is not
  empty, the result is one window after a recorded request whose score is the least;
  otherwise it is the current time.\<close>

theorem sliding_window_reset:
  assumes "redis_conforms client view ttl"
    and "db_zset (ts 0) (view r) (sliding_key key) = Inr z" "set z \<subseteq> stamp ` Collect int64"
  shows "(\<exists>r'. SlidingWindow_Reset client s ts key r = ((ts 1, None), r')) \<or>
    (\<exists>e r'. SlidingWindow_Reset client s ts key r = ((e + sw_window s, None), r') \<and>
       stamp e \<in> set z \<and> (\<forall>p \<in> set z. fl (of_int e) \<le> snd p))"
proof -
  obtain res r' where res: "Redis_ZRange client (ts 0) (sliding_key key) 0 0 r = (res, r')"
    by fastforce
  have rep: "replied (view r) (Inr (take 1 (zset_order z)), view r) res (view r')"
    using conforms_ZRange [OF assms(1) _ _ res] assms(2) by (simp add: db_zrange_def)
  show ?thesis
  proof (cases "res = Inr (take 1 (zset_order z)) \<and> z \<noteq> []")
    case False
    then have "(\<exists>e. res = Inl e) \<or> res = Inr []"
      using rep by (auto simp: replied_def zset_order_def)
    then show ?thesis using res by (auto simp: SlidingWindow_Reset_def)
  next
    case True
    obtain p ps where p: "sort_key snd (sort_key fst z) = p # ps"
      using True by (metis length_sort neq_Nil_conv length_0_conv)
    then have mem: "p \<in> set z" by (metis list.set_intros(1) set_sort)
    then obtain e where e: "p = stamp e" "int64 e" using assms(3) by auto
    have "sorted (map snd (p # ps))" by (metis p sorted_sort_key)
    moreover have "set z = set (p # ps)" by (metis p set_sort)
    ultimately have "\<forall>q \<in> set z. snd p \<le> snd q" by auto
    moreover have "SlidingWindow_Reset client s ts key r = ((e + sw_window s, None), r')"
      using True res e by (simp add: SlidingWindow_Reset_def zset_order_def p stamp_def time_Add_def)
    ultimately show ?thesis using mem e by (auto simp: stamp_def)
  qed
qed

theorem sliding_window_reset_witness:
  "(\<exists>r'. SlidingWindow_Reset mem_client demo_sw (\<lambda>i. 2100000000) ''k'' demo_sw_db =
       ((2100000000, None), r')) \<or>
   (\<exists>e r'. SlidingWindow_Reset mem_client demo_sw (\<lambda>i. 2100000000) ''k'' demo_sw_db =
       ((e + Second, None), r') \<and> stamp e \<in> {(Itoa 2000000000, 2000000000)})"
proof -
  have z: "db_zset 2100000000 demo_sw_db (sliding_key ''k'') = Inr [(Itoa 2000000000, 2000000000)]"
    by (simp add: db_zset_def live_def alive_def demo_sw_db_def)
  have "(Itoa 2000000000, 2000000000) = stamp 2000000000" "int64 2000000000"
    by (simp_all add: stamp_def fl_numeral int64_def)
  then have "set [(Itoa 2000000000, 2000000000 :: rat)] \<subseteq> stamp ` Collect int64" by auto
  then show ?thesis
    using sliding_window_reset [where ts = "\<lambda>i. 2100000000" and s = demo_sw and view = id and
        r = demo_sw_db and key = "''k''", OF mem_conforms] z
    by (auto simp: demo_sw_def NewSlidingWindowLimiter_def)
qed

end
