(* ===== verification/TokenBucket.thy ===== *)
theory TokenBucket
  imports RedisStore Systems
begin

text \<open>
  The token-bucket rate limiter, \<open>src/internal/ratelimit/token_bucket.go\<close>.  The number of tokens
  is a \<open>float64\<close>; the state of a bucket is stored as a JSON text.  Encoding and decoding are
  arguments (a pair \<open>codec\<close>); \<open>bucket_codec\<close> says that decoding inverts encoding on the states the
  limiter stores.  The state that decoding leaves behind after an error, which the source
  ignores, is whatever the decoder returns.
\<close>

section \<open>The limiter\<close>

record TokenBucket =
  capacity :: int
  refillRate :: int
  refillEvery :: duration

record bucketState =
  Tokens :: rat
  LastRefill :: time

type_synonym codec = "(bucketState \<Rightarrow> string) \<times> (string \<Rightarrow> bucketState)"

abbreviation Marshal :: "codec \<Rightarrow> bucketState \<Rightarrow> string" where "Marshal \<equiv> fst"
abbreviation Unmarshal_bucket :: "codec \<Rightarrow> string \<Rightarrow> bucketState" where "Unmarshal_bucket \<equiv> snd"

definition NewTokenBucket :: "int \<Rightarrow> int \<Rightarrow> TokenBucket" where
  "NewTokenBucket cap rate = \<lparr>capacity = cap, refillRate = rate, refillEvery = Second\<rparr>"

definition bucket_key :: "string \<Rightarrow> string" where
  "bucket_key key = ''ratelimit:bucket:'' @ key"

text \<open>The tokens of a bucket at time \<open>now\<close>.\<close>

definition refilled :: "TokenBucket \<Rightarrow> bucketState \<Rightarrow> time \<Rightarrow> rat" where
  "refilled t state now =
     (let elapsed = time_Sub now (LastRefill state);
          tokensToAdd = fl (Duration_Seconds elapsed * float_of_int (refillRate t))
      in min (fl (Tokens state + tokensToAdd)) (float_of_int (capacity t)))"

text \<open>The state after a request, and whether it got a token.\<close>

definition take_token :: "TokenBucket \<Rightarrow> bucketState \<Rightarrow> time \<Rightarrow> bool \<times> bucketState" where
  "take_token t state now =
     (let state = state\<lparr>Tokens := refilled t state now, LastRefill := now\<rparr>
      in if 1 \<le> Tokens state then (True, state\<lparr>Tokens := fl (Tokens state - 1)\<rparr>)
         else (False, state))"

text \<open>Readings of the clock: the server at the \<open>GET\<close>, the two calls of \<open>time.Now()\<close>, the server
  at the \<open>SET\<close>.\<close>

definition TokenBucket_Allow ::
    "'r redis_client \<Rightarrow> codec \<Rightarrow> TokenBucket \<Rightarrow> clock \<Rightarrow> string \<Rightarrow> 'r \<Rightarrow>
     (bool \<times> go_error option) \<times> 'r" where
  "TokenBucket_Allow client codec t ts key r =
     (case Redis_Get client (ts 0) (bucket_key key) r of
        (data, r) \<Rightarrow>
          (case (case data of
                   Inl err \<Rightarrow>
                     if err = redis_Nil
                     then Inr \<lparr>Tokens = float_of_int (capacity t), LastRefill = ts 1\<rparr>
                     else Inl err
                 | Inr d \<Rightarrow> Inr (Unmarshal_bucket codec d)) of
             Inl err \<Rightarrow> ((False, Some err), r)
           | Inr state \<Rightarrow>
               (case take_token t state (ts 2) of
                  (ok, state) \<Rightarrow>
                    ((ok, None),
                     snd (Redis_Set client (ts 3) (bucket_key key) (Marshal codec state) Hour r)))))"

definition TokenBucket_Remaining ::
    "'r redis_client \<Rightarrow> codec \<Rightarrow> TokenBucket \<Rightarrow> clock \<Rightarrow> string \<Rightarrow> 'r \<Rightarrow>
     (int \<times> go_error option) \<times> 'r" where
  "TokenBucket_Remaining client codec t ts key r =
     (case Redis_Get client (ts 0) (bucket_key key) r of
        (Inl err, r) \<Rightarrow> if err = redis_Nil then ((capacity t, None), r) else ((0, Some err), r)
      | (Inr d, r) \<Rightarrow> ((int_of_float (refilled t (Unmarshal_bucket codec d) (ts 1)), None), r))"

definition TokenBucket_Limit :: "TokenBucket \<Rightarrow> int" where
  "TokenBucket_Limit t = capacity t"

definition TokenBucket_Window :: "TokenBucket \<Rightarrow> duration outcome" where
  "TokenBucket_Window t =
     (if refillRate t = 0 then Inl IntegerDivideByZero
      else Inr (wrap64 (wrap64 (capacity t sdiv refillRate t) * Second)))"

text \<open>A division by the refill rate 0 is not finite; its conversion is the one of \<open>amd64\<close>.\<close>

definition TokenBucket_Reset ::
    "'r redis_client \<Rightarrow> codec \<Rightarrow> TokenBucket \<Rightarrow> clock \<Rightarrow> string \<Rightarrow> 'r \<Rightarrow>
     (time \<times> go_error option) \<times> 'r" where
  "TokenBucket_Reset client codec t ts key r =
     (case Redis_Get client (ts 0) (bucket_key key) r of
        (Inl err, r) \<Rightarrow> if err = redis_Nil then ((ts 1, None), r) else ((zero_time, Some err), r)
      | (Inr d, r) \<Rightarrow>
          (let state = Unmarshal_bucket codec d;
               tokensNeeded = fl (float_of_int (capacity t) - Tokens state);
               seconds = (if refillRate t = 0 then min_int64
                          else int_of_float (fl (tokensNeeded / float_of_int (refillRate t))))
           in ((time_Add (ts 1) (wrap64 (seconds * Second)), None), r)))"

section \<open>Tokens\<close>

text \<open>What is required of the parameters: a capacity and a rate that are exact as \<open>float64\<close>.\<close>

definition bucket_ok :: "TokenBucket \<Rightarrow> bool" where
  "bucket_ok t \<longleftrightarrow> 1 \<le> capacity t \<and> capacity t \<le> 2 ^ 53 \<and> 1 \<le> refillRate t \<and> refillRate t \<le> 2 ^ 53"

definition tokens_ok :: "TokenBucket \<Rightarrow> bucketState \<Rightarrow> bool" where
  "tokens_ok t state \<longleftrightarrow>
     0 \<le> Tokens state \<and> Tokens state \<le> of_int (capacity t) \<and> Tokens state \<in> range fl"

lemma bucket_floats:
  assumes "bucket_ok t"
  shows "float_of_int (capacity t) = of_int (capacity t)"
    "float_of_int (refillRate t) = of_int (refillRate t)"
  using assms ieee.exact [of "capacity t"] ieee.exact [of "refillRate t"]
  by (simp_all add: bucket_ok_def float_of_int_def)

lemma time_Sub_nonneg: "u \<le> t \<Longrightarrow> 0 \<le> time_Sub t u \<and> int64 (time_Sub t u)"
  by (auto simp: time_Sub_def int64_def)

lemma refilled_bounds:
  assumes "bucket_ok t" "0 \<le> Tokens st" "LastRefill st \<le> now"
  shows "0 \<le> refilled t st now" "refilled t st now \<le> of_int (capacity t)"
    "refilled t st now \<in> range fl"
proof -
  have "0 \<le> Duration_Seconds (time_Sub now (LastRefill st)) * of_int (refillRate t)"
    using time_Sub_nonneg [OF assms(3)] assms(1)
    by (auto simp: bucket_ok_def intro!: mult_nonneg_nonneg Duration_Seconds_nonneg)
  then have "0 \<le> fl (Tokens st + fl (Duration_Seconds (time_Sub now (LastRefill st)) *
      of_int (refillRate t)))"
    using assms(2) ieee.nonneg by (intro ieee.nonneg) simp
  then show "0 \<le> refilled t st now" "refilled t st now \<le> of_int (capacity t)"
    using assms(1) by (auto simp: refilled_def bucket_floats bucket_ok_def)
  show "refilled t st now \<in> range fl"
    by (auto simp: refilled_def Let_def float_of_int_def min_def)
qed

lemma refilled_full:
  assumes "bucket_ok t" "start \<le> now"
  shows "1 \<le> refilled t \<lparr>Tokens = of_int (capacity t), LastRefill = start\<rparr> now"
proof -
  let ?a = "fl (Duration_Seconds (time_Sub now start) * of_int (refillRate t))"
  have "0 \<le> ?a"
    using time_Sub_nonneg [OF assms(2)] assms(1)
    by (intro ieee.nonneg mult_nonneg_nonneg Duration_Seconds_nonneg) (auto simp: bucket_ok_def)
  then have "1 \<le> fl (of_int (capacity t) + ?a)"
    using assms(1) by (intro ieee.ge_one) (simp add: bucket_ok_def add_increasing2)
  then show ?thesis
    using assms(1) by (simp add: refilled_def bucket_floats) (simp add: bucket_ok_def)
qed

lemma refilled_second:
  assumes "bucket_ok t" "0 \<le> Tokens st" "LastRefill st + Second \<le> now"
  shows "1 \<le> refilled t st now"
proof -
  let ?s = "Duration_Seconds (time_Sub now (LastRefill st))"
  have "Second \<le> time_Sub now (LastRefill st)" using assms(3) by (simp add: time_Sub_def)
  then have "1 \<le> ?s" by (intro Duration_Seconds_ge_one) simp_all
  moreover have "1 \<le> (of_int (refillRate t) :: rat)" using assms(1) by (simp add: bucket_ok_def)
  ultimately have "1 * 1 \<le> ?s * of_int (refillRate t)" by (intro mult_mono) auto
  then have "1 \<le> fl (?s * of_int (refillRate t))" by (intro ieee.ge_one) simp
  then have "1 \<le> fl (Tokens st + fl (?s * of_int (refillRate t)))"
    using assms(2) by (intro ieee.ge_one) simp
  then show ?thesis
    using assms(1) by (simp add: refilled_def bucket_floats) (simp add: bucket_ok_def)
qed

lemma take_token_ok:
  assumes "bucket_ok t" "0 \<le> Tokens st" "LastRefill st \<le> now"
    and "take_token t st now = (ok, st')"
  shows "tokens_ok t st'" "LastRefill st' = now" "ok \<longleftrightarrow> 1 \<le> refilled t st now"
proof -
  let ?T = "refilled t st now"
  note b = refilled_bounds [OF assms(1-3)]
  have "fl (?T - 1) \<le> of_int (capacity t)"
    using b(2) assms(1) by (intro ieee.le_int) (auto simp: bucket_ok_def)
  moreover have "1 \<le> ?T \<Longrightarrow> 0 \<le> fl (?T - 1)" by (intro ieee.nonneg) simp
  ultimately show "tokens_ok t st'" "LastRefill st' = now" "ok \<longleftrightarrow> 1 \<le> ?T"
    using assms(4) b by (auto simp: take_token_def tokens_ok_def Let_def split: if_splits)
qed

text \<open>The accounting of one request: what is left plus what was taken exceeds what was there
  plus the exact refill only by rounding.\<close>

abbreviation ulp :: rat where "ulp \<equiv> 1 / 2 ^ 53"

lemma refilled_upper:
  assumes "bucket_ok t" "tokens_ok t st" "LastRefill st \<le> now" "now - LastRefill st \<le> max_int64"
  shows "refilled t st now \<le> Tokens st + of_int (refillRate t) *
      (of_int (now - LastRefill st) / 10 ^ 9) * (1 + 5 * ulp) + of_int (capacity t) * ulp"
proof -
  define d where "d = now - LastRefill st"
  define q where "q = of_int (refillRate t) * (of_int d / 10 ^ 9 :: rat)"
  have d: "0 \<le> d" "int64 d" "time_Sub now (LastRefill st) = d"
    using assms(3,4) by (simp_all add: d_def int64_def time_Sub_def)
  have q: "0 \<le> q" using d(1) assms(1) by (simp add: q_def bucket_ok_def)
  let ?r = "of_int (refillRate t) :: rat"
  have r: "0 \<le> ?r" using assms(1) by (simp add: bucket_ok_def)
  have T: "0 \<le> Tokens st" "Tokens st \<le> of_int (capacity t)" using assms(2) by (simp_all add: tokens_ok_def)
  have "Duration_Seconds d * ?r \<le> (of_int d / 10 ^ 9 * (1 + ulp)\<^sup>2) * ?r"
    using Duration_Seconds_upper [OF d(1,2)] r by (rule mult_right_mono)
  also have "\<dots> = q * (1 + ulp)\<^sup>2" by (simp add: q_def)
  finally have 1: "Duration_Seconds d * ?r \<le> q * (1 + ulp)\<^sup>2" .
  have 2: "0 \<le> Duration_Seconds d * ?r" using Duration_Seconds_nonneg [OF d(1,2)] r by simp
  have "fl (Duration_Seconds d * ?r) \<le> Duration_Seconds d * ?r * (1 + ulp)"
    by (rule ieee.upper [OF 2])
  also have "\<dots> \<le> q * (1 + ulp)\<^sup>2 * (1 + ulp)" using 1 by (intro mult_right_mono) auto
  finally have 3: "fl (Duration_Seconds d * ?r) \<le> q * (1 + ulp) ^ 3"
    by (simp add: power3_eq_cube power2_eq_square mult.assoc)
  have "refilled t st now \<le> fl (Tokens st + fl (Duration_Seconds d * ?r))"
    by (simp add: refilled_def d(3) bucket_floats [OF assms(1)])
  also have "\<dots> \<le> (Tokens st + fl (Duration_Seconds d * ?r)) * (1 + ulp)"
    using T(1) ieee.nonneg [OF 2] by (intro ieee.upper) simp
  also have "\<dots> \<le> (Tokens st + q * (1 + ulp) ^ 3) * (1 + ulp)"
    using 3 by (intro mult_right_mono) auto
  also have "\<dots> = Tokens st + Tokens st * ulp + q * (1 + ulp) ^ 4"
    by (simp add: algebra_simps power3_eq_cube power4_eq_xxxx)
  also have "\<dots> \<le> Tokens st + of_int (capacity t) * ulp + q * (1 + 5 * ulp)"
  proof -
    have "(1 + ulp) ^ 4 \<le> 1 + 5 * ulp" by (simp add: power4_eq_xxxx)
    then show ?thesis
      using T(2) q by (intro add_mono mult_left_mono mult_right_mono) auto
  qed
  finally show ?thesis by (simp add: q_def d_def)
qed

lemma take_token_upper:
  assumes "bucket_ok t" "tokens_ok t st" "LastRefill st \<le> now"
    and "take_token t st now = (ok, st')"
  shows "Tokens st' + of_bool ok \<le> refilled t st now + of_int (capacity t) * ulp"
proof (cases ok)
  case True
  let ?T = "refilled t st now"
  have b: "0 \<le> Tokens st" using assms(2) by (simp add: tokens_ok_def)
  have T: "1 \<le> ?T" "?T \<le> of_int (capacity t)"
    using take_token_ok(3) [OF assms(1) b assms(3,4)] refilled_bounds(2) [OF assms(1) b assms(3)] True
    by simp_all
  have "fl (?T - 1) \<le> (?T - 1) * (1 + ulp)" using T by (intro ieee.upper) simp
  also have "\<dots> \<le> ?T - 1 + of_int (capacity t) * ulp" using T by (simp add: field_simps)
  finally show ?thesis
    using True assms(4) T by (auto simp: take_token_def Let_def)
next
  case False
  then show ?thesis
    using assms(1,4) by (auto simp: take_token_def Let_def bucket_ok_def split: if_splits)
qed

section \<open>Buckets in the store\<close>

text \<open>Decoding inverts encoding on the states the limiter stores: tokens that are a \<open>float64\<close>, and
  a time between the years 0 and 9999, as the library requires.\<close>

definition encodable :: "bucketState \<Rightarrow> bool" where
  "encodable st \<longleftrightarrow> Tokens st \<in> range fl \<and>
     - 62167219200 * Second \<le> LastRefill st \<and> LastRefill st < 253402300800 * Second"

definition bucket_codec :: "codec \<Rightarrow> bool" where
  "bucket_codec codec \<longleftrightarrow> (\<forall>st. encodable st \<longrightarrow> Unmarshal_bucket codec (Marshal codec st) = st)"

text \<open>A client whose \<open>SET\<close> never fails; the limiter ignores its errors.\<close>

definition reliable_set ::
    "'r redis_client \<Rightarrow> ('r \<Rightarrow> rdb) \<Rightarrow> (time \<Rightarrow> duration \<Rightarrow> time) \<Rightarrow> bool" where
  "reliable_set client view ttl \<longleftrightarrow>
     redis_conforms client view ttl \<and>
     (\<forall>t k v d r. lifetime d \<longrightarrow> apsnd view (c_Set client t k v d r) = db_set ttl t k v d (view r))"

lemma mem_reliable_set: "reliable_set mem_client id (\<lambda>t d. t + d)"
  by (simp add: reliable_set_def mem_conforms) (simp add: mem_client_def)

lemma lifetime_Hour [simp]: "lifetime Hour"
  by (simp add: lifetime_def)

lemma reliable_set_view:
  assumes "reliable_set client view ttl"
  shows "view (snd (Redis_Set client t k v Hour r)) =
    (view r)(k \<mapsto> \<lparr>rval = RStr v, expires = Some (ttl t Hour)\<rparr>)"
proof -
  have "apsnd view (c_Set client t k v Hour r) = db_set ttl t k v Hour (view r)"
    using assms lifetime_Hour unfolding reliable_set_def by blast
  then have "view (snd (c_Set client t k v Hour r)) = snd (db_set ttl t k v Hour (view r))"
    by (metis snd_apsnd)
  then show ?thesis by (simp add: Redis_Set_def db_set_def)
qed

section \<open>Requests one after the other\<close>

text \<open>The state: the server, the time of its last command, and for every request its client,
  its time and whether it was admitted.  Clocks do not run backwards, and idle times stay
  below the 292 years of a \<open>Duration\<close>.\<close>

record 'r tb_sys =
  tb_redis :: 'r
  tb_clock :: time
  tb_log :: "(string \<times> time \<times> bool) list"

inductive tb_step ::
    "'r redis_client \<Rightarrow> codec \<Rightarrow> TokenBucket \<Rightarrow> 'r tb_sys \<Rightarrow> (clock \<times> string) \<Rightarrow> 'r tb_sys \<Rightarrow> bool"
  for client :: "'r redis_client" and codec :: codec and t :: TokenBucket where
  tb_step_allow:
    "TokenBucket_Allow client codec t ts key (tb_redis st) = ((ok, err), r) \<Longrightarrow>
     tb_clock st \<le> ts 0 \<Longrightarrow> ts 0 \<le> ts 1 \<Longrightarrow> ts 1 \<le> ts 2 \<Longrightarrow> ts 2 \<le> ts 3 \<Longrightarrow>
     0 \<le> ts 0 \<Longrightarrow> ts 2 \<le> max_int64 \<Longrightarrow>
     tb_step client codec t st (ts, key)
       (st\<lparr>tb_redis := r, tb_clock := ts 3, tb_log := tb_log st @ [(key, ts 2, ok)]\<rparr>)"

definition requests :: "(string \<times> time \<times> bool) list \<Rightarrow> string \<Rightarrow> (time \<times> bool) list" where
  "requests l key = map snd (filter (\<lambda>(k, now, ok). k = key) l)"

definition grants :: "(time \<times> bool) list \<Rightarrow> nat" where
  "grants l = length (filter snd l)"

text \<open>The most that requests until \<open>now\<close> can have been granted: the capacity, the exact refill
  since the first request, and a rounding error for each request.\<close>

definition budget :: "TokenBucket \<Rightarrow> (time \<times> bool) list \<Rightarrow> time \<Rightarrow> rat" where
  "budget t l now =
     of_int (capacity t) +
     of_int (refillRate t) * (of_int (now - fst (hd l)) / 10 ^ 9) * (1 + 5 * ulp) +
     of_nat (length l) * (of_int (capacity t) * (2 * ulp))"

definition bucket_entry ::
    "codec \<Rightarrow> TokenBucket \<Rightarrow> (time \<times> bool) list \<Rightarrow> rentry option \<Rightarrow> bool" where
  "bucket_entry codec t l ent =
     (case ent of
        None \<Rightarrow> grants l = 0
      | Some en \<Rightarrow>
          l \<noteq> [] \<and>
          (\<exists>st x. rval en = RStr (Marshal codec st) \<and> tokens_ok t st \<and> expires en = Some x \<and>
             LastRefill st + Hour \<le> x \<and> LastRefill st \<in> fst ` set l \<and>
             of_nat (grants l) + Tokens st \<le> budget t l (LastRefill st)))"

definition tb_init ::
    "'r redis_client \<Rightarrow> ('r \<Rightarrow> rdb) \<Rightarrow> (time \<Rightarrow> duration \<Rightarrow> time) \<Rightarrow> codec \<Rightarrow> TokenBucket \<Rightarrow>
     'r tb_sys \<Rightarrow> bool" where
  "tb_init client view ttl codec t st \<longleftrightarrow>
     reliable_set client view ttl \<and> bucket_codec codec \<and> bucket_ok t \<and>
     capacity t \<le> 3600 * refillRate t \<and>
     (\<forall>key. view (tb_redis st) (bucket_key key) = None) \<and> tb_log st = []"

definition tb_inv ::
    "'r redis_client \<Rightarrow> ('r \<Rightarrow> rdb) \<Rightarrow> (time \<Rightarrow> duration \<Rightarrow> time) \<Rightarrow> codec \<Rightarrow> TokenBucket \<Rightarrow>
     'r tb_sys \<Rightarrow> bool" where
  "tb_inv client view ttl codec t st \<longleftrightarrow>
     reliable_set client view ttl \<and> bucket_codec codec \<and> bucket_ok t \<and>
     capacity t \<le> 3600 * refillRate t \<and>
     (\<forall>key. bucket_entry codec t (requests (tb_log st) key) (view (tb_redis st) (bucket_key key)) \<and>
        sorted (map fst (requests (tb_log st) key)) \<and>
        (\<forall>p \<in> set (requests (tb_log st) key). 0 \<le> fst p \<and> fst p \<le> tb_clock st \<and> fst p \<le> max_int64))"

lemma bucket_key_inj [simp]: "bucket_key k = bucket_key l \<longleftrightarrow> k = l"
  by (simp add: bucket_key_def)

lemma requests_snoc [simp]:
  "requests (l @ [(k, now, ok)]) key = requests l key @ (if k = key then [(now, ok)] else [])"
  by (simp add: requests_def)

lemma grants_snoc [simp]: "grants (l @ [(now, ok)]) = grants l + of_bool ok"
  by (simp add: grants_def)

lemma budget_snoc:
  assumes "bucket_ok t" "l \<noteq> []"
  shows "budget t (l @ [p]) now = budget t l now + of_int (capacity t) * (2 * ulp)"
  using assms by (simp add: budget_def field_simps)

lemma budget_mono:
  assumes "bucket_ok t" "now \<le> now'"
  shows "budget t l now \<le> budget t l now'"
  unfolding budget_def using assms
  by (intro add_right_mono add_left_mono mult_right_mono mult_left_mono divide_right_mono)
    (auto simp: bucket_ok_def)

lemma budget_refill:
  "budget t l now + of_int (refillRate t) * (of_int (now' - now) / 10 ^ 9) * (1 + 5 * ulp) =
     budget t l now'"
  by (simp add: budget_def algebra_simps add_divide_distrib diff_divide_distrib)

text \<open>One granted or refused request against a stored bucket.\<close>

lemma account_stored:
  assumes ok: "bucket_ok t" "tokens_ok t st" "LastRefill st \<le> now" "now - LastRefill st \<le> max_int64"
    and l: "l \<noteq> []" "of_nat (grants l) + Tokens st \<le> budget t l (LastRefill st)"
    and take: "take_token t st now = (g, st')"
  shows "of_nat (grants (l @ [(now, g)])) + Tokens st' \<le> budget t (l @ [(now, g)]) now"
proof -
  let ?gain = "of_int (refillRate t) * (of_int (now - LastRefill st) / 10 ^ 9) * (1 + 5 * ulp)"
  have "Tokens st' + of_bool g \<le> Tokens st + ?gain + of_int (capacity t) * ulp + of_int (capacity t) * ulp"
    using take_token_upper [OF ok(1-3) take] refilled_upper [OF ok] by linarith
  then have "of_nat (grants l) + (Tokens st' + of_bool g) \<le>
      budget t l (LastRefill st) + ?gain + of_int (capacity t) * (2 * ulp)"
    using l(2) by simp
  then show ?thesis
    unfolding budget_refill budget_snoc [OF ok(1) l(1)] by simp
qed

text \<open>A request that finds no bucket starts with a full one.\<close>

lemma account_fresh:
  assumes ok: "bucket_ok t" "start \<le> now"
    and take: "take_token t \<lparr>Tokens = of_int (capacity t), LastRefill = start\<rparr> now = (g, st')"
  shows "Tokens st' + of_bool g \<le> of_int (capacity t) + of_int (capacity t) * (2 * ulp)"
proof -
  let ?st = "\<lparr>Tokens = of_int (capacity t), LastRefill = start\<rparr>"
  have "float_of_int (capacity t) \<in> range fl" by (simp add: float_of_int_def)
  then have st: "tokens_ok t ?st"
    using ok(1) by (simp add: tokens_ok_def bucket_floats) (simp add: bucket_ok_def)
  have "0 \<le> (of_int (capacity t) :: rat) * ulp" using ok(1) by (simp add: bucket_ok_def)
  then show ?thesis
    using take_token_upper [OF ok(1) st _ take] ok(2) st refilled_bounds(2) [OF ok(1), of ?st now]
    by (simp add: tokens_ok_def)
qed

lemma hd_le_last:
  "sorted (map fst l) \<Longrightarrow> \<forall>p \<in> set l. fst p \<le> now \<Longrightarrow> fst (hd (l @ [(now, g)])) \<le> now"
  by (cases l) auto

lemma budget_fresh:
  assumes "bucket_ok t" "fst (hd l) \<le> now" "l \<noteq> []"
  shows "of_int (capacity t) + of_int (capacity t) * (2 * ulp) \<le> budget t l now"
proof -
  have "1 * (of_int (capacity t) * (2 * ulp)) \<le> of_nat (length l) * (of_int (capacity t) * (2 * ulp))"
    using assms by (intro mult_right_mono) (auto simp: bucket_ok_def Suc_le_eq)
  moreover have "0 \<le> of_int (refillRate t) * (of_int (now - fst (hd l)) / 10 ^ 9) * (1 + 5 * ulp)"
    using assms by (intro mult_nonneg_nonneg) (auto simp: bucket_ok_def)
  ultimately show ?thesis unfolding budget_def by linarith
qed

text \<open>Between its expiry and its last refill a bucket would have been filled completely.\<close>

lemma budget_expired:
  assumes "bucket_ok t" "capacity t \<le> 3600 * refillRate t" "filled + Hour \<le> now"
  shows "budget t l filled + of_int (capacity t) \<le> budget t l now"
proof -
  have "(of_int (capacity t) :: rat) \<le> of_int (3600 * refillRate t)"
    using assms(2) by (simp only: of_int_le_iff)
  also have "\<dots> = of_int (refillRate t) * (of_int Hour / 10 ^ 9)" by simp
  also have "\<dots> \<le> of_int (refillRate t) * (of_int (now - filled) / 10 ^ 9)"
  proof -
    have "(of_int Hour :: rat) \<le> of_int (now - filled)" using assms(3) by (simp only: of_int_le_iff)
    then show ?thesis using assms(1) by (intro mult_left_mono divide_right_mono) (auto simp: bucket_ok_def)
  qed
  also have "\<dots> \<le> of_int (refillRate t) * (of_int (now - filled) / 10 ^ 9) * (1 + 5 * ulp)"
    using assms(1,3) by (simp add: bucket_ok_def field_simps)
  finally show ?thesis using budget_refill [of t l filled now] by linarith
qed

lemma entry_stored:
  assumes "tokens_ok t st" "now = LastRefill st" "now + Hour \<le> x"
    and "of_nat (grants (l @ [(now, g)])) + Tokens st \<le> budget t (l @ [(now, g)]) now"
  shows "bucket_entry codec t (l @ [(now, g)]) (Some \<lparr>rval = RStr (Marshal codec st), expires = Some x\<rparr>)"
  using assms by (auto simp: bucket_entry_def)

lemma entry_refused:
  assumes "bucket_ok t" "bucket_entry codec t l ent"
  shows "bucket_entry codec t (l @ [(now, False)]) ent"
proof -
  have "0 \<le> (of_int (capacity t) :: rat) * (2 * ulp)" using assms(1) by (simp add: bucket_ok_def)
  then show ?thesis
    using assms budget_snoc [OF assms(1), of l "(now, False)"]
    by (fastforce simp: bucket_entry_def split: option.splits)
qed

text \<open>The part of \<open>Allow\<close> between the two commands: the state it works on.\<close>

lemma Allow_cases:
  assumes rel: "reliable_set client view ttl"
    and call: "TokenBucket_Allow client codec t ts key r = ((g, err), r')"
  obtains (failed) e where "g = False" "err = Some e" "view r' = view r"
  | (granted) st st' where
      "st = \<lparr>Tokens = float_of_int (capacity t), LastRefill = ts 1\<rparr> \<and>
         live (ts 0) (view r) (bucket_key key) = None \<or>
       (\<exists>en d. live (ts 0) (view r) (bucket_key key) = Some en \<and> rval en = RStr d \<and>
          st = Unmarshal_bucket codec d)"
      "take_token t st (ts 2) = (g, st')" "err = None"
      "view r' = (view r)(bucket_key key \<mapsto>
         \<lparr>rval = RStr (Marshal codec st'), expires = Some (ttl (ts 3) Hour)\<rparr>)"
proof -
  let ?K = "bucket_key key"
  obtain data r1 where get: "Redis_Get client (ts 0) ?K r = (data, r1)" by fastforce
  have "redis_conforms client view ttl" using rel by (simp add: reliable_set_def)
  note rep = conforms_Get [OF this get]
  have db: "view r1 = view r"
    using replied_db [OF rep] by (auto simp: db_get_def split: option.splits rvalue.splits)
  show thesis
  proof (cases data)
    case (Inl e)
    show thesis
    proof (cases "e = redis_Nil")
      case False
      then show thesis using call get Inl db by (intro failed) (auto simp: TokenBucket_Allow_def)
    next
      case True
      let ?st = "\<lparr>Tokens = float_of_int (capacity t), LastRefill = ts 1\<rparr>"
      obtain st' where "take_token t ?st (ts 2) = (g, st')"
        using call get Inl True by (auto simp: TokenBucket_Allow_def split: prod.splits)
      moreover have "live (ts 0) (view r) ?K = None"
        using replied_Nil [of "view r" _ "view r1"] rep Inl True
        by (auto simp: db_get_def WRONGTYPE_def redis_Nil_def split: option.splits rvalue.splits)
      ultimately show thesis
        using call get Inl True db
        by (intro granted [of ?st st']) (auto simp: TokenBucket_Allow_def reliable_set_view [OF rel])
    qed
  next
    case (Inr d)
    obtain st' where "take_token t (Unmarshal_bucket codec d) (ts 2) = (g, st')"
      using call get Inr by (auto simp: TokenBucket_Allow_def split: prod.splits)
    moreover have "\<exists>en. live (ts 0) (view r) ?K = Some en \<and> rval en = RStr d"
      using replied_Inr [of "view r" _ d "view r1"] rep Inr
      by (auto simp: db_get_def split: option.splits rvalue.splits)
    ultimately show thesis
      using call get Inr db
      by (intro granted [of "Unmarshal_bucket codec d" st'])
        (auto simp: TokenBucket_Allow_def reliable_set_view [OF rel])
  qed
qed

text \<open>A bucket that was never stored, or whose entry has expired, starts full; the hour of its
  entry has refilled it.\<close>

lemma account_lost:
  assumes ok: "bucket_ok t" and cap: "capacity t \<le> 3600 * refillRate t"
    and ent: "bucket_entry codec t l (db K)" and none: "live t0 db K = None" and "t0 \<le> t2"
    and hd: "fst (hd (l @ [(t2, g)])) \<le> t2"
    and new: "Tokens st' + of_bool g \<le> of_int (capacity t) + of_int (capacity t) * (2 * ulp)"
  shows "of_nat (grants (l @ [(t2, g)])) + Tokens st' \<le> budget t (l @ [(t2, g)]) t2"
proof (cases "db K")
  case None
  then show ?thesis using new budget_fresh [OF ok hd] ent by (simp add: bucket_entry_def)
next
  case (Some en)
  then obtain old y where old: "tokens_ok t old" "expires en = Some y" "LastRefill old + Hour \<le> y"
      "of_nat (grants l) + Tokens old \<le> budget t l (LastRefill old)" and "l \<noteq> []"
    using ent by (auto simp: bucket_entry_def)
  have "y \<le> t0" using none Some old(2) by (simp add: live_def alive_def split: if_splits)
  then have "budget t l (LastRefill old) + of_int (capacity t) \<le> budget t l t2"
    using budget_expired [OF ok cap] old(3) assms(5) by simp
  then show ?thesis
    using new old(1,4) budget_snoc [OF ok \<open>l \<noteq> []\<close>] by (simp add: tokens_ok_def)
qed

lemma Allow_entry:
  assumes rel: "reliable_set client view ttl" and cod: "bucket_codec codec" and ok: "bucket_ok t"
    and cap: "capacity t \<le> 3600 * refillRate t"
    and call: "TokenBucket_Allow client codec t ts key r = ((g, err), r')"
    and times: "0 \<le> ts 0" "ts 0 \<le> ts 1" "ts 1 \<le> ts 2" "ts 2 \<le> ts 3" "ts 2 \<le> max_int64"
    and l: "sorted (map fst l)" "\<forall>p \<in> set l. 0 \<le> fst p \<and> fst p \<le> ts 0 \<and> fst p \<le> max_int64"
    and ent: "bucket_entry codec t l (view r (bucket_key key))"
  shows "bucket_entry codec t (l @ [(ts 2, g)]) (view r' (bucket_key key)) \<and>
    (\<forall>K. K \<noteq> bucket_key key \<longrightarrow> view r' K = view r K)"
  using rel call
proof (cases rule: Allow_cases)
  case (failed e)
  then show ?thesis using entry_refused [OF ok ent] by simp
next
  case (granted st st')
  let ?K = "bucket_key key" and ?l = "l @ [(ts 2, g)]"
  have hd: "fst (hd ?l) \<le> ts 2" using l times by (intro hd_le_last) force+
  have conf: "redis_conforms client view ttl" using rel by (simp add: reliable_set_def)
  have x: "ts 2 + Hour \<le> ttl (ts 3) Hour"
    using conforms_ttl [OF conf lifetime_Hour, of "ts 3"] times(4) by linarith
  have key: "0 \<le> Tokens st \<and> LastRefill st \<le> ts 2 \<and>
      of_nat (grants ?l) + Tokens st' \<le> budget t ?l (ts 2)"
    using granted(1)
  proof (elim disjE exE conjE)
    assume st: "st = \<lparr>Tokens = float_of_int (capacity t), LastRefill = ts 1\<rparr>"
      and none: "live (ts 0) (view r) ?K = None"
    have new: "Tokens st' + of_bool g \<le> of_int (capacity t) + of_int (capacity t) * (2 * ulp)"
      using account_fresh [OF ok times(3)] granted(2) st by (simp add: bucket_floats [OF ok])
    have "of_nat (grants ?l) + Tokens st' \<le> budget t ?l (ts 2)"
      by (rule account_lost [OF ok cap ent none _ hd new]) (use times in simp)
    then show ?thesis
      using st times ok by (simp add: bucket_floats) (simp add: bucket_ok_def)
  next
    fix en d
    assume some: "live (ts 0) (view r) ?K = Some en" "rval en = RStr d"
      and st: "st = Unmarshal_bucket codec d"
    then have "view r ?K = Some en" by (simp add: live_def split: option.splits if_splits)
    then obtain old where old: "d = Marshal codec old" "tokens_ok t old" "LastRefill old \<in> fst ` set l"
        "of_nat (grants l) + Tokens old \<le> budget t l (LastRefill old)" and "l \<noteq> []"
      using ent some(2) by (auto simp: bucket_entry_def)
    have range: "0 \<le> LastRefill old" "LastRefill old \<le> ts 2" "LastRefill old \<le> max_int64"
      using old(3) l(2) times by auto
    then have "st = old"
      using cod old(1,2) st by (simp add: bucket_codec_def encodable_def tokens_ok_def)
    then show ?thesis
      using account_stored [OF ok old(2) range(2) _ \<open>l \<noteq> []\<close> old(4)] granted(2) range times(5) old(2)
      by (auto simp: tokens_ok_def)
  qed
  then have st': "tokens_ok t st'" "LastRefill st' = ts 2"
    using take_token_ok [OF ok _ _ granted(2)] by simp_all
  then show ?thesis
    using entry_stored [OF st'(1) st'(2) [symmetric] x] key granted(4) by simp
qed

lemma tb_inv_step: "tb_step client codec t st e st' \<Longrightarrow> tb_inv client view ttl codec t st \<Longrightarrow>
    tb_inv client view ttl codec t st'"
proof (induction rule: tb_step.induct [consumes 1, case_names allow])
  case (allow ts key st ok err r)
  let ?l = "requests (tb_log st)"
  have par: "reliable_set client view ttl" "bucket_codec codec" "bucket_ok t"
      "capacity t \<le> 3600 * refillRate t"
    using allow.prems by (simp_all add: tb_inv_def)
  have inv: "bucket_entry codec t (?l k) (view (tb_redis st) (bucket_key k))" "sorted (map fst (?l k))"
      "\<forall>p \<in> set (?l k). 0 \<le> fst p \<and> fst p \<le> ts 0 \<and> fst p \<le> max_int64" for k
    using allow.prems allow(2) by (force simp: tb_inv_def)+
  note eff = Allow_entry [OF par allow(1,6,3,4,5,7) inv(2,3,1)]
  have "bucket_entry codec t (requests (tb_log st @ [(key, ts 2, ok)]) k) (view r (bucket_key k))" for k
    using eff inv(1) [of k] by (cases "k = key") auto
  moreover have "sorted (map fst (requests (tb_log st @ [(key, ts 2, ok)]) k))" for k
    using inv(2,3) [of k] allow(3,4) by (force simp: sorted_append)
  moreover have "\<forall>p \<in> set (requests (tb_log st @ [(key, ts 2, ok)]) k).
      0 \<le> fst p \<and> fst p \<le> ts 3 \<and> fst p \<le> max_int64" for k
    using inv(3) [of k] allow by force
  ultimately show ?case using par by (simp add: tb_inv_def)
qed

lemma tb_init_inv: "tb_init client view ttl codec t st \<Longrightarrow> tb_inv client view ttl codec t st"
  by (auto simp: tb_init_def tb_inv_def bucket_entry_def requests_def grants_def)

interpretation token_bucket: invariant_system
    "tb_init client view ttl codec t" "tb_step client codec t" "tb_inv client view ttl codec t"
  for client view ttl codec t
  by unfold_locales (auto intro: tb_init_inv tb_inv_step)

lemma admits_after_second:
  assumes "tb_init client view ttl codec t st0" "run (tb_step client codec t) st0 es st"
    and "tb_step client codec t st (ts, key) st'"
    and "TokenBucket_Allow client codec t ts key (tb_redis st) = ((ok, None), r)"
    and "\<forall>p \<in> set (requests (tb_log st) key). fst p + Second \<le> ts 2"
  shows "ok"
proof -
  let ?l = "requests (tb_log st) key"
  have inv: "tb_inv client view ttl codec t st" by (rule token_bucket.inv_reachable [OF assms(1,2)])
  then have rel: "reliable_set client view ttl" and cod: "bucket_codec codec" and okt: "bucket_ok t"
    and ent: "bucket_entry codec t ?l (view (tb_redis st) (bucket_key key))"
    and l: "\<forall>p \<in> set ?l. 0 \<le> fst p \<and> fst p \<le> max_int64"
    by (simp_all add: tb_inv_def)
  have times: "ts 1 \<le> ts 2" "ts 2 \<le> max_int64"
    using assms(3) by (auto elim: tb_step.cases)
  from rel assms(4) show ok
  proof (cases rule: Allow_cases)
    case (granted s s')
    from granted(1) have "1 \<le> refilled t s (ts 2) \<and> 0 \<le> Tokens s \<and> LastRefill s \<le> ts 2"
    proof (elim disjE exE conjE)
      assume s: "s = \<lparr>Tokens = float_of_int (capacity t), LastRefill = ts 1\<rparr>"
      then show ?thesis
        using refilled_full [OF okt, of "ts 1" "ts 2"] okt times
        by (simp add: bucket_floats) (simp add: bucket_ok_def)
    next
      fix en d
      assume "live (ts 0) (view (tb_redis st)) (bucket_key key) = Some en" "rval en = RStr d"
        and s: "s = Unmarshal_bucket codec d"
      then obtain old where old: "d = Marshal codec old" "tokens_ok t old" "LastRefill old \<in> fst ` set ?l"
        using ent by (auto simp: bucket_entry_def live_def split: option.splits if_splits)
      then have range: "0 \<le> LastRefill old" "LastRefill old \<le> max_int64" "LastRefill old + Second \<le> ts 2"
        using l assms(5) by auto
      then have "s = old"
        using cod old(1,2) s by (simp add: bucket_codec_def encodable_def tokens_ok_def)
      then show ?thesis
        using refilled_second [OF okt _ range(3)] old(2) range by (simp add: tokens_ok_def)
    qed
    then show ok using take_token_ok(3) [OF okt _ _ granted(2)] by simp
  qed simp
qed

section \<open>Properties\<close>


text \<open>A codec, a bucket of one token, and two requests at the same time.\<close>

definition read_int :: "string \<Rightarrow> int" where
  "read_int s = (case signed_literal s of (neg, ds) \<Rightarrow> if neg then - int (number ds) else int (number ds))"

lemma read_int_Itoa [simp]: "read_int (Itoa n) = n"
  by (simp add: read_int_def signed_literal_Itoa)

definition demo_codec :: codec where
  "demo_codec =
     (\<lambda>st. (case quotient_of (Tokens st) of (p, q) \<Rightarrow>
              Itoa p @ CHR '' '' # Itoa q @ CHR '' '' # Itoa (LastRefill st)),
      \<lambda>s. (case map read_int (Split_space s) of
             [p, q, t] \<Rightarrow> \<lparr>Tokens = of_int p / of_int q, LastRefill = t\<rparr>
           | _ \<Rightarrow> \<lparr>Tokens = 0, LastRefill = zero_time\<rparr>))"

lemma space_notin_Itoa [simp]: "CHR '' '' \<notin> set (Itoa n)"
  using decimal_digits [of "nat n"] decimal_digits [of "nat (- n)"]
  by (auto simp: Itoa_def list_all_iff)

lemma demo_codec_inverse: "Unmarshal_bucket demo_codec (Marshal demo_codec st) = st"
proof (cases "quotient_of (Tokens st)")
  case (Pair p q)
  then have "of_int p / of_int q = Tokens st" by (rule quotient_of_div [symmetric])
  then show ?thesis
    by (simp add: demo_codec_def Pair Split_space_append Split_space_word)
qed

lemma demo_codec_ok: "bucket_codec demo_codec"
  by (simp add: bucket_codec_def demo_codec_inverse)

definition demo_tb :: TokenBucket where
  "demo_tb = NewTokenBucket 1 1"

definition demo_tb_start :: "rdb tb_sys" where
  "demo_tb_start = \<lparr>tb_redis = Map.empty, tb_clock = 0, tb_log = []\<rparr>"

definition demo_tb_db :: rdb where
  "demo_tb_db = [bucket_key ''k'' \<mapsto>
     \<lparr>rval = RStr (Marshal demo_codec \<lparr>Tokens = 0, LastRefill = 5 * Second\<rparr>),
      expires = Some (5 * Second + Hour)\<rparr>]"

lemma demo_tb_init: "tb_init mem_client id (\<lambda>t d. t + d) demo_codec demo_tb demo_tb_start"
  by (simp add: tb_init_def mem_reliable_set demo_codec_ok demo_tb_def NewTokenBucket_def
      bucket_ok_def demo_tb_start_def)

lemma fl_one [simp]: "fl 1 = 1" and fl_zero [simp]: "fl 0 = 0"
  using ieee.exact [of 1] ieee.exact [of 0] by simp_all

lemma demo_take_token:
  "take_token demo_tb \<lparr>Tokens = 1, LastRefill = 5 * Second\<rparr> (5 * Second) =
     (True, \<lparr>Tokens = 0, LastRefill = 5 * Second\<rparr>)"
  "take_token demo_tb \<lparr>Tokens = 0, LastRefill = 5 * Second\<rparr> (5 * Second) =
     (False, \<lparr>Tokens = 0, LastRefill = 5 * Second\<rparr>)"
  using Duration_Seconds_whole [of 0]
  by (simp_all add: take_token_def refilled_def demo_tb_def NewTokenBucket_def time_Sub_def
      float_of_int_def)

lemma demo_tb_Allow:
  "TokenBucket_Allow mem_client demo_codec demo_tb (\<lambda>i. 5 * Second) ''k'' Map.empty =
     ((True, None), demo_tb_db)"
  "TokenBucket_Allow mem_client demo_codec demo_tb (\<lambda>i. 5 * Second) ''k'' demo_tb_db =
     ((False, None), demo_tb_db)"
proof -
  have cap: "float_of_int (capacity demo_tb) = 1"
    by (simp add: demo_tb_def NewTokenBucket_def float_of_int_def)
  show "TokenBucket_Allow mem_client demo_codec demo_tb (\<lambda>i. 5 * Second) ''k'' Map.empty =
     ((True, None), demo_tb_db)"
    using demo_take_token(1) cap
    by (simp add: TokenBucket_Allow_def Redis_Get_def Redis_Set_def mem_client_def db_get_def
        db_set_def live_def demo_tb_db_def)
  show "TokenBucket_Allow mem_client demo_codec demo_tb (\<lambda>i. 5 * Second) ''k'' demo_tb_db =
     ((False, None), demo_tb_db)"
    using demo_take_token(2)
    by (simp add: TokenBucket_Allow_def Redis_Get_def Redis_Set_def mem_client_def db_get_def
        db_set_def live_def alive_def demo_tb_db_def demo_codec_inverse)
qed

lemma demo_tb_run:
  "run (tb_step mem_client demo_codec demo_tb) demo_tb_start
     [(\<lambda>i. 5 * Second, ''k''), (\<lambda>i. 5 * Second, ''k'')]
     \<lparr>tb_redis = demo_tb_db, tb_clock = 5 * Second,
      tb_log = [(''k'', 5 * Second, True), (''k'', 5 * Second, False)]\<rparr>"
proof -
  let ?s1 = "\<lparr>tb_redis = demo_tb_db, tb_clock = 5 * Second, tb_log = [(''k'', 5 * Second, True)]\<rparr>"
  have "tb_step mem_client demo_codec demo_tb demo_tb_start (\<lambda>i. 5 * Second, ''k'') ?s1"
    using tb_step_allow [where client = mem_client and codec = demo_codec and t = demo_tb and
        st = demo_tb_start and ts = "\<lambda>i. 5 * Second" and key = "''k''" and ok = True] demo_tb_Allow
    by (simp add: demo_tb_start_def)
  moreover have "tb_step mem_client demo_codec demo_tb ?s1 (\<lambda>i. 5 * Second, ''k'')
      \<lparr>tb_redis = demo_tb_db, tb_clock = 5 * Second,
       tb_log = [(''k'', 5 * Second, True), (''k'', 5 * Second, False)]\<rparr>"
    using tb_step_allow [where client = mem_client and codec = demo_codec and t = demo_tb and
        st = ?s1 and ts = "\<lambda>i. 5 * Second" and key = "''k''" and ok = False] demo_tb_Allow
    by simp
  ultimately show ?thesis
    unfolding run_Cons run_Nil_iff by blast
qed


text \<open>C35: \<^bold>\<open>A token per second.\<close> A request that gets an answer from the server and comes at
  least a second after every earlier request of its client is admitted.\<close>

theorem token_bucket_admits_after_second:
  assumes "tb_init client view ttl codec t st0" "run (tb_step client codec t) st0 es st"
    and "tb_step client codec t st (ts, key) st'"
    and "TokenBucket_Allow client codec t ts key (tb_redis st) = ((ok, None), r)"
    and "\<forall>p \<in> set (requests (tb_log st) key). fst p + Second \<le> ts 2"
  shows "ok"
  by (rule admits_after_second [OF assms])

theorem token_bucket_admits_after_second_witness:
  "\<exists>ok r. TokenBucket_Allow mem_client demo_codec demo_tb (\<lambda>i. 6 * Second) ''k'' demo_tb_db =
     ((ok, None), r) \<and> ok"
proof -
  let ?st = "\<lparr>tb_redis = demo_tb_db, tb_clock = 5 * Second,
      tb_log = [(''k'', 5 * Second, True), (''k'', 5 * Second, False)]\<rparr>"
  obtain ok r where call:
    "TokenBucket_Allow mem_client demo_codec demo_tb (\<lambda>i. 6 * Second) ''k'' demo_tb_db = ((ok, None), r)"
    by (cases "take_token demo_tb (Unmarshal_bucket demo_codec
          (Marshal demo_codec \<lparr>Tokens = 0, LastRefill = 5000000000\<rparr>)) 6000000000")
      (simp add: TokenBucket_Allow_def Redis_Get_def mem_client_def db_get_def live_def alive_def
        demo_tb_db_def)
  then have step: "tb_step mem_client demo_codec demo_tb ?st (\<lambda>i. 6 * Second, ''k'')
      (?st\<lparr>tb_redis := r, tb_clock := 6 * Second, tb_log := tb_log ?st @ [(''k'', 6 * Second, ok)]\<rparr>)"
    by (intro tb_step_allow) simp_all
  have "ok"
    by (rule token_bucket_admits_after_second [OF demo_tb_init demo_tb_run step])
      (use call in \<open>simp_all add: requests_def\<close>)
  with call show ?thesis by blast
qed

text \<open>\<^bold>\<open>Remaining tokens.\<close> In every reachable state \<open>Remaining\<close> returns, unless reading
  fails, a number between 0 and the capacity.\<close>

theorem token_bucket_remaining_bounds:
  assumes "tb_init client view ttl codec t st0" "run (tb_step client codec t) st0 es st"
    and "tb_clock st \<le> ts 1"
    and "TokenBucket_Remaining client codec t ts key (tb_redis st) = ((n, err), r)"
  shows "0 \<le> n \<and> n \<le> capacity t \<and> (err \<noteq> None \<longrightarrow> n = 0)"
proof -
  let ?l = "requests (tb_log st) key"
  have inv: "tb_inv client view ttl codec t st" by (rule token_bucket.inv_reachable [OF assms(1,2)])
  then have conf: "redis_conforms client view ttl" and cod: "bucket_codec codec" and okt: "bucket_ok t"
    and ent: "bucket_entry codec t ?l (view (tb_redis st) (bucket_key key))"
    and l: "\<forall>p \<in> set ?l. 0 \<le> fst p \<and> fst p \<le> tb_clock st \<and> fst p \<le> max_int64"
    by (simp_all add: tb_inv_def reliable_set_def)
  obtain data r1 where get: "Redis_Get client (ts 0) (bucket_key key) (tb_redis st) = (data, r1)"
    by fastforce
  show ?thesis
  proof (cases data)
    case (Inl e)
    then show ?thesis
      using assms(4) get okt by (auto simp: TokenBucket_Remaining_def bucket_ok_def split: if_splits)
  next
    case (Inr d)
    then have "\<exists>en. live (ts 0) (view (tb_redis st)) (bucket_key key) = Some en \<and> rval en = RStr d"
      using replied_Inr [of "view (tb_redis st)" _ d "view r1"] conforms_Get [OF conf get]
      by (auto simp: db_get_def split: option.splits rvalue.splits)
    then obtain s where s: "d = Marshal codec s" "tokens_ok t s" "LastRefill s \<in> fst ` set ?l"
      using ent by (auto simp: bucket_entry_def live_def split: option.splits if_splits)
    then have range: "0 \<le> LastRefill s" "LastRefill s \<le> max_int64" "LastRefill s \<le> ts 1"
      using l assms(3) by force+
    then have "Unmarshal_bucket codec d = s"
      using cod s(1,2) by (simp add: bucket_codec_def encodable_def tokens_ok_def)
    then have n: "n = int_of_float (refilled t s (ts 1))" "err = None"
      using assms(4) get Inr by (simp_all add: TokenBucket_Remaining_def)
    have b: "0 \<le> refilled t s (ts 1)" "refilled t s (ts 1) \<le> of_int (capacity t)"
      using refilled_bounds [OF okt _ range(3)] s(2) by (simp_all add: tokens_ok_def)
    then have "0 \<le> \<lfloor>refilled t s (ts 1)\<rfloor>" "\<lfloor>refilled t s (ts 1)\<rfloor> \<le> capacity t"
      by (simp_all add: floor_le_iff)
    moreover have "int64 \<lfloor>refilled t s (ts 1)\<rfloor>"
      by (rule int64_between [of 0 "capacity t"])
        (use calculation okt in \<open>simp_all add: int64_def bucket_ok_def\<close>)
    ultimately show ?thesis
      using n b(1) by (simp add: int_of_float_def)
  qed
qed

theorem token_bucket_remaining_bounds_witness:
  "\<exists>n err r. TokenBucket_Remaining mem_client demo_codec demo_tb (\<lambda>i. 6 * Second) ''k'' demo_tb_db =
     ((n, err), r) \<and> 0 \<le> n \<and> n \<le> 1"
proof -
  obtain n err r where call:
    "TokenBucket_Remaining mem_client demo_codec demo_tb (\<lambda>i. 6 * Second) ''k'' demo_tb_db =
       ((n, err), r)"
    by (metis prod.exhaust)
  have "0 \<le> n \<and> n \<le> capacity demo_tb \<and> (err \<noteq> None \<longrightarrow> n = 0)"
    by (rule token_bucket_remaining_bounds [OF demo_tb_init demo_tb_run, where ts = "\<lambda>i. 6 * Second" and key = "''k''"])
      (use call in simp_all)
  with call show ?thesis by (auto simp: demo_tb_def NewTokenBucket_def)
qed

end
