(* ===== verification/RateLimit.thy ===== *)
theory RateLimit
  imports FixedWindow SlidingWindow TokenBucket
begin

text \<open>
  The interface of the rate limiters and their factory, \<open>src/internal/ratelimit/interface.go\<close> and
  \<open>factory.go\<close>.  The interface is a datatype with one constructor for each implementation, and
  the locale \<open>limiter\<close> is what its clients rely on: an error never admits, and a call touches
  only the keys of its own client in the store.
\<close>

section \<open>The interface and its implementations\<close>

datatype Limiter =
    Fixed FixedWindowLimiter
  | Sliding SlidingWindowLimiter
  | Bucket TokenBucket

fun Limiter_Allow ::
    "'r redis_client \<Rightarrow> codec \<Rightarrow> Limiter \<Rightarrow> clock \<Rightarrow> string \<Rightarrow> 'r \<Rightarrow>
     (bool \<times> go_error option) outcome \<times> 'r" where
  "Limiter_Allow client codec (Fixed f) ts key r = FixedWindow_Allow client f ts key r"
| "Limiter_Allow client codec (Sliding s) ts key r = apfst Inr (SlidingWindow_Allow client s ts key r)"
| "Limiter_Allow client codec (Bucket t) ts key r = apfst Inr (TokenBucket_Allow client codec t ts key r)"

fun Limiter_Remaining ::
    "'r redis_client \<Rightarrow> codec \<Rightarrow> Limiter \<Rightarrow> clock \<Rightarrow> string \<Rightarrow> 'r \<Rightarrow>
     (int \<times> go_error option) outcome \<times> 'r" where
  "Limiter_Remaining client codec (Fixed f) ts key r = FixedWindow_Remaining client f ts key r"
| "Limiter_Remaining client codec (Sliding s) ts key r =
     apfst Inr (SlidingWindow_Remaining client s ts key r)"
| "Limiter_Remaining client codec (Bucket t) ts key r =
     apfst Inr (TokenBucket_Remaining client codec t ts key r)"

fun Limiter_Limit :: "Limiter \<Rightarrow> int" where
  "Limiter_Limit (Fixed f) = FixedWindow_Limit f"
| "Limiter_Limit (Sliding s) = SlidingWindow_Limit s"
| "Limiter_Limit (Bucket t) = TokenBucket_Limit t"

fun Limiter_Window :: "Limiter \<Rightarrow> duration outcome" where
  "Limiter_Window (Fixed f) = Inr (FixedWindow_Window f)"
| "Limiter_Window (Sliding s) = Inr (SlidingWindow_Window s)"
| "Limiter_Window (Bucket t) = TokenBucket_Window t"

fun Limiter_Reset ::
    "'r redis_client \<Rightarrow> codec \<Rightarrow> Limiter \<Rightarrow> clock \<Rightarrow> string \<Rightarrow> 'r \<Rightarrow>
     (time \<times> go_error option) outcome \<times> 'r" where
  "Limiter_Reset client codec (Fixed f) ts key r = (FixedWindow_Reset f ts key, r)"
| "Limiter_Reset client codec (Sliding s) ts key r = apfst Inr (SlidingWindow_Reset client s ts key r)"
| "Limiter_Reset client codec (Bucket t) ts key r =
     apfst Inr (TokenBucket_Reset client codec t ts key r)"

section \<open>The factory\<close>

definition NewLimiter :: "string \<Rightarrow> int \<Rightarrow> duration \<Rightarrow> Limiter outcome" where
  "NewLimiter algorithm limit window =
     (if algorithm = ''sliding_window'' then Inr (Sliding (NewSlidingWindowLimiter limit window))
      else if algorithm = ''token_bucket'' then
        (let seconds = int_of_float (Duration_Seconds window)
         in if seconds = 0 then Inl IntegerDivideByZero
            else let rate = wrap64 (limit sdiv seconds);
                     rate = (if rate = 0 then 1 else rate)
                 in Inr (Bucket (NewTokenBucket limit rate)))
      else Inr (Fixed (NewFixedWindow limit window)))"

lemma Duration_Seconds_Minute [simp]: "Duration_Seconds Minute = 60"
  using Duration_Seconds_whole [of 60] by simp

lemma int_of_float_60 [simp]: "int_of_float 60 = 60"
  using int_of_float_int [of 60] by (simp add: int64_def)

lemma sdiv_60: "0 \<le> limit \<Longrightarrow> limit sdiv (60 :: int) = limit div 60"
  by (auto simp: signed_divide_int_def sgn_if)

lemma NewLimiter_minute:
  assumes "0 \<le> limit" "int64 limit"
  shows "NewLimiter algorithm limit Minute =
    (if algorithm = ''sliding_window'' then Inr (Sliding (NewSlidingWindowLimiter limit Minute))
     else if algorithm = ''token_bucket'' then
       Inr (Bucket (NewTokenBucket limit (if limit < 60 then 1 else limit div 60)))
     else Inr (Fixed (NewFixedWindow limit Minute)))"
proof -
  have "int64 (limit div 60)"
    by (rule int64_between [of 0 limit])
      (use assms in \<open>auto simp: int64_def pos_imp_zdiv_nonneg_iff intro: zdiv_mono2 [of _ 1 60, simplified]\<close>)
  moreover have "limit div 60 = 0 \<longleftrightarrow> limit < 60" using assms(1) by (auto simp: zdiv_eq_0_iff)
  ultimately show ?thesis using assms by (simp add: NewLimiter_def sdiv_60 Let_def)
qed

section \<open>What the clients of a limiter rely on\<close>

text \<open>The state after a sequence of calls.\<close>

fun after_calls :: "(clock \<Rightarrow> string \<Rightarrow> 'r \<Rightarrow> 'a \<times> 'r) \<Rightarrow> (clock \<times> string) list \<Rightarrow> 'r \<Rightarrow> 'r" where
  "after_calls allow [] r = r"
| "after_calls allow ((ts, key) # reqs) r = after_calls allow reqs (snd (allow ts key r))"

locale limiter =
  fixes allow :: "clock \<Rightarrow> string \<Rightarrow> 'r \<Rightarrow> (bool \<times> go_error option) outcome \<times> 'r"
    and contents :: "'r \<Rightarrow> rdb"
    and owned :: "string \<Rightarrow> string set"
  assumes frame: "allow ts key r = (out, r') \<Longrightarrow> K \<notin> owned key \<Longrightarrow> contents r' K = contents r K"
    and owned_disjoint: "k \<noteq> k' \<Longrightarrow> owned k \<inter> owned k' = {}"
    and error_refuses: "allow ts key r = (Inr (ok, Some e), r') \<Longrightarrow> \<not> ok"
begin

lemma others_untouched:
  "key \<notin> snd ` set reqs \<Longrightarrow> K \<in> owned key \<Longrightarrow> contents (after_calls allow reqs r) K = contents r K"
proof (induction reqs arbitrary: r)
  case (Cons req reqs)
  obtain ts k where req: "req = (ts, k)" by fastforce
  then have "K \<notin> owned k" using Cons.prems owned_disjoint [of k key] by auto
  then have "contents (snd (allow ts k r)) K = contents r K"
    by (metis frame prod.collapse)
  then show ?case using Cons req by simp
qed simp

end

fun limiter_keys :: "Limiter \<Rightarrow> string \<Rightarrow> string set" where
  "limiter_keys (Fixed f) key = range (fixed_key key)"
| "limiter_keys (Sliding s) key = {sliding_key key}"
| "limiter_keys (Bucket t) key = {bucket_key key}"

text \<open>Windows that the store can express as a lifetime.\<close>

fun limiter_ok :: "Limiter \<Rightarrow> bool" where
  "limiter_ok (Fixed f) = lifetime (fw_window f)"
| "limiter_ok (Sliding s) = (lifetime (sw_window s) \<and> int64 (sw_window s))"
| "limiter_ok (Bucket t) = True"

lemma limiter_keys_disjoint: "k \<noteq> k' \<Longrightarrow> limiter_keys l k \<inter> limiter_keys l k' = {}"
  by (cases l) auto

lemma db_frames:
  "K' \<noteq> K \<Longrightarrow> snd (db_get t K db) K' = db K'"
  "K' \<noteq> K \<Longrightarrow> snd (db_set ttl t K v d db) K' = db K'"
  "K' \<noteq> K \<Longrightarrow> snd (db_incr t K db) K' = db K'"
  "K' \<noteq> K \<Longrightarrow> snd (db_expire ttl t K d db) K' = db K'"
  "K' \<noteq> K \<Longrightarrow> snd (db_zadd t K ms db) K' = db K'"
  by (auto simp: db_get_def db_set_def db_incr_def db_expire_def db_zadd_def Let_def
      split: option.splits rvalue.splits sum.splits)

text \<open>A command on one key leaves the other keys alone, whether it fails or not.\<close>

lemma replied_frame:
  "replied db spec res db' \<Longrightarrow> snd spec K' = db K' \<Longrightarrow> db' K' = db K'"
  using replied_db by metis

lemma Fixed_frame:
  assumes "redis_conforms client view ttl" "lifetime (fw_window f)"
    and "FixedWindow_Allow client f ts key r = (out, r')" "K \<notin> range (fixed_key key)"
  shows "view r' K = view r K"
proof (cases "currentWindow f (ts 0)")
  case (Inr w)
  obtain res r1 where incr: "Redis_Incr client (ts 1) (fixed_key key w) r = (res, r1)" by fastforce
  obtain res2 r2 where expire: "Redis_Expire client (ts 2) (fixed_key key w) (fw_window f) r1 = (res2, r2)"
    by fastforce
  have K: "K \<noteq> fixed_key key w" using assms(4) by blast
  have "view r1 K = view r K"
    using conforms_Incr [OF assms(1) incr] K by (rule replied_frame [OF _ db_frames(3)])
  moreover have "view r2 K = view r1 K"
    using conforms_Expire [OF assms(1,2) expire] K by (rule replied_frame [OF _ db_frames(4)])
  moreover have "r' = r1 \<or> r' = r2"
    using assms(3) Inr incr expire
    by (auto simp: FixedWindow_Allow_def fw_incr_def fw_expire_def split: sum.splits if_splits)
  ultimately show ?thesis by auto
qed (use assms(3) in \<open>simp add: FixedWindow_Allow_def fw_incr_def\<close>)

lemma Bucket_frame:
  assumes "redis_conforms client view ttl"
    and "TokenBucket_Allow client codec t ts key r = (out, r')" "K \<noteq> bucket_key key"
  shows "view r' K = view r K"
proof -
  obtain data r1 where get: "Redis_Get client (ts 0) (bucket_key key) r = (data, r1)" by fastforce
  have 1: "view r1 K = view r K"
    using conforms_Get [OF assms(1) get] assms(3) by (rule replied_frame [OF _ db_frames(1)])
  have 2: "view (snd (Redis_Set client (ts 3) (bucket_key key) v Hour r1)) K = view r1 K" for v
    by (rule replied_frame [OF conforms_Set [OF assms(1) disjI2 [OF lifetime_Hour] prod.collapse [symmetric]]
          db_frames(2) [OF assms(3)]])
  have "r' = r1 \<or> (\<exists>v. r' = snd (Redis_Set client (ts 3) (bucket_key key) v Hour r1))"
    using assms(2) get by (auto simp: TokenBucket_Allow_def split: sum.splits prod.splits if_splits)
  with 1 2 show ?thesis by metis
qed

lemma Sliding_count_frame:
  assumes "redis_conforms client view ttl"
    and "sw_count client s now t key r = (res, r')" "K \<noteq> sliding_key key"
  shows "view r' K = view r K"
proof -
  let ?start = "time_UnixNano (windowStart s now)" and ?K = "sliding_key key"
  let ?cmds = "[ZRemRangeByScore ?K ''0'' (Itoa ?start), ZCard ?K]"
  obtain reply r1 where exec: "Redis_Exec client t ?cmds r = (reply, r1)" by fastforce
  have "snd (db_exec t (take n ?cmds) db) K = db K" for n db
    using assms(3) by (auto simp: take_Cons' Let_def split: sum.splits)
  then have frame: "snd (db_exec t (take n ?cmds) (view r)) K = view r K" for n .
  have "\<exists>n. view r1 = snd (db_exec t (take n ?cmds) (view r))"
  proof -
    have "list_all decimal_bounds ?cmds" using Itoa_0 by auto
    from conforms_Exec [OF assms(1) this exec] show ?thesis
    proof
      assume "(reply, view r1) = db_exec t ?cmds (view r)"
      moreover have "?cmds = take 2 ?cmds" by simp
      ultimately have "view r1 = snd (db_exec t (take 2 ?cmds) (view r))" by (metis snd_conv)
      then show ?thesis ..
    qed blast
  qed
  then have "view r1 K = view r K" using frame by metis
  then show ?thesis
    using assms(2) exec by (auto simp: sw_count_def Redis_Pipeline_def split: sum.splits)
qed

lemma Sliding_frame:
  assumes "redis_conforms client view ttl" "lifetime (sw_window s)"
    and "SlidingWindow_Allow client s ts key r = (out, r')" "K \<noteq> sliding_key key"
  shows "view r' K = view r K"
proof -
  obtain res r1 where cnt: "sw_count client s (ts 0) (ts 1) key r = (res, r1)" by fastforce
  note 1 = Sliding_count_frame [OF assms(1) cnt assms(4)]
  define r2 where "r2 = snd (Redis_ZAdd client (ts 2) (sliding_key key)
    [(float_of_int (time_UnixNano (ts 0)), Itoa (time_UnixNano (ts 0)))] r1)"
  define r3 where "r3 = snd (Redis_Expire client (ts 3) (sliding_key key) (sw_window s) r2)"
  have 2: "view r2 K = view r1 K"
    unfolding r2_def
    by (rule replied_frame [OF conforms_ZAdd [OF assms(1) prod.collapse [symmetric]]
          db_frames(5) [OF assms(4)]])
  have 3: "view r3 K = view r2 K"
    unfolding r3_def
    by (rule replied_frame [OF conforms_Expire [OF assms(1,2) prod.collapse [symmetric]]
          db_frames(4) [OF assms(4)]])
  have "r' = r1 \<or> r' = r3"
    using assms(3) cnt
    by (auto simp: SlidingWindow_Allow_def sw_add_def r2_def r3_def split: sum.splits if_splits)
  with 1 2 3 show ?thesis by auto
qed

text \<open>The other two operations only read.\<close>

lemma Limiter_reads:
  assumes "redis_conforms client view ttl"
  shows "Limiter_Remaining client codec l ts key r = (out, r') \<Longrightarrow> view r' = view r"
    and "Limiter_Reset client codec l ts key r = (out', r') \<Longrightarrow> view r' = view r"
proof -
  have get: "view (snd (Redis_Get client t k r)) = view r" for t k r
    using replied_db [OF conforms_Get [OF assms prod.collapse [symmetric]]] by auto
  have "snd (db_zcount t k lo hi db) = db" "snd (db_zrange t k i j db) = db" for t k lo hi i j db
    by (simp_all add: db_zcount_def db_zrange_def split: sum.splits)
  then have zcount: "view (snd (Redis_ZCount client t k (Itoa a) (Itoa b) r)) = view r"
    and zrange: "view (snd (Redis_ZRange client t k 0 0 r)) = view r" for t k a b r
    using replied_db [OF conforms_ZCount [OF assms prod.collapse [symmetric]]]
      replied_db [OF conforms_ZRange [OF assms _ _ prod.collapse [symmetric]]]
    by (metis, metis order_refl)
  show "Limiter_Remaining client codec l ts key r = (out, r') \<Longrightarrow> view r' = view r"
    using get [of "ts 1"] get [of "ts 0"] zcount [of "ts 1"]
    by (cases l) (auto simp: FixedWindow_Remaining_def SlidingWindow_Remaining_def TokenBucket_Remaining_def
        Let_def split: prod.splits sum.splits if_splits, (metis snd_conv)+)
  show "Limiter_Reset client codec l ts key r = (out', r') \<Longrightarrow> view r' = view r"
    using get [of "ts 0"] zrange [of "ts 0"]
    by (cases l) (auto simp: SlidingWindow_Reset_def TokenBucket_Reset_def Let_def
        split: prod.splits sum.splits if_splits list.splits, (metis snd_conv)+)
qed

text \<open>Every limiter over a conforming client meets the contract.\<close>

locale redis_limiter =
  fixes client :: "'r redis_client" and view :: "'r \<Rightarrow> rdb" and ttl :: "time \<Rightarrow> duration \<Rightarrow> time"
    and codec :: codec and l :: Limiter
  assumes conf: "redis_conforms client view ttl" and ok: "limiter_ok l"

sublocale redis_limiter \<subseteq> lim: limiter "Limiter_Allow client codec l" view "limiter_keys l"
proof
  fix ts key and r :: 'r and out r' K
  assume *: "Limiter_Allow client codec l ts key r = (out, r')" "K \<notin> limiter_keys l key"
  show "view r' K = view r K"
  proof (cases l)
    case (Fixed f)
    then show ?thesis using * ok Fixed_frame [OF conf, of f ts key r out r' K] by simp
  next
    case (Sliding s)
    then show ?thesis
      using * ok Sliding_frame [OF conf, of s ts key r] by (cases "SlidingWindow_Allow client s ts key r") auto
  next
    case (Bucket t)
    then show ?thesis
      using * Bucket_frame [OF conf, of codec t ts key r] by (cases "TokenBucket_Allow client codec t ts key r") auto
  qed
next
  fix k k' :: string
  assume "k \<noteq> k'"
  then show "limiter_keys l k \<inter> limiter_keys l k' = {}" by (rule limiter_keys_disjoint)
next
  fix ts key and r :: 'r and ok e r'
  assume "Limiter_Allow client codec l ts key r = (Inr (ok, Some e), r')"
  then show "\<not> ok"
    by (cases l) (auto simp: FixedWindow_Allow_def SlidingWindow_Allow_def TokenBucket_Allow_def Let_def
        split: prod.splits sum.splits if_splits)
qed

context redis_limiter
begin

lemma allow_frame:
  "Limiter_Allow client codec l ts key r = (out, r') \<Longrightarrow> K \<notin> limiter_keys l key \<Longrightarrow> view r' K = view r K"
  by (rule lim.frame)

lemma isolated:
  "key \<notin> snd ` set reqs \<Longrightarrow> K \<in> limiter_keys l key \<Longrightarrow>
     view (after_calls (Limiter_Allow client codec l) reqs r) K = view r K"
  by (rule lim.others_untouched)

end

interpretation mem_limiter: redis_limiter mem_client id "\<lambda>t d. t + d" demo_codec
    "Bucket demo_tb"
  by unfold_locales (simp_all add: mem_conforms)

section \<open>Properties\<close>

lemma NewLimiter_ok:
  assumes "NewLimiter algorithm limit Minute = Inr l"
  shows "limiter_ok l"
  using assms
  by (auto simp: NewLimiter_def NewSlidingWindowLimiter_def NewFixedWindow_def lifetime_def int64_def
      Let_def split: if_splits)

text \<open>C36: \<^bold>\<open>Clients are isolated.\<close> Whatever the algorithm and whatever commands fail, requests of
  other clients leave the entries of a client in the store as they are.\<close>

theorem clients_are_isolated:
  assumes "redis_conforms client view ttl" "NewLimiter algorithm limit Minute = Inr l"
    and "key \<notin> snd ` set reqs" "K \<in> limiter_keys l key"
  shows "view (after_calls (Limiter_Allow client codec l) reqs r) K = view r K"
proof -
  have "redis_limiter client view ttl l"
    using assms(1) NewLimiter_ok [OF assms(2)] by (rule redis_limiter.intro)
  from redis_limiter.isolated [OF this assms(3,4)] show ?thesis .
qed

theorem clients_are_isolated_witness:
  "(after_calls (Limiter_Allow mem_client demo_codec (Fixed (NewFixedWindow 5 Minute)))
      [(\<lambda>i. 5 * Second, ''a''), (\<lambda>i. 6 * Second, ''b'')] Map.empty) (fixed_key ''k'' 0) = None"
  using clients_are_isolated [OF mem_conforms, of "''fixed_window''" 5 "Fixed (NewFixedWindow 5 Minute)"
      "''k''" "[(\<lambda>i. 5 * Second, ''a''), (\<lambda>i. 6 * Second, ''b'')]" "fixed_key ''k'' 0" demo_codec Map.empty]
  by (simp add: NewLimiter_def del: after_calls.simps)

text \<open>\<^bold>\<open>The factory.\<close> For a window of a minute and a positive limit that is exact as a
  \<open>float64\<close> the factory never panics.  The limiter it builds reports that limit and meets the
  requirements under which the three limits above hold: a window of 60 whole seconds, and for
  the bucket a positive rate that refills it within an hour.\<close>

theorem factory_parameters:
  assumes "1 \<le> limit" "limit \<le> 2 ^ 53"
  shows "\<exists>l. NewLimiter algorithm limit Minute = Inr l \<and> Limiter_Limit l = limit \<and>
    (case l of
       Fixed f \<Rightarrow> whole_seconds f 60 \<and> fw_limit f = limit
     | Sliding s \<Rightarrow> lifetime (sw_window s) \<and> int64 (sw_window s) \<and> sw_limit s = limit
     | Bucket t \<Rightarrow> bucket_ok t \<and> capacity t \<le> 3600 * refillRate t \<and> capacity t = limit)"
proof -
  have "int64 limit" using assms by (simp add: int64_def)
  have *: "limit div 60 \<le> limit" "60 \<le> limit \<Longrightarrow> 1 \<le> limit div 60 \<and> limit \<le> 3600 * (limit div 60)"
    using assms(1) by auto
  show ?thesis
    using assms * NewLimiter_minute [OF _ \<open>int64 limit\<close>]
    by (auto simp: FixedWindow_Limit_def SlidingWindow_Limit_def TokenBucket_Limit_def
        NewFixedWindow_def NewSlidingWindowLimiter_def NewTokenBucket_def whole_seconds_def
        lifetime_def int64_def bucket_ok_def)
qed

theorem factory_parameters_witness:
  "\<exists>l. NewLimiter ''token_bucket'' 1000 Minute = Inr l \<and> Limiter_Limit l = 1000"
  using factory_parameters [of 1000 "''token_bucket''"] by auto

text \<open>Requests of one client, one each second, starting at the first second.\<close>

definition each_second :: "nat \<Rightarrow> (clock \<times> string) list" where
  "each_second n = map (\<lambda>i. (\<lambda>j. (int i + 1) * Second, ''k'')) [0..<n]"

lemma mem_bucket_no_error:
  assumes "bucket_entry codec t l (db (bucket_key key))"
  shows "\<exists>ok r. TokenBucket_Allow mem_client codec t ts key db = ((ok, None), r)"
proof -
  have "(\<exists>d. fst (db_get (ts 0) (bucket_key key) db) = Inr d) \<or>
      fst (db_get (ts 0) (bucket_key key) db) = Inl redis_Nil"
    using assms by (auto simp: bucket_entry_def db_get_def live_def split: option.splits)
  then show ?thesis
    by (auto simp: TokenBucket_Allow_def Redis_Get_def mem_client_def split: prod.splits)
qed

lemma each_second_run:
  assumes "bucket_ok t" "capacity t \<le> 3600 * refillRate t" "n \<le> 3600"
  shows "\<exists>st. run (tb_step mem_client demo_codec t) demo_tb_start (each_second n) st \<and>
    tb_clock st = int n * Second \<and>
    requests (tb_log st) ''k'' = map (\<lambda>i. ((int i + 1) * Second, True)) [0..<n]"
  using assms(3)
proof (induction n)
  case 0
  then show ?case by (simp add: each_second_def demo_tb_start_def requests_def)
next
  case (Suc n)
  then obtain st where st: "run (tb_step mem_client demo_codec t) demo_tb_start (each_second n) st"
      "tb_clock st = int n * Second"
      "requests (tb_log st) ''k'' = map (\<lambda>i. ((int i + 1) * Second, True)) [0..<n]"
    by auto
  let ?ts = "\<lambda>j :: nat. (int n + 1) * Second"
  have init: "tb_init mem_client id (\<lambda>t d. t + d) demo_codec t demo_tb_start"
    using assms(1,2) by (simp add: tb_init_def mem_reliable_set demo_codec_ok demo_tb_start_def)
  then have "tb_inv mem_client id (\<lambda>t d. t + d) demo_codec t st"
    by (rule token_bucket.inv_reachable [OF _ st(1)])
  then obtain ok r where call:
      "TokenBucket_Allow mem_client demo_codec t ?ts ''k'' (tb_redis st) = ((ok, None), r)"
    using mem_bucket_no_error [of demo_codec t _ "tb_redis st" "''k''" ?ts]
    by (force simp: tb_inv_def)
  then have step: "tb_step mem_client demo_codec t st (?ts, ''k'')
      (st\<lparr>tb_redis := r, tb_clock := ?ts 3, tb_log := tb_log st @ [(''k'', ?ts 2, ok)]\<rparr>)"
    using Suc.prems st(2) by (intro tb_step_allow) auto
  have ok
    by (rule admits_after_second [OF init st(1) step call]) (auto simp: st(3))
  with step st show ?case
    by (intro exI [of _ "st\<lparr>tb_redis := r, tb_clock := ?ts 3, tb_log := tb_log st @ [(''k'', ?ts 2, ok)]\<rparr>"])
      (auto simp: each_second_def run_snoc_iff)
qed

text \<open>\<^bold>\<open>Small token-bucket limits are not enforced.\<close> The factory raises a refill rate of 0 to one
  token per second.  With the token-bucket algorithm and any limit below 60 per minute, a
  client that sends a request every second is never refused: 60 of them are admitted in a
  minute.\<close>

theorem small_bucket_limits_admit_sixty:
  assumes "1 \<le> limit" "limit < 60"
  shows "\<exists>t st. NewLimiter ''token_bucket'' limit Minute = Inr (Bucket t) \<and>
    run (tb_step mem_client demo_codec t) demo_tb_start (each_second 60) st \<and>
    tb_clock st = Minute \<and> length (requests (tb_log st) ''k'') = 60 \<and>
    grants (requests (tb_log st) ''k'') = 60"
proof -
  let ?t = "NewTokenBucket limit 1"
  have "int64 limit" using assms by (simp add: int64_def)
  then have "NewLimiter ''token_bucket'' limit Minute = Inr (Bucket ?t)"
    using assms by (simp add: NewLimiter_minute)
  moreover have "bucket_ok ?t" "capacity ?t \<le> 3600 * refillRate ?t"
    using assms by (simp_all add: bucket_ok_def NewTokenBucket_def)
  then obtain st where st: "run (tb_step mem_client demo_codec ?t) demo_tb_start (each_second 60) st"
      "tb_clock st = int 60 * Second"
      "requests (tb_log st) ''k'' = map (\<lambda>i. ((int i + 1) * Second, True)) [0..<60]"
    using each_second_run [of ?t 60] by auto
  moreover have "grants (requests (tb_log st) ''k'') = 60"
    unfolding st(3) grants_def filter_map by (simp add: comp_def)
  ultimately show ?thesis by (intro exI [of _ ?t] exI [of _ st]) simp
qed

theorem small_bucket_limits_admit_sixty_witness:
  "\<exists>t st. NewLimiter ''token_bucket'' 10 Minute = Inr (Bucket t) \<and>
    run (tb_step mem_client demo_codec t) demo_tb_start (each_second 60) st \<and>
    tb_clock st = Minute \<and> grants (requests (tb_log st) ''k'') = 60"
  using small_bucket_limits_admit_sixty [of 10] by auto

end
