(* ===== verification/Config.thy ===== *)
theory Config
  imports Json
begin

text \<open>
  The configuration, \<open>src/internal/config/config.go\<close>: the records, how their struct tags
  decode a document, the environment overrides, validation and \<open>Load\<close>.  Reading the file,
  the environment and the text of the JSON document are arguments.  A field whose name
  several structs share has the struct's initials first.
\<close>

section \<open>Records\<close>

record ServerConfig =
  Port :: string
  Environment :: string

record RedisConfig =
  redis_Host :: string
  redis_Port :: int
  redis_Password :: string
  DB :: int

record DatabaseConfig =
  db_Host :: string
  db_Port :: int
  db_User :: string
  db_Password :: string
  DBName :: string
  SSLMode :: string

record JWTConfig =
  Secret :: string
  ExpiryHours :: int

record AnalyticsConfig =
  Enabled :: bool
  RetentionDays :: int
  BatchSize :: int
  FlushIntervalSec :: int

record CircuitBreakerConfig =
  cbc_MaxFailures :: int
  cbc_TimeoutSeconds :: int
  cbc_HalfOpenSuccess :: int

record HealthCheckConfig =
  hcc_Endpoint :: string
  hcc_IntervalSeconds :: int
  hcc_TimeoutSeconds :: int
  hcc_MaxFailures :: int

record ServiceConfig =
  svc_Path :: string
  svc_Targets :: "string list"
  svc_LoadBalancer :: string
  svc_CircuitBreaker :: "CircuitBreakerConfig option"
  svc_HealthCheck :: "HealthCheckConfig option"

record RateLimiterTier =
  rlt_Name :: string
  RequestsPerMinute :: int
  RequestsPerHour :: int
  Algorithm :: string

record Config =
  Server :: ServerConfig
  Redis :: RedisConfig
  Database :: DatabaseConfig
  JWT :: JWTConfig
  Analytics :: AnalyticsConfig
  Services :: "ServiceConfig list"
  RateLimitTiers :: "RateLimiterTier list"

section \<open>Decoding\<close>

definition decode_ServerConfig :: "ServerConfig decoder" where
  "decode_ServerConfig = decode_struct
     [(''port'', decode_field Port Port_update decode_string),
      (''environment'', decode_field Environment Environment_update decode_string)]"

definition decode_RedisConfig :: "RedisConfig decoder" where
  "decode_RedisConfig = decode_struct
     [(''host'', decode_field redis_Host redis_Host_update decode_string),
      (''port'', decode_field redis_Port redis_Port_update decode_int),
      (''password'', decode_field redis_Password redis_Password_update decode_string),
      (''db'', decode_field DB DB_update decode_int)]"

definition decode_DatabaseConfig :: "DatabaseConfig decoder" where
  "decode_DatabaseConfig = decode_struct
     [(''host'', decode_field db_Host db_Host_update decode_string),
      (''port'', decode_field db_Port db_Port_update decode_int),
      (''user'', decode_field db_User db_User_update decode_string),
      (''password'', decode_field db_Password db_Password_update decode_string),
      (''dbname'', decode_field DBName DBName_update decode_string),
      (''sslmode'', decode_field SSLMode SSLMode_update decode_string)]"

definition decode_JWTConfig :: "JWTConfig decoder" where
  "decode_JWTConfig = decode_struct
     [(''secret'', decode_field Secret Secret_update decode_string),
      (''expiry_hours'', decode_field ExpiryHours ExpiryHours_update decode_int)]"

definition decode_AnalyticsConfig :: "AnalyticsConfig decoder" where
  "decode_AnalyticsConfig = decode_struct
     [(''enabled'', decode_field Enabled Enabled_update decode_bool),
      (''retention_days'', decode_field RetentionDays RetentionDays_update decode_int),
      (''batch_size'', decode_field BatchSize BatchSize_update decode_int),
      (''flush_interval_sec'', decode_field FlushIntervalSec FlushIntervalSec_update decode_int)]"

definition decode_CircuitBreakerConfig :: "CircuitBreakerConfig decoder" where
  "decode_CircuitBreakerConfig = decode_struct
     [(''max_failures'', decode_field cbc_MaxFailures cbc_MaxFailures_update decode_int),
      (''timeout_seconds'', decode_field cbc_TimeoutSeconds cbc_TimeoutSeconds_update decode_int),
      (''half_open_success'',
         decode_field cbc_HalfOpenSuccess cbc_HalfOpenSuccess_update decode_int)]"

definition decode_HealthCheckConfig :: "HealthCheckConfig decoder" where
  "decode_HealthCheckConfig = decode_struct
     [(''endpoint'', decode_field hcc_Endpoint hcc_Endpoint_update decode_string),
      (''interval_seconds'',
         decode_field hcc_IntervalSeconds hcc_IntervalSeconds_update decode_int),
      (''timeout'', decode_field hcc_TimeoutSeconds hcc_TimeoutSeconds_update decode_int),
      (''max_failures'', decode_field hcc_MaxFailures hcc_MaxFailures_update decode_int)]"

definition zero_CircuitBreakerConfig :: CircuitBreakerConfig where
  "zero_CircuitBreakerConfig =
     \<lparr>cbc_MaxFailures = 0, cbc_TimeoutSeconds = 0, cbc_HalfOpenSuccess = 0\<rparr>"

definition zero_HealthCheckConfig :: HealthCheckConfig where
  "zero_HealthCheckConfig =
     \<lparr>hcc_Endpoint = '''', hcc_IntervalSeconds = 0, hcc_TimeoutSeconds = 0, hcc_MaxFailures = 0\<rparr>"

definition zero_ServiceConfig :: ServiceConfig where
  "zero_ServiceConfig =
     \<lparr>svc_Path = '''', svc_Targets = [], svc_LoadBalancer = '''', svc_CircuitBreaker = None,
      svc_HealthCheck = None\<rparr>"

definition zero_RateLimiterTier :: RateLimiterTier where
  "zero_RateLimiterTier =
     \<lparr>rlt_Name = '''', RequestsPerMinute = 0, RequestsPerHour = 0, Algorithm = ''''\<rparr>"

definition zero_Config :: Config where
  "zero_Config =
     \<lparr>Server = \<lparr>Port = '''', Environment = ''''\<rparr>,
      Redis = \<lparr>redis_Host = '''', redis_Port = 0, redis_Password = '''', DB = 0\<rparr>,
      Database = \<lparr>db_Host = '''', db_Port = 0, db_User = '''', db_Password = '''',
                  DBName = '''', SSLMode = ''''\<rparr>,
      JWT = \<lparr>Secret = '''', ExpiryHours = 0\<rparr>,
      Analytics = \<lparr>Enabled = False, RetentionDays = 0, BatchSize = 0, FlushIntervalSec = 0\<rparr>,
      Services = [], RateLimitTiers = []\<rparr>"

definition decode_ServiceConfig :: "ServiceConfig decoder" where
  "decode_ServiceConfig = decode_struct
     [(''path'', decode_field svc_Path svc_Path_update decode_string),
      (''targets'', decode_field svc_Targets svc_Targets_update (decode_list '''' decode_string)),
      (''load_balancer'', decode_field svc_LoadBalancer svc_LoadBalancer_update decode_string),
      (''circuit_breaker'', decode_field svc_CircuitBreaker svc_CircuitBreaker_update
         (decode_ptr zero_CircuitBreakerConfig decode_CircuitBreakerConfig)),
      (''health_check'', decode_field svc_HealthCheck svc_HealthCheck_update
         (decode_ptr zero_HealthCheckConfig decode_HealthCheckConfig))]"

definition decode_RateLimiterTier :: "RateLimiterTier decoder" where
  "decode_RateLimiterTier = decode_struct
     [(''name'', decode_field rlt_Name rlt_Name_update decode_string),
      (''requests_per_minute'',
         decode_field RequestsPerMinute RequestsPerMinute_update decode_int),
      (''requests_per_hour'', decode_field RequestsPerHour RequestsPerHour_update decode_int),
      (''algorithm'', decode_field Algorithm Algorithm_update decode_string)]"

definition decode_Config :: "Config decoder" where
  "decode_Config = decode_struct
     [(''server'', decode_field Server Server_update decode_ServerConfig),
      (''redis'', decode_field Redis Redis_update decode_RedisConfig),
      (''database'', decode_field Database Database_update decode_DatabaseConfig),
      (''jwt'', decode_field JWT JWT_update decode_JWTConfig),
      (''analytics'', decode_field Analytics Analytics_update decode_AnalyticsConfig),
      (''services'', decode_field Services Services_update
         (decode_list zero_ServiceConfig decode_ServiceConfig)),
      (''rate_limit_tiers'', decode_field RateLimitTiers RateLimitTiers_update
         (decode_list zero_RateLimiterTier decode_RateLimiterTier))]"

section \<open>Overrides, validation, loading\<close>

text \<open>\<open>env\<close> is \<open>os.Getenv\<close>: the empty string for a variable that is not set.\<close>

type_synonym environment = "string \<Rightarrow> string"

definition override :: "environment \<Rightarrow> string \<Rightarrow> ((string \<Rightarrow> string) \<Rightarrow> 'a \<Rightarrow> 'a) \<Rightarrow> 'a \<Rightarrow> 'a" where
  "override env var upd cfg = (if env var \<noteq> '''' then upd (\<lambda>_. env var) cfg else cfg)"

definition applyEnvOverrides :: "environment \<Rightarrow> Config \<Rightarrow> Config" where
  "applyEnvOverrides env cfg =
     (let cfg = override env ''PORT'' (Server_update \<circ> Port_update) cfg;
          cfg = override env ''ENVIRONMENT'' (Server_update \<circ> Environment_update) cfg;
          cfg = override env ''REDIS_HOST'' (Redis_update \<circ> redis_Host_update) cfg;
          cfg = override env ''REDIS_PASSWORD'' (Redis_update \<circ> redis_Password_update) cfg;
          cfg = override env ''DB_HOST'' (Database_update \<circ> db_Host_update) cfg;
          cfg = override env ''DB_USER'' (Database_update \<circ> db_User_update) cfg;
          cfg = override env ''DB_PASSWORD'' (Database_update \<circ> db_Password_update) cfg;
          cfg = override env ''DB_NAME'' (Database_update \<circ> DBName_update) cfg
      in override env ''JWT_SECRET'' (JWT_update \<circ> Secret_update) cfg)"

fun validate_services :: "int \<Rightarrow> ServiceConfig list \<Rightarrow> go_error option" where
  "validate_services i [] = None"
| "validate_services i (svc # svcs) =
     (if svc_Path svc = '''' then
        Some (Errors_New (''service '' @ Itoa i @ '': path is required''))
      else if svc_Targets svc = [] then
        Some (Errors_New (''service '' @ Itoa i @ '': at least one target is required''))
      else validate_services (i + 1) svcs)"

definition validate :: "Config \<Rightarrow> Config \<times> go_error option" where
  "validate cfg =
     (if Port (Server cfg) = '''' then (cfg, Some (Errors_New ''server port is required''))
      else if redis_Host (Redis cfg) = '''' then (cfg, Some (Errors_New ''redis host is required''))
      else if db_Host (Database cfg) = '''' then
        (cfg, Some (Errors_New ''database host is required''))
      else if DBName (Database cfg) = '''' then
        (cfg, Some (Errors_New ''database name is required''))
      else if Services cfg = [] then
        (cfg, Some (Errors_New ''at least one service must be configured''))
      else case validate_services 0 (Services cfg) of
        Some e \<Rightarrow> (cfg, Some e)
      | None \<Rightarrow>
          if Secret (JWT cfg) = '''' then (cfg, Some (Errors_New ''JWT secret is required''))
          else if ExpiryHours (JWT cfg) \<le> 0 then
            (cfg\<lparr>JWT := (JWT cfg)\<lparr>ExpiryHours := 24\<rparr>\<rparr>, None)
          else (cfg, None))"

definition Load ::
    "(string \<Rightarrow> go_error + string) \<Rightarrow> (string \<Rightarrow> go_error + json) \<Rightarrow> environment \<Rightarrow> string \<Rightarrow>
     go_error + Config" where
  "Load ReadFile parse env path =
     (case ReadFile path of
        Inl e \<Rightarrow> Inl (Errorf ''failed to read config file: '' e)
      | Inr txt \<Rightarrow>
          (case Unmarshal parse decode_Config zero_Config txt of
             (cfg, Some e) \<Rightarrow> Inl (Errorf ''failed to parse config file: '' e)
           | (cfg, None) \<Rightarrow>
               (case validate (applyEnvOverrides env cfg) of
                  (cfg, Some e) \<Rightarrow> Inl (Errorf ''invalid configuration: '' e)
                | (cfg, None) \<Rightarrow> Inr cfg)))"

definition GetRedisAddr :: "RedisConfig \<Rightarrow> string" where
  "GetRedisAddr c = redis_Host c @ '':'' @ Itoa (redis_Port c)"

section \<open>What loading guarantees\<close>

text \<open>What the rest of the gateway relies on.\<close>

definition required_fields :: "Config \<Rightarrow> bool" where
  "required_fields cfg \<longleftrightarrow>
     Port (Server cfg) \<noteq> '''' \<and> redis_Host (Redis cfg) \<noteq> '''' \<and>
     db_Host (Database cfg) \<noteq> '''' \<and> DBName (Database cfg) \<noteq> '''' \<and> Secret (JWT cfg) \<noteq> '''' \<and>
     Services cfg \<noteq> [] \<and>
     list_all (\<lambda>svc. svc_Path svc \<noteq> '''' \<and> svc_Targets svc \<noteq> []) (Services cfg)"

definition default_expiry :: "Config \<Rightarrow> Config" where
  "default_expiry cfg =
     cfg\<lparr>JWT := (JWT cfg)\<lparr>ExpiryHours := (if ExpiryHours (JWT cfg) \<le> 0 then 24
                                            else ExpiryHours (JWT cfg))\<rparr>\<rparr>"

lemma validate_services_None:
  "validate_services i svcs = None \<longleftrightarrow>
     list_all (\<lambda>svc. svc_Path svc \<noteq> '''' \<and> svc_Targets svc \<noteq> []) svcs"
  by (induction svcs arbitrary: i) auto

lemma default_expiry_id: "0 < ExpiryHours (JWT cfg) \<Longrightarrow> default_expiry cfg = cfg"
  by (simp add: default_expiry_def)

lemma validate_ok:
  "validate cfg = (cfg', None) \<longleftrightarrow> required_fields cfg \<and> cfg' = default_expiry cfg"
  using validate_services_None [of 0 "Services cfg"]
  by (auto simp: validate_def required_fields_def default_expiry_def split: option.splits)

lemma required_default_expiry [simp]: "required_fields (default_expiry cfg) = required_fields cfg"
  by (simp add: required_fields_def default_expiry_def)

lemma expiry_positive: "0 < ExpiryHours (JWT (default_expiry cfg))"
  by (simp add: default_expiry_def)

text \<open>The fields the environment overrides, with their variables.\<close>

definition env_fields :: "(string \<times> (Config \<Rightarrow> string)) list" where
  "env_fields =
     [(''PORT'', Port \<circ> Server), (''ENVIRONMENT'', Environment \<circ> Server),
      (''REDIS_HOST'', redis_Host \<circ> Redis), (''REDIS_PASSWORD'', redis_Password \<circ> Redis),
      (''DB_HOST'', db_Host \<circ> Database), (''DB_USER'', db_User \<circ> Database),
      (''DB_PASSWORD'', db_Password \<circ> Database), (''DB_NAME'', DBName \<circ> Database),
      (''JWT_SECRET'', Secret \<circ> JWT)]"

definition pick :: "environment \<Rightarrow> string \<Rightarrow> string \<Rightarrow> string" where
  "pick env v x = (if env v = '''' then x else env v)"

lemma pick_pick [simp]: "pick env v (pick env v x) = pick env v x"
  by (simp add: pick_def)

lemma override_Server [simp]:
  "override env v (Server_update \<circ> Port_update) cfg =
     cfg\<lparr>Server := (Server cfg)\<lparr>Port := pick env v (Port (Server cfg))\<rparr>\<rparr>"
  "override env v (Server_update \<circ> Environment_update) cfg =
     cfg\<lparr>Server := (Server cfg)\<lparr>Environment := pick env v (Environment (Server cfg))\<rparr>\<rparr>"
  by (simp_all add: override_def pick_def)

lemma override_Redis [simp]:
  "override env v (Redis_update \<circ> redis_Host_update) cfg =
     cfg\<lparr>Redis := (Redis cfg)\<lparr>redis_Host := pick env v (redis_Host (Redis cfg))\<rparr>\<rparr>"
  "override env v (Redis_update \<circ> redis_Password_update) cfg =
     cfg\<lparr>Redis := (Redis cfg)\<lparr>redis_Password := pick env v (redis_Password (Redis cfg))\<rparr>\<rparr>"
  by (simp_all add: override_def pick_def)

lemma override_Database [simp]:
  "override env v (Database_update \<circ> db_Host_update) cfg =
     cfg\<lparr>Database := (Database cfg)\<lparr>db_Host := pick env v (db_Host (Database cfg))\<rparr>\<rparr>"
  "override env v (Database_update \<circ> db_User_update) cfg =
     cfg\<lparr>Database := (Database cfg)\<lparr>db_User := pick env v (db_User (Database cfg))\<rparr>\<rparr>"
  "override env v (Database_update \<circ> db_Password_update) cfg =
     cfg\<lparr>Database := (Database cfg)\<lparr>db_Password := pick env v (db_Password (Database cfg))\<rparr>\<rparr>"
  "override env v (Database_update \<circ> DBName_update) cfg =
     cfg\<lparr>Database := (Database cfg)\<lparr>DBName := pick env v (DBName (Database cfg))\<rparr>\<rparr>"
  by (simp_all add: override_def pick_def)

lemma override_JWT [simp]:
  "override env v (JWT_update \<circ> Secret_update) cfg =
     cfg\<lparr>JWT := (JWT cfg)\<lparr>Secret := pick env v (Secret (JWT cfg))\<rparr>\<rparr>"
  by (simp add: override_def pick_def)

text \<open>\<^bold>\<open>Environment overrides.\<close> After \<open>applyEnvOverrides\<close> each of the nine overridable
  fields holds the value of its variable if that is not empty and its old value otherwise;
  every other field is unchanged, and overriding twice is overriding once.\<close>

theorem env_overrides_exact:
  "list_all (\<lambda>(v, get). get (applyEnvOverrides env cfg) =
                           (if env v = '''' then get cfg else env v)) env_fields \<and>
   redis_Port (Redis (applyEnvOverrides env cfg)) = redis_Port (Redis cfg) \<and>
   DB (Redis (applyEnvOverrides env cfg)) = DB (Redis cfg) \<and>
   db_Port (Database (applyEnvOverrides env cfg)) = db_Port (Database cfg) \<and>
   SSLMode (Database (applyEnvOverrides env cfg)) = SSLMode (Database cfg) \<and>
   ExpiryHours (JWT (applyEnvOverrides env cfg)) = ExpiryHours (JWT cfg) \<and>
   Analytics (applyEnvOverrides env cfg) = Analytics cfg \<and>
   Services (applyEnvOverrides env cfg) = Services cfg \<and>
   RateLimitTiers (applyEnvOverrides env cfg) = RateLimitTiers cfg \<and>
   applyEnvOverrides env (applyEnvOverrides env cfg) = applyEnvOverrides env cfg"
  by (simp add: applyEnvOverrides_def env_fields_def flip: pick_def)

lemma Load_validated:
  "Load ReadFile parse env path = Inr cfg \<longleftrightarrow>
     (\<exists>txt j cfg0. ReadFile path = Inr txt \<and> parse txt = Inr j \<and>
        decode_Config j zero_Config = (cfg0, False) \<and> validate (applyEnvOverrides env cfg0) = (cfg, None))"
  by (auto simp: Load_def Unmarshal_def split: sum.splits prod.splits option.splits if_splits)

lemma Load_complete:
  "Load ReadFile parse env path = Inr cfg \<Longrightarrow> required_fields cfg \<and> 0 < ExpiryHours (JWT cfg)"
  unfolding Load_validated validate_ok by (metis expiry_positive required_default_expiry)

text \<open>C24: \<^bold>\<open>Loading.\<close> \<open>Load\<close> succeeds exactly if the file can be read and decoded and, after
  the environment overrides, every required field is present (port, Redis host, database
  host and name, JWT secret, at least one service, and a path and a target for each); the
  result is then that configuration, with the token lifetime defaulted to 24 hours, so it
  has all required fields and a positive lifetime.\<close>

theorem Load_succeeds_iff:
  "(Load ReadFile parse env path = Inr cfg \<longleftrightarrow>
      (\<exists>txt j cfg0. ReadFile path = Inr txt \<and> parse txt = Inr j \<and>
         decode_Config j zero_Config = (cfg0, False) \<and>
         required_fields (applyEnvOverrides env cfg0) \<and>
         cfg = default_expiry (applyEnvOverrides env cfg0))) \<and>
   (Load ReadFile parse env path = Inr cfg \<longrightarrow>
      required_fields cfg \<and> 0 < ExpiryHours (JWT cfg))"
  using Load_complete [of ReadFile parse env path cfg] unfolding Load_validated validate_ok by simp

text \<open>A small document: the secret comes from the environment, the lifetime is defaulted.\<close>

definition demo_document :: json where
  "demo_document = JObj
     [(''server'', JObj [(''port'', JStr ''8080'')]),
      (''redis'', JObj [(''host'', JStr ''localhost''), (''port'', JInt 6379)]),
      (''database'', JObj [(''host'', JStr ''localhost''), (''dbname'', JStr ''gateway'')]),
      (''services'', JList [JObj [(''path'', JStr ''/api''),
         (''targets'', JList [JStr ''http://a''])]])]"

definition demo_env :: environment where
  "demo_env v = (if v = ''JWT_SECRET'' then ''s3cret'' else '''')"

lemma demo_decoded:
  "decode_Config demo_document zero_Config =
     (zero_Config\<lparr>Server := \<lparr>Port = ''8080'', Environment = ''''\<rparr>,
        Redis := \<lparr>redis_Host = ''localhost'', redis_Port = 6379, redis_Password = '''', DB = 0\<rparr>,
        Database := (Database zero_Config)\<lparr>db_Host := ''localhost'', DBName := ''gateway''\<rparr>,
        Services := [zero_ServiceConfig\<lparr>svc_Path := ''/api'', svc_Targets := [''http://a'']\<rparr>]\<rparr>, False)"
  by (simp add: demo_document_def decode_Config_def decode_struct_def find_field_def decode_field_def
      decode_ServerConfig_def decode_RedisConfig_def decode_DatabaseConfig_def decode_list_def
      decode_ServiceConfig_def decode_string_def decode_int_def int64_def zero_Config_def
      zero_ServiceConfig_def)

theorem Load_succeeds_iff_witness:
  "\<exists>cfg. Load (\<lambda>path. Inr ''text'') (\<lambda>txt. Inr demo_document) demo_env ''config.json'' = Inr cfg \<and>
     Secret (JWT cfg) = ''s3cret'' \<and> required_fields cfg \<and> 0 < ExpiryHours (JWT cfg)"
proof -
  obtain cfg0 where cfg0: "decode_Config demo_document zero_Config = (cfg0, False)"
      "required_fields (applyEnvOverrides demo_env cfg0)"
      "Secret (JWT (applyEnvOverrides demo_env cfg0)) = ''s3cret''"
    by (rule that [OF demo_decoded])
      (simp_all add: required_fields_def applyEnvOverrides_def pick_def demo_env_def)
  let ?cfg = "default_expiry (applyEnvOverrides demo_env cfg0)"
  have "Secret (JWT ?cfg) = ''s3cret''" using cfg0(3) by (simp add: default_expiry_def)
  moreover have "Load (\<lambda>path. Inr ''text'') (\<lambda>txt. Inr demo_document) demo_env ''config.json'' = Inr ?cfg"
    using Load_succeeds_iff [of "\<lambda>path. Inr ''text''" "\<lambda>txt. Inr demo_document" demo_env
        "''config.json''" ?cfg] cfg0 by blast
  ultimately show ?thesis
    using Load_succeeds_iff [of "\<lambda>path. Inr ''text''" "\<lambda>txt. Inr demo_document" demo_env
        "''config.json''" ?cfg] by blast
qed

text \<open>\<^bold>\<open>A health-check timeout that is never read.\<close> The tag of \<open>TimeoutSeconds\<close> is
  \<open>timeout\<close>, while the configuration file that ships with the gateway writes
  \<open>timeout_seconds\<close>, as it does for the circuit breaker: wherever that member stands in the
  object, decoding ignores it.\<close>

theorem health_check_timeout_ignored:
  "decode_HealthCheckConfig (JObj (xs @ (''timeout_seconds'', j) # ys)) x =
     decode_HealthCheckConfig (JObj (xs @ ys)) x"
  unfolding decode_HealthCheckConfig_def
  by (rule decode_struct_unknown) (rule find_field_None; simp add: fold_name_plain plain_def)

end
