(* ===== verification/Middleware.thy ===== *)
theory Middleware
  imports RateLimit Config Gin
begin

text \<open>
  The middleware of \<open>src/internal/middleware\<close> that is not tied to a service: recovery from
  panics, request identifiers, the access log, CORS headers and rate limiting.  The
  validation of API keys, the check of tokens and the request log are in the theories of
  their components.

  A middleware takes the rest of the chain as an argument.  Each of them calls it at most
  once, and aborts the chain otherwise.
\<close>

section \<open>Recovery, request identifiers, access log, CORS\<close>

definition Recovery :: "'w middleware" where
  "Recovery nxt w c =
     (case nxt w c of
        Returned w c \<Rightarrow> Returned w c
      | Panicked err w c \<Rightarrow>
          (let c1 = call (Printf ''[%s] PANIC: %v'' [JStr (ctx_GetString ''request_id'' c)]) c
           in reject 500 (error_body ''Internal Server Error'') w c1))"

text \<open>\<open>fresh\<close> is the text of the identifier that \<open>uuid.New()\<close> returns.\<close>

definition RequestID :: "string \<Rightarrow> 'w middleware" where
  "RequestID fresh nxt w c =
     (let requestID = Header_Get ''X-Request-Id'' (Request c);
          requestID = (if requestID = '''' then fresh else requestID);
          c1 = ctx_Set ''request_id'' (VString requestID) c;
          c2 = call (Header_call ''X-Request-ID'' requestID) c1
      in nxt w c2)"

definition Logger :: "framework \<Rightarrow> clock \<Rightarrow> 'w middleware" where
  "Logger fw ts nxt w c =
     (let start = ts 0; path = URL_Path (Request c); meth = Method (Request c)
      in case nxt w c of
           Panicked p w c \<Rightarrow> Panicked p w c
         | Returned w c \<Rightarrow>
             (let latency = time_Sub (ts 1) start;
                  statusCode = Writer_Status fw (calls c);
                  requestID = ctx_GetString ''request_id'' c
              in Returned w (call (Printf ''[%s] %s %s - %d - %v - %s''
                   [JStr requestID, JStr meth, JStr path, JInt statusCode, JInt latency,
                    JStr (ClientIP c)]) c)))"

definition cors_headers :: "(string \<times> string) list" where
  "cors_headers =
     [(''Access-Control-Allow-Origin'', ''*''),
      (''Access-Control-Allow-Methods'', ''GET, POST, PUT, DELETE, OPTIONS''),
      (''Access-Control-Allow-Headers'',
         ''Origin, Content-Type, Content-Length, Accept-Encoding, X-CSRF-Token, Authorization, X-API-Key''),
      (''Access-Control-Expose-Headers'',
         ''Content-Length, X-RateLimit-Limit, X-RateLimit-Remaining, X-RateLimit-Reset''),
      (''Access-Control-Allow-Credentials'', ''true'')]"

definition CORS :: "'w middleware" where
  "CORS nxt w c =
     (let c1 = fold (\<lambda>(k, v). call (Header_call k v)) cors_headers c
      in if Method (Request c1) = ''OPTIONS'' then Returned w (call (AbortWithStatus 204) c1)
         else nxt w c1)"

section \<open>Rate limiting\<close>

fun findTierConfig :: "RateLimiterTier list \<Rightarrow> string \<Rightarrow> RateLimiterTier option" where
  "findTierConfig [] tierName = None"
| "findTierConfig (tier # rest) tierName =
     (if rlt_Name tier = tierName then Some tier else findTierConfig rest tierName)"

record rate_parameters =
  rp_tier :: string
  rp_limit :: int
  rp_algorithm :: string
  rp_key :: string

definition key_parameters :: "Config \<Rightarrow> APIKey \<Rightarrow> rate_parameters" where
  "key_parameters cfg apiKey =
     (case findTierConfig (RateLimitTiers cfg) (Tier apiKey) of
        Some tierConfig \<Rightarrow>
          \<lparr>rp_tier = Tier apiKey, rp_limit = RequestsPerMinute tierConfig,
           rp_algorithm = Algorithm tierConfig, rp_key = ID apiKey\<rparr>
      | None \<Rightarrow>
          \<lparr>rp_tier = Tier apiKey, rp_limit = 60, rp_algorithm = ''fixed_window'', rp_key = ID apiKey\<rparr>)"

definition anonymous_parameters :: "Config \<Rightarrow> gin_ctx \<Rightarrow> rate_parameters" where
  "anonymous_parameters cfg c =
     (case RateLimitTiers cfg of
        tierConfig # rest \<Rightarrow>
          \<lparr>rp_tier = ''basic'', rp_limit = RequestsPerMinute tierConfig,
           rp_algorithm = Algorithm tierConfig, rp_key = ClientIP c\<rparr>
      | [] \<Rightarrow>
          \<lparr>rp_tier = ''basic'', rp_limit = 60, rp_algorithm = ''fixed_window'', rp_key = ClientIP c\<rparr>)"

text \<open>The first half of the middleware: a value of another type under the key makes the type
  assertion panic; a nil value counts as absent.\<close>

definition rate_parameters_of :: "Config \<Rightarrow> gin_ctx \<Rightarrow> rate_parameters outcome" where
  "rate_parameters_of cfg c =
     (case Keys c ''api_key'' of
        None \<Rightarrow> Inr (anonymous_parameters cfg c)
      | Some (VAPIKey apiKey) \<Rightarrow> Inr (key_parameters cfg apiKey)
      | Some (VJson JNull) \<Rightarrow> Inr (anonymous_parameters cfg c)
      | Some _ \<Rightarrow> Inl InterfaceConversion)"

definition rate_headers :: "rate_parameters \<Rightarrow> Limiter \<Rightarrow> int \<Rightarrow> time \<Rightarrow> gin_ctx \<Rightarrow> gin_ctx" where
  "rate_headers p rl remaining resetTime c =
     (let c1 = call (Header_call ''X-RateLimit-Limit'' (Itoa (Limiter_Limit rl))) c;
          c2 = call (Header_call ''X-RateLimit-Remaining'' (Itoa remaining)) c1;
          c3 = call (Header_call ''X-RateLimit-Reset'' (Itoa (time_Unix resetTime))) c2
      in call (Header_call ''X-RateLimit-Tier'' (rp_tier p)) c3)"

definition too_many_requests :: "rate_parameters \<Rightarrow> time \<Rightarrow> time \<Rightarrow> 'w \<Rightarrow> gin_ctx \<Rightarrow> 'w result" where
  "too_many_requests p resetTime now w c =
     (let retryAfter = int_of_float (Duration_Seconds (time_Sub resetTime now));
          retryAfter = (if retryAfter < 0 then 0 else retryAfter);
          c1 = call (Header_call ''Retry-After'' (Itoa retryAfter)) c
      in reject 429 (JObj [(''error'', JStr ''Rate limit exceeded''), (''limit'', JInt (rp_limit p)),
           (''retry_after'', JInt (time_Unix resetTime)), (''tier'', JStr (rp_tier p))]) w c1)"

text \<open>\<open>get\<close> and \<open>put\<close> give access to the Redis server in the state of the handlers.  The clocks:
  \<open>ts 0\<close>, \<open>ts 1\<close> and \<open>ts 2\<close> for the three calls of the limiter, \<open>ts 3\<close> for \<open>time.Until\<close>.\<close>

definition RateLimitWithTier ::
    "'r redis_client \<Rightarrow> codec \<Rightarrow> Config \<Rightarrow> (nat \<Rightarrow> clock) \<Rightarrow> ('w \<Rightarrow> 'r) \<Rightarrow> ('r \<Rightarrow> 'w \<Rightarrow> 'w) \<Rightarrow>
     'w middleware" where
  "RateLimitWithTier redis codec cfg ts get put nxt w c =
     (case rate_parameters_of cfg c of
        Inl panic \<Rightarrow> Panicked panic w c
      | Inr p \<Rightarrow>
          (case NewLimiter (rp_algorithm p) (rp_limit p) Minute of
             Inl panic \<Rightarrow> Panicked panic w c
           | Inr rl \<Rightarrow>
               (case Limiter_Allow redis codec rl (ts 0) (rp_key p) (get w) of
                  (Inl panic, r) \<Rightarrow> Panicked panic (put r w) c
                | (Inr (allowed, Some err), r) \<Rightarrow>
                    reject 500 (error_body ''Rate limit check failed'') (put r w) c
                | (Inr (allowed, None), r) \<Rightarrow>
                    (case Limiter_Remaining redis codec rl (ts 1) (rp_key p) r of
                       (Inl panic, r) \<Rightarrow> Panicked panic (put r w) c
                     | (Inr (remaining, _), r) \<Rightarrow>
                         (case Limiter_Reset redis codec rl (ts 2) (rp_key p) r of
                            (Inl panic, r) \<Rightarrow> Panicked panic (put r w) c
                          | (Inr (resetTime, _), r) \<Rightarrow>
                              (let c1 = rate_headers p rl remaining resetTime c
                               in if \<not> allowed
                                  then too_many_requests p resetTime (ts 3 0) (put r w) c1
                                  else nxt (put r w) c1))))))"

section \<open>The limiter in the middleware\<close>

lemma findTierConfig_find: "findTierConfig tiers name = find (\<lambda>t. rlt_Name t = name) tiers"
  by (induction tiers) auto

text \<open>For the window of a minute nothing in a limiter divides by zero.\<close>

lemma minute_window_seconds [simp]: "window_seconds (NewFixedWindow limit Minute) = 60"
  by (simp add: window_seconds_def NewFixedWindow_def)

lemma minute_currentWindow: "\<exists>w. currentWindow (NewFixedWindow limit Minute) t = Inr w"
  by (simp add: currentWindow_def)

lemma NewLimiter_minute_total: "\<exists>l. NewLimiter algorithm limit Minute = Inr l"
  by (simp add: NewLimiter_def Let_def)

lemma minute_fixed_total:
  "\<exists>ok err r'. FixedWindow_Allow redis (NewFixedWindow limit Minute) ts key r = (Inr (ok, err), r')"
  "\<exists>n err r'. FixedWindow_Remaining redis (NewFixedWindow limit Minute) ts key r = (Inr (n, err), r')"
  "\<exists>t err. FixedWindow_Reset (NewFixedWindow limit Minute) ts key = Inr (t, err)"
  using minute_currentWindow [of limit "ts 0"]
  by (auto simp: FixedWindow_Allow_def fw_incr_def FixedWindow_Remaining_def FixedWindow_Reset_def Let_def
      split: prod.splits sum.splits)

lemma apfst_Inr_pair: "\<exists>a b r'. apfst Inr p = (Inr (a, b), r')"
  by (cases p) auto

lemma minute_limiter_total:
  assumes "NewLimiter algorithm limit Minute = Inr l"
  shows "\<exists>ok err r'. Limiter_Allow redis codec l ts key r = (Inr (ok, err), r')"
    and "\<exists>n err r'. Limiter_Remaining redis codec l ts key r = (Inr (n, err), r')"
    and "\<exists>t err r'. Limiter_Reset redis codec l ts key r = (Inr (t, err), r')"
proof -
  have "l = Fixed (NewFixedWindow limit Minute) \<or> (\<exists>x. l = Sliding x) \<or> (\<exists>x. l = Bucket x)"
    using assms by (auto simp: NewLimiter_def Let_def split: if_splits)
  then show "\<exists>ok err r'. Limiter_Allow redis codec l ts key r = (Inr (ok, err), r')"
    and "\<exists>n err r'. Limiter_Remaining redis codec l ts key r = (Inr (n, err), r')"
    and "\<exists>t err r'. Limiter_Reset redis codec l ts key r = (Inr (t, err), r')"
    by (elim disjE exE; simp add: minute_fixed_total apfst_Inr_pair)+
qed

text \<open>C37: The rate-limiting middleware never panics, and decides as the limiter of the tier: a
  request goes on exactly when \<open>Allow\<close> admits it without an error, with the four headers set;
  it is answered with 429 and aborted when \<open>Allow\<close> refuses it, and with 500 when the check
  fails.  The client is the API key, or the address of the connection.\<close>

theorem rate_limit_decides:
  assumes "Keys c ''api_key'' = None \<or> Keys c ''api_key'' = Some (VAPIKey a)"
  shows "\<exists>p l. rate_parameters_of cfg c = Inr p \<and>
     rp_key p = (if Keys c ''api_key'' = None then ClientIP c else ID a) \<and>
     NewLimiter (rp_algorithm p) (rp_limit p) Minute = Inr l \<and>
     (case Limiter_Allow redis codec l (ts 0) (rp_key p) (get w) of
        (Inl panic, r) \<Rightarrow> False
      | (Inr (ok, Some err), r) \<Rightarrow>
          RateLimitWithTier redis codec cfg ts get put nxt w c =
            reject 500 (error_body ''Rate limit check failed'') (put r w) c
      | (Inr (True, None), r) \<Rightarrow>
          \<exists>r' n t. RateLimitWithTier redis codec cfg ts get put nxt w c =
            nxt (put r' w) (rate_headers p l n t c)
      | (Inr (False, None), r) \<Rightarrow>
          \<exists>r' n t. RateLimitWithTier redis codec cfg ts get put nxt w c =
            too_many_requests p t (ts 3 0) (put r' w) (rate_headers p l n t c))"
proof -
  obtain p where p: "rate_parameters_of cfg c = Inr p"
      "rp_key p = (if Keys c ''api_key'' = None then ClientIP c else ID a)"
    using assms
    by (auto simp: rate_parameters_of_def key_parameters_def anonymous_parameters_def
        split: option.splits list.splits)
  obtain l where l: "NewLimiter (rp_algorithm p) (rp_limit p) Minute = Inr l"
    using NewLimiter_minute_total by blast
  obtain ok err r where allow: "Limiter_Allow redis codec l (ts 0) (rp_key p) (get w) = (Inr (ok, err), r)"
    using minute_limiter_total(1) [OF l, of redis codec "ts 0" "rp_key p" "get w"] by blast
  obtain n e r1 where rem: "Limiter_Remaining redis codec l (ts 1) (rp_key p) r = (Inr (n, e), r1)"
    using minute_limiter_total(2) [OF l, of redis codec "ts 1" "rp_key p" r] by blast
  obtain t e' r2 where res: "Limiter_Reset redis codec l (ts 2) (rp_key p) r1 = (Inr (t, e'), r2)"
    using minute_limiter_total(3) [OF l, of redis codec "ts 2" "rp_key p" r1] by blast
  show ?thesis
    by (intro exI [of _ p] exI [of _ l] conjI p l)
       (auto simp: allow RateLimitWithTier_def p(1) l rem [simplified] res Let_def split: option.splits bool.splits)
qed

section \<open>The limit, end to end\<close>

text \<open>A sequence of requests through the middleware, on one Redis server.  The state of the
  handlers is the server and a flag that the rest of the chain sets.\<close>

datatype verdict = Passed | Limited | Failed

definition serve ::
    "'r redis_client \<Rightarrow> codec \<Rightarrow> Config \<Rightarrow> (nat \<Rightarrow> clock) \<Rightarrow> gin_ctx \<Rightarrow> 'r \<Rightarrow> verdict \<times> 'r" where
  "serve redis codec cfg ts c r =
     (let res = RateLimitWithTier redis codec cfg ts fst (\<lambda>r w. (r, snd w))
                  (\<lambda>w c. Returned (fst w, True) c) (r, False) c;
          answer = drop (length (calls c)) (calls (result_ctx res))
      in (if snd (result_world res) then Passed
          else if list_ex (\<lambda>x. case x of JSON code body \<Rightarrow> code = 429 | _ \<Rightarrow> False) answer then Limited
          else Failed,
          fst (result_world res)))"

fun serve_all ::
    "'r redis_client \<Rightarrow> codec \<Rightarrow> Config \<Rightarrow> ((nat \<Rightarrow> clock) \<times> gin_ctx) list \<Rightarrow> 'r \<Rightarrow> verdict list" where
  "serve_all redis codec cfg [] r = []"
| "serve_all redis codec cfg ((ts, c) # reqs) r =
     (case serve redis codec cfg ts c r of (v, r) \<Rightarrow> v # serve_all redis codec cfg reqs r)"

definition client_of :: "Config \<Rightarrow> gin_ctx \<Rightarrow> string" where
  "client_of cfg c = (case rate_parameters_of cfg c of Inl panic \<Rightarrow> '''' | Inr p \<Rightarrow> rp_key p)"

definition window_of :: "(nat \<Rightarrow> clock) \<Rightarrow> int" where
  "window_of ts = time_Unix (ts 0 0) div 60"

text \<open>The requests of a client in a window, and those that passed.\<close>

definition of_client :: "Config \<Rightarrow> string \<Rightarrow> int \<Rightarrow> ((nat \<Rightarrow> clock) \<times> gin_ctx) \<Rightarrow> bool" where
  "of_client cfg k W x \<longleftrightarrow> client_of cfg (snd x) = k \<and> window_of (fst x) = W"

definition passes ::
    "Config \<Rightarrow> string \<Rightarrow> int \<Rightarrow> (((nat \<Rightarrow> clock) \<times> gin_ctx) \<times> verdict) list \<Rightarrow> nat" where
  "passes cfg k W xs = length (filter (\<lambda>(x, v). of_client cfg k W x \<and> v = Passed) xs)"

text \<open>A request of a tier with the fixed-window algorithm and the limit \<open>L\<close>, whose \<open>INCR\<close> reaches
  the server within its window.\<close>

definition fixed_request :: "Config \<Rightarrow> int \<Rightarrow> (nat \<Rightarrow> clock) \<times> gin_ctx \<Rightarrow> bool" where
  "fixed_request cfg L x \<longleftrightarrow>
     (\<exists>p. rate_parameters_of cfg (snd x) = Inr p \<and> rp_limit p = L \<and> rp_algorithm p = ''fixed_window'') \<and>
     (let ts = fst x
      in 0 \<le> ts 0 0 \<and> int64 (time_Unix (ts 0 0)) \<and> time_Unix (ts 0 1) div 60 = window_of ts \<and>
         ts 0 1 \<le> ts 0 2)"

lemma currentWindow_of:
  assumes "0 \<le> t" "int64 (time_Unix t)"
  shows "currentWindow (NewFixedWindow L Minute) t = Inr (time_Unix t div 60)"
proof -
  have "0 \<le> time_Unix t" using assms(1) by (simp add: time_Unix_def pos_imp_zdiv_nonneg_iff)
  moreover from this have "0 \<le> time_Unix t div 60" "time_Unix t div 60 \<le> time_Unix t" by linarith+
  then have "int64 (time_Unix t div 60)" using assms(2) by (simp add: int64_def)
  ultimately show ?thesis by (simp add: currentWindow_def sdiv_60)
qed

lemma fixed_serve:
  assumes conf: "redis_conforms redis view ttl" and req: "fixed_request cfg L (ts, c)"
    and allow: "FixedWindow_Allow redis (NewFixedWindow L Minute) (ts 0) (client_of cfg c) r = (Inr (ok, err), r1)"
  shows "\<exists>r'. serve redis codec cfg ts c r =
           (if err \<noteq> None then Failed else if ok then Passed else Limited, r') \<and> view r' = view r1"
proof -
  let ?f = "NewFixedWindow L Minute"
  obtain p where p: "rate_parameters_of cfg c = Inr p" "rp_limit p = L" "rp_algorithm p = ''fixed_window''"
    using req by (auto simp: fixed_request_def)
  have key: "client_of cfg c = rp_key p" by (simp add: client_of_def p(1))
  have new: "NewLimiter (rp_algorithm p) (rp_limit p) Minute = Inr (Fixed ?f)"
    by (simp add: NewLimiter_def p)
  obtain n e r2 where rem: "FixedWindow_Remaining redis ?f (ts 1) (rp_key p) r1 = (Inr (n, e), r2)"
    using minute_fixed_total(2) [of redis L "ts 1" "rp_key p" r1] by blast
  obtain t e' where res: "FixedWindow_Reset ?f (ts 2) (rp_key p) = Inr (t, e')"
    using minute_fixed_total(3) [of L "ts 2" "rp_key p"] by blast
  obtain w reply where "Redis_Get redis (ts 1 1) (remaining_key (rp_key p) w) r1 = (reply, r2)"
    using rem minute_currentWindow [of L "ts 1 0"]
    by (auto simp: FixedWindow_Remaining_def Let_def split: prod.splits sum.splits if_splits)
  from replied_db [OF conforms_Get [OF conf this]] have "view r2 = view r1" by simp
  then show ?thesis
    using allow
    by (cases err; cases ok)
       (simp_all add: serve_def RateLimitWithTier_def p(1) key new rem [simplified] res Let_def
         rate_headers_def too_many_requests_def reject_def)
qed

text \<open>What the fixed-window limiter knows after a history \<open>l\<close> of replies.\<close>

definition tally ::
    "'r redis_client \<Rightarrow> ('r \<Rightarrow> rdb) \<Rightarrow> (time \<Rightarrow> duration \<Rightarrow> time) \<Rightarrow> int \<Rightarrow> 'r \<Rightarrow>
     (string \<times> int \<times> (go_error + int)) list \<Rightarrow> bool" where
  "tally redis view ttl L r l \<longleftrightarrow>
     (\<exists>st. fw_redis st = r \<and> fw_log st = l \<and> fw_inv redis view ttl (NewFixedWindow L Minute) 60 st)"

lemma tally_view: "tally redis view ttl L r l \<Longrightarrow> view r' = view r \<Longrightarrow> tally redis view ttl L r' l"
  unfolding tally_def by (elim exE conjE) (rule_tac x = "st\<lparr>fw_redis := r'\<rparr>" in exI, simp add: fw_inv_def)

lemma tally_serve:
  assumes "tally redis view ttl L r l" "fixed_request cfg L (ts, c)"
  obtains v r' res where "serve redis codec cfg ts c r = (v, r')"
    and "tally redis view ttl L r' (l @ [(client_of cfg c, window_of ts, res)])"
    and "v = Passed \<longleftrightarrow> admits (NewFixedWindow L Minute) res" "v = Failed \<longleftrightarrow> isl res"
proof -
  let ?f = "NewFixedWindow L Minute" and ?k = "client_of cfg c"
  obtain st where st: "fw_redis st = r" "fw_log st = l" "fw_inv redis view ttl ?f 60 st"
    using assms(1) by (auto simp: tally_def)
  obtain ok err r1 where allow: "FixedWindow_Allow redis ?f (ts 0) ?k r = (Inr (ok, err), r1)"
    using minute_fixed_total(1) [of redis L "ts 0" ?k r] by blast
  have w: "currentWindow ?f (ts 0 0) = Inr (window_of ts)"
      "time_Unix (ts 0 1) div window_seconds ?f = window_of ts" "ts 0 1 \<le> ts 0 2"
    using assms(2) currentWindow_of [of "ts 0 0" L]
    by (auto simp: fixed_request_def window_of_def Let_def)
  obtain es st' res where st': "run (fw_step redis ?f) st es st'" "fw_redis st' = r1"
      "fw_log st' = l @ [(?k, window_of ts, res)]"
      "ok = admits ?f res" "err = (case res of Inl e \<Rightarrow> Some e | Inr n \<Rightarrow> None)"
    using fw_allow_run [OF _ w, of redis ?k st ok err r1] allow st(1, 2) by auto
  have new: "tally redis view ttl L r1 (l @ [(?k, window_of ts, res)])"
    using fixed_window.inv_run [OF st'(1) st(3)] st'(2, 3) by (auto simp: tally_def)
  have conf: "redis_conforms redis view ttl" using st(3) by (simp add: fw_inv_def)
  obtain r' where r': "serve redis codec cfg ts c r =
      (if err \<noteq> None then Failed else if ok then Passed else Limited, r')" "view r' = view r1"
    using fixed_serve [OF conf assms(2) allow, of codec] by blast
  show ?thesis
    by (rule that [OF r'(1) tally_view [OF new r'(2)]])
       (use st'(4, 5) in \<open>auto simp: admits_def split: sum.splits\<close>)
qed

lemma tally_counts:
  "tally redis view ttl L r l \<Longrightarrow>
     admitted (NewFixedWindow L Minute) l k W \<le> nat L \<and>
     (no_errors l \<longrightarrow> admitted (NewFixedWindow L Minute) l k W = min (requested l k W) (nat L))"
  by (auto simp: tally_def fw_inv_def fw_counts_def NewFixedWindow_def)

lemma serve_all_counts:
  assumes "tally redis view ttl L r l" "list_all (fixed_request cfg L) reqs"
  shows "(let f = NewFixedWindow L Minute; vs = serve_all redis codec cfg reqs r in
     admitted f l k W + passes cfg k W (zip reqs vs) \<le> nat L \<and>
     (no_errors l \<and> Failed \<notin> set vs \<longrightarrow>
        admitted f l k W + passes cfg k W (zip reqs vs) =
          min (requested l k W + length (filter (of_client cfg k W) reqs)) (nat L)))"
  using assms
proof (induction reqs arbitrary: r l)
  case Nil
  then show ?case using tally_counts [OF Nil(1)] by (simp add: passes_def Let_def)
next
  case (Cons x reqs)
  obtain ts c where x: "x = (ts, c)" by (cases x)
  obtain v r' res where step: "serve redis codec cfg ts c r = (v, r')"
      "tally redis view ttl L r' (l @ [(client_of cfg c, window_of ts, res)])"
      "v = Passed \<longleftrightarrow> admits (NewFixedWindow L Minute) res" "v = Failed \<longleftrightarrow> isl res"
    using tally_serve [OF Cons.prems(1), of cfg ts c codec] Cons.prems(2) x by auto
  have mine: "of_client cfg k W x \<longleftrightarrow> k = client_of cfg c \<and> W = window_of ts"
    by (auto simp: of_client_def x)
  show ?case
    using Cons.IH [OF step(2)] Cons.prems(2) step(1, 3, 4)
    by (auto simp: x mine [unfolded x] passes_def Let_def)
qed


section \<open>Instances\<close>

definition demo_limits :: Config where
  "demo_limits = zero_Config\<lparr>RateLimitTiers :=
     [\<lparr>rlt_Name = ''basic'', RequestsPerMinute = 1, RequestsPerHour = 0, Algorithm = ''fixed_window''\<rparr>]\<rparr>"

definition demo_visitor :: gin_ctx where
  "demo_visitor =
     \<lparr>Request = \<lparr>Method = ''GET'', URL_Path = ''/'', URL_Host = '''', URL_Scheme = '''', Host = ''h'',
        Header = Map.empty\<rparr>, Body = '''', ClientIP = ''10.0.0.1'', Query = Map.empty,
      Param = Map.empty, Keys = Map.empty, calls = []\<rparr>"

abbreviation demo_requests :: "((nat \<Rightarrow> clock) \<times> gin_ctx) list" where
  "demo_requests \<equiv> [(\<lambda>i j. 5 * Second, demo_visitor), (\<lambda>i j. 6 * Second, demo_visitor)]"

lemma demo_parameters:
  "rate_parameters_of demo_limits demo_visitor =
     Inr \<lparr>rp_tier = ''basic'', rp_limit = 1, rp_algorithm = ''fixed_window'', rp_key = ''10.0.0.1''\<rparr>"
  by (simp add: rate_parameters_of_def anonymous_parameters_def demo_limits_def demo_visitor_def)

theorem rate_limit_decides_witness:
  "\<exists>p l. rate_parameters_of demo_limits demo_visitor = Inr p \<and> rp_key p = ''10.0.0.1'' \<and>
     NewLimiter (rp_algorithm p) (rp_limit p) Minute = Inr l"
proof -
  have "Keys demo_visitor ''api_key'' = None" by (simp add: demo_visitor_def)
  then show ?thesis
    using rate_limit_decides [where c = demo_visitor and cfg = demo_limits and redis = mem_client and
        codec = demo_codec and ts = "\<lambda>i j. 0" and get = id and w = Map.empty and put = "\<lambda>r w. r" and
        nxt = Returned]
    by (fastforce simp: demo_visitor_def)
qed


end
