(* ===== verification/GatewayServer.thy ===== *)
theory GatewayServer
  imports SystemHandler Postgres Auth ApiKeys RequestLogger Middleware
begin

text \<open>
  The server, \<open>src/internal/server/server.go\<close>: it builds the services and the proxies from the
  configuration, registers the middleware and the routes, and so puts the components together.
  A request runs through the seven middleware and then, for a route of the administration,
  through the check of tokens, to the handler of its route.

  The router is the framework's: which routes it accepts and which one it selects are
  parameters, and so are the other libraries (\<open>platform\<close>) and what a request draws from the
  clock and from random sources (\<open>inputs\<close>).  Handlers share the \<open>world\<close>: the stores, the
  request log and the proxies.
\<close>

section \<open>Platform and world\<close>

record gin_engine =
  ge_join :: "string \<Rightarrow> string \<Rightarrow> string"
  ge_conflict :: "(string \<times> string) list \<Rightarrow> string \<times> string \<Rightarrow> bool"
  ge_match :: "(string \<times> string) list \<Rightarrow> string \<Rightarrow> string \<Rightarrow> ((string \<times> string) \<times> (string \<rightharpoonup> string)) option"

record 'g platform =
  pf_engine :: gin_engine
  pf_fw :: framework
  pf_keys :: key_env
  pf_lib :: go_library
  pf_bcrypt :: bcrypt
  pf_jwt :: jwt
  pf_codec :: codec
  pf_parse :: url_parser
  pf_backend :: backend
  pf_intn :: "'g intn"
  pf_startTime :: time

text \<open>The clocks of a request: 0 for the access log, 1 for the request log, 2 for the validation of
  the key, 3 to 6 for the rate limit, 7 for the check of the token and 8 for the handler.\<close>

record inputs =
  in_request_id :: string
  in_clock :: "nat \<Rightarrow> clock"
  in_rand :: "go_error + string"
  in_uuid :: uuid
  in_salt :: string
  in_visit :: "string \<Rightarrow> string list"

record ('r, 'd, 'g) world =
  w_stores :: "('r, 'd) stores"
  w_logger :: Logger_state
  w_proxies :: "'g proxy_map"

definition put_stores :: "('r, 'd) stores \<Rightarrow> ('r, 'd, 'g) world \<Rightarrow> ('r, 'd, 'g) world" where
  "put_stores st w = w\<lparr>w_stores := st\<rparr>"

definition put_logger :: "Logger_state \<Rightarrow> ('r, 'd, 'g) world \<Rightarrow> ('r, 'd, 'g) world" where
  "put_logger l w = w\<lparr>w_logger := l\<rparr>"

definition put_proxies :: "'g proxy_map \<Rightarrow> ('r, 'd, 'g) world \<Rightarrow> ('r, 'd, 'g) world" where
  "put_proxies ps w = w\<lparr>w_proxies := ps\<rparr>"

definition get_redis :: "('r, 'd, 'g) world \<Rightarrow> 'r" where
  "get_redis w = s_redis (w_stores w)"

definition put_redis :: "'r \<Rightarrow> ('r, 'd, 'g) world \<Rightarrow> ('r, 'd, 'g) world" where
  "put_redis r w = w\<lparr>w_stores := (w_stores w)\<lparr>s_redis := r\<rparr>\<rparr>"

definition get_db :: "('r, 'd, 'g) world \<Rightarrow> 'd" where
  "get_db w = s_db (w_stores w)"

definition put_db :: "'d \<Rightarrow> ('r, 'd, 'g) world \<Rightarrow> ('r, 'd, 'g) world" where
  "put_db d w = w\<lparr>w_stores := (w_stores w)\<lparr>s_db := d\<rparr>\<rparr>"

section \<open>Routes\<close>

datatype endpoint =
    EHealth | ERegister | ELogin | EMe
  | EKeyCreate | EKeyList | EKeyGet | EKeyUpdate | EKeyDelete | EAdminStatus
  | EBreakers | EBreakerReset | EServicesHealth
  | EAnalytics | ETimeSeries | EKeyStats | ELogs
  | EProxy string

record route =
  rt_method :: string
  rt_path :: string
  rt_auth :: bool
  rt_endpoint :: endpoint

definition route_key :: "route \<Rightarrow> string \<times> string" where
  "route_key r = (rt_method r, rt_path r)"

definition add_route :: "gin_engine \<Rightarrow> route \<Rightarrow> route list \<Rightarrow> route list outcome" where
  "add_route ge r rs =
     (if ge_conflict ge (map route_key rs) (route_key r) then Inl RouteConflict else Inr (rs @ [r]))"

fun add_routes :: "gin_engine \<Rightarrow> route list \<Rightarrow> route list \<Rightarrow> route list outcome" where
  "add_routes ge [] rs = Inr rs"
| "add_routes ge (r # new) rs =
     (case add_route ge r rs of Inl p \<Rightarrow> Inl p | Inr rs \<Rightarrow> add_routes ge new rs)"

definition public_routes :: "gin_engine \<Rightarrow> route list" where
  "public_routes ge =
     map (\<lambda>(meth, prefix, path, ep).
            \<lparr>rt_method = meth, rt_path = ge_join ge prefix path, rt_auth = False, rt_endpoint = ep\<rparr>)
       [(''GET'', ''/'', ''/health'', EHealth), (''POST'', ''/auth'', ''/register'', ERegister),
        (''POST'', ''/auth'', ''/login'', ELogin), (''GET'', ''/auth'', ''/me'', EMe)]"

definition admin_routes :: "gin_engine \<Rightarrow> route list" where
  "admin_routes ge =
     map (\<lambda>(meth, path, ep).
            \<lparr>rt_method = meth, rt_path = ge_join ge ''/admin'' path, rt_auth = True, rt_endpoint = ep\<rparr>)
       [(''POST'', ''/keys'', EKeyCreate), (''GET'', ''/keys'', EKeyList), (''GET'', ''/keys/:id'', EKeyGet),
        (''PUT'', ''/keys/:id'', EKeyUpdate), (''DELETE'', ''/keys/:id'', EKeyDelete),
        (''GET'', ''/status'', EAdminStatus), (''GET'', ''/circuit-breakers'', EBreakers),
        (''POST'', ''/circuit-breakers/*service'', EBreakerReset),
        (''GET'', ''/services/health'', EServicesHealth), (''GET'', ''/analytics'', EAnalytics),
        (''GET'', ''/analytics/timeseries'', ETimeSeries), (''GET'', ''/analytics/keys/:id'', EKeyStats),
        (''GET'', ''/logs'', ELogs)]"

text \<open>The methods that \<open>Any\<close> registers.\<close>

definition anyMethods :: "string list" where
  "anyMethods =
     [''GET'', ''POST'', ''PUT'', ''PATCH'', ''HEAD'', ''OPTIONS'', ''DELETE'', ''CONNECT'', ''TRACE'']"

definition Any :: "gin_engine \<Rightarrow> string \<Rightarrow> endpoint \<Rightarrow> route list" where
  "Any ge path ep =
     map (\<lambda>meth. \<lparr>rt_method = meth, rt_path = ge_join ge ''/'' path, rt_auth = False, rt_endpoint = ep\<rparr>)
       anyMethods"

definition setupProxyRoutes :: "gin_engine \<Rightarrow> string list \<Rightarrow> route list \<Rightarrow> route list outcome" where
  "setupProxyRoutes ge paths rs =
     add_routes ge
       (concat (map (\<lambda>path. Any ge (path @ ''/*proxyPath'') (EProxy path) @ Any ge path (EProxy path)) paths)) rs"

definition setupRoutes :: "gin_engine \<Rightarrow> string list \<Rightarrow> route list outcome" where
  "setupRoutes ge paths =
     (case add_routes ge (public_routes ge @ admin_routes ge) [] of
        Inl p \<Rightarrow> Inl p
      | Inr rs \<Rightarrow> setupProxyRoutes ge paths rs)"

section \<open>Construction\<close>

definition breaker_config :: "CircuitBreakerConfig option \<Rightarrow> CBConfig" where
  "breaker_config cfg =
     (case cfg of
        Some cb \<Rightarrow>
          \<lparr>MaxFailures = cbc_MaxFailures cb, Timeout = wrap64 (cbc_TimeoutSeconds cb * Second),
           HalfOpenSuccess = cbc_HalfOpenSuccess cb\<rparr>
      | None \<Rightarrow> \<lparr>MaxFailures = 5, Timeout = 30 * Second, HalfOpenSuccess = 1\<rparr>)"

definition checker_config :: "string list \<Rightarrow> HealthCheckConfig option \<Rightarrow> HCConfig" where
  "checker_config ts cfg =
     (case cfg of
        Some hc \<Rightarrow>
          \<lparr>hc_Targets = Some ts, hc_Endpoint = hcc_Endpoint hc,
           hc_Interval = wrap64 (hcc_IntervalSeconds hc * Second),
           hc_Timeout = wrap64 (hcc_TimeoutSeconds hc * Second), hc_MaxFailures = hcc_MaxFailures hc\<rparr>
      | None \<Rightarrow>
          \<lparr>hc_Targets = Some ts, hc_Endpoint = ''/health'', hc_Interval = 10 * Second,
           hc_Timeout = 5 * Second, hc_MaxFailures = 3\<rparr>)"

definition proxy_config :: "ServiceConfig \<Rightarrow> ProxyConfig" where
  "proxy_config svc =
     \<lparr>Targets = svc_Targets svc, LoadBalancerStrategy = svc_LoadBalancer svc,
      pc_CircuitBreaker = breaker_config (svc_CircuitBreaker svc),
      pc_HealthCheck = checker_config (svc_Targets svc) (svc_HealthCheck svc)\<rparr>"

text \<open>What the construction of one proxy draws from outside: see \<open>NewWithConfig\<close>.\<close>

record 'g service_input =
  si_rng :: 'g
  si_http :: http_client
  si_jobs :: "job list"
  si_now :: time
  si_clock :: clock

fun initializeProxies ::
    "url_parser \<Rightarrow> (nat \<Rightarrow> 'g service_input) \<Rightarrow> ServiceConfig list \<Rightarrow> 'g proxy_map \<Rightarrow> 'g proxy_map outcome" where
  "initializeProxies parse si [] ps = Inr ps"
| "initializeProxies parse si (svc # rest) ps =
     (if length (svc_Targets svc) = 0 then initializeProxies parse (\<lambda>i. si (Suc i)) rest ps
      else case NewWithConfig parse (si_rng (si 0)) (si_http (si 0)) (si_jobs (si 0)) (si_now (si 0))
                  (si_clock (si 0)) (proxy_config svc) of
             Inl panic \<Rightarrow> Inl panic
           | Inr (Inl err) \<Rightarrow> initializeProxies parse (\<lambda>i. si (Suc i)) rest ps
           | Inr (Inr p) \<Rightarrow>
               initializeProxies parse (\<lambda>i. si (Suc i)) rest (AList.update (svc_Path svc) p ps))"

record ('r, 'd) Server =
  sv_router :: "route list"
  sv_config :: Config
  sv_redis :: "'r redis_client"
  sv_postgres :: "'d Postgres"
  sv_apiKeyService :: "('r, 'd) APIKeyService"
  sv_authService :: "'d AuthService"
  sv_analyticsService :: "'d AnalyticsService"
  sv_httpServer :: "string option"

text \<open>\<open>order\<close> is the order in which the loop over the proxies visits the map.\<close>

definition Server_New ::
    "'g platform \<Rightarrow> (nat \<Rightarrow> 'g service_input) \<Rightarrow> (string list \<Rightarrow> string list) \<Rightarrow> Config \<Rightarrow> 'r redis_client \<Rightarrow>
     'd Postgres \<Rightarrow> (('r, 'd) Server \<times> 'g proxy_map \<times> Logger_state) outcome" where
  "Server_New pf si order cfg redis postgres =
     (let apiKeyService = NewAPIKeyService (gdb_api_keys (pg_DB postgres)) redis;
          authService = NewAuthService (gdb_users (pg_DB postgres)) (Secret (JWT cfg)) (ExpiryHours (JWT cfg));
          analyticsService = NewAnalyticsService (gdb_request_logs (pg_DB postgres))
      in case initializeProxies (pf_parse pf) si (Services cfg) [] of
           Inl p \<Rightarrow> Inl p
         | Inr ps \<Rightarrow>
             (let logger = InitRequestLogger 1000
              in case setupRoutes (pf_engine pf) (order (map fst ps)) of
                   Inl p \<Rightarrow> Inl p
                 | Inr router \<Rightarrow>
                     Inr (\<lparr>sv_router = router, sv_config = cfg, sv_redis = redis, sv_postgres = postgres,
                           sv_apiKeyService = apiKeyService, sv_authService = authService,
                           sv_analyticsService = analyticsService, sv_httpServer = None\<rparr>, ps, logger)))"

section \<open>The handlers of the server\<close>

definition healthCheck ::
    "framework \<Rightarrow> ('r, 'd) Server \<Rightarrow> clock \<Rightarrow> ('r, 'd) stores handler" where
  "healthCheck fw s ts st c =
     (case via_redis (Redis_Ping (sv_redis s) (ts 0)) st of (ping1, st) \<Rightarrow>
      (case via_db (Postgres_Ping (sv_postgres s)) st of (ping2, st) \<Rightarrow>
         (let redisHealthy = (case ping1 of Inl err \<Rightarrow> False | Inr _ \<Rightarrow> True);
              c = (case ping1 of
                     Inl err \<Rightarrow> call (Printf ''Redis health check failed: %v'' [JStr (Error fw err)]) c
                   | Inr _ \<Rightarrow> c);
              dbHealthy = (case ping2 of Some err \<Rightarrow> False | None \<Rightarrow> True);
              c = (case ping2 of
                     Some err \<Rightarrow> call (Printf ''Database health check failed: %v'' [JStr (Error fw err)]) c
                   | None \<Rightarrow> c);
              (status, statusCode) =
                (if \<not> redisHealthy \<or> \<not> dbHealthy then (''degraded'', 503) else (''healthy'', 200))
          in respond statusCode
               (JObj [(''checks'', JObj [(''database'', JBool dbHealthy), (''redis'', JBool redisHealthy)]),
                      (''service'', JStr ''api-gateway''), (''status'', JStr status),
                      (''timestamp'', JInt (time_Unix (ts 1))), (''version'', JStr ''1.0.0'')]) st c)))"

text \<open>An error of the list of keys is ignored; what was read of the list is counted.\<close>

definition adminStatus ::
    "time \<Rightarrow> ('r, 'd) Server \<Rightarrow> clock \<Rightarrow> ('r, 'd) stores handler" where
  "adminStatus startTime s ts st c =
     (case APIKeyService_List (sv_apiKeyService s) st of ((keys, _), st) \<Rightarrow>
        respond 200
          (JObj [(''api_keys'', JInt (int (length keys))), (''gateway'', JStr ''running''),
                 (''services'', JInt (int (length (Services (sv_config s))))),
                 (''timestamp'', JInt (time_Unix (ts 1))),
                 (''uptime'', JFloat (Duration_Seconds (time_Sub (ts 0) startTime)))]) st c)"

text \<open>The handler of a proxy route holds the proxy that the path had when it was registered; the map
  is not changed afterwards.\<close>

definition proxy_endpoint ::
    "'g platform \<Rightarrow> clock \<Rightarrow> string \<Rightarrow> 'g proxy_map handler" where
  "proxy_endpoint pf ts path ps c =
     (case map_of ps path of
        None \<Rightarrow> Panicked NilDereference ps c
      | Some p \<Rightarrow>
          on_part (\<lambda>_. p) (\<lambda>p ps. AList.update path p ps)
            (Proxy_Handle (pf_intn pf) (pf_parse pf) (pf_backend pf) ts) ps c)"

fun dispatch ::
    "'g platform \<Rightarrow> ('r, 'd) Server \<Rightarrow> inputs \<Rightarrow> endpoint \<Rightarrow> ('r, 'd, 'g) world handler" where
  "dispatch pf s inp EHealth = on_part w_stores put_stores (healthCheck (pf_fw pf) s (in_clock inp 8))"
| "dispatch pf s inp ERegister = on_part get_db put_db
     (AuthHandler_Register (pf_fw pf) (pf_bcrypt pf) (sv_authService s) (in_salt inp) (in_uuid inp))"
| "dispatch pf s inp ELogin = on_part get_db put_db
     (AuthHandler_Login (pf_fw pf) (pf_bcrypt pf) (pf_jwt pf) (sv_authService s) (in_clock inp 8))"
| "dispatch pf s inp EMe = on_part get_db put_db (AuthHandler_Me (pf_fw pf) (sv_authService s))"
| "dispatch pf s inp EKeyCreate = on_part w_stores put_stores
     (APIKeyHandler_Create (pf_fw pf) (pf_keys pf) (sv_apiKeyService s) (in_rand inp) (in_uuid inp))"
| "dispatch pf s inp EKeyList = on_part w_stores put_stores (APIKeyHandler_List (pf_fw pf) (sv_apiKeyService s))"
| "dispatch pf s inp EKeyGet = on_part w_stores put_stores (APIKeyHandler_Get (pf_fw pf) (sv_apiKeyService s))"
| "dispatch pf s inp EKeyUpdate = on_part w_stores put_stores
     (APIKeyHandler_Update (pf_fw pf) (sv_apiKeyService s) (in_clock inp 8))"
| "dispatch pf s inp EKeyDelete = on_part w_stores put_stores
     (APIKeyHandler_Delete (pf_fw pf) (sv_apiKeyService s) (in_clock inp 8 0))"
| "dispatch pf s inp EAdminStatus = on_part w_stores put_stores
     (adminStatus (pf_startTime pf) s (in_clock inp 8))"
| "dispatch pf s inp EBreakers = on_part w_proxies put_proxies CircuitBreakerStatus"
| "dispatch pf s inp EBreakerReset = on_part w_proxies put_proxies
     (SystemHandler_ResetCircuitBreaker (in_clock inp 8 0))"
| "dispatch pf s inp EServicesHealth = on_part w_proxies put_proxies (ServiceHealthStatus (in_visit inp))"
| "dispatch pf s inp EAnalytics = on_part get_db put_db
     (AnalyticsHandler_GetSummary (pf_fw pf) (pf_lib pf) (sv_analyticsService s) (in_clock inp 8 0))"
| "dispatch pf s inp ETimeSeries = on_part get_db put_db
     (GetTimeSeries (pf_fw pf) (pf_lib pf) (sv_analyticsService s) (in_clock inp 8 0))"
| "dispatch pf s inp EKeyStats = on_part get_db put_db
     (AnalyticsHandler_GetAPIKeyStats (pf_fw pf) (pf_lib pf) (uuid_Parse (pf_keys pf)) (sv_analyticsService s)
        (in_clock inp 8 0))"
| "dispatch pf s inp ELogs = on_part get_db put_db
     (AnalyticsHandler_GetLogs (pf_fw pf) (pf_lib pf) (sv_analyticsService s) (in_clock inp 8 0))"
| "dispatch pf s inp (EProxy path) = on_part w_proxies put_proxies (proxy_endpoint pf (in_clock inp 8) path)"

section \<open>The middleware chain\<close>

definition setupMiddleware ::
    "'g platform \<Rightarrow> ('r, 'd) Server \<Rightarrow> inputs \<Rightarrow> ('r, 'd, 'g) world middleware list" where
  "setupMiddleware pf s inp =
     [Recovery,
      RequestID (in_request_id inp),
      Logger (pf_fw pf) (in_clock inp 0),
      RequestLogger (pf_fw pf) (in_clock inp 1) w_logger put_logger,
      CORS,
      APIKeyValidator (pf_keys pf) (sv_apiKeyService s) (in_clock inp 2) w_stores put_stores,
      RateLimitWithTier (sv_redis s) (pf_codec pf) (sv_config s) (\<lambda>i. in_clock inp (3 + i)) get_redis put_redis]"

definition chain :: "'w middleware list \<Rightarrow> 'w handler \<Rightarrow> 'w handler" where
  "chain ms h = foldr (\<lambda>m h. m h) ms h"

text \<open>The handlers of a route, given the handlers of the endpoints.\<close>

definition route_handlers ::
    "'g platform \<Rightarrow> ('r, 'd) Server \<Rightarrow> inputs \<Rightarrow> (endpoint \<Rightarrow> ('r, 'd, 'g) world handler) \<Rightarrow> route \<Rightarrow>
     ('r, 'd, 'g) world handler" where
  "route_handlers pf s inp D rt =
     (if rt_auth rt
      then RequireAuth (pf_jwt pf) (sv_authService s) (in_clock inp 7 0) (D (rt_endpoint rt))
      else D (rt_endpoint rt))"

definition matched_route ::
    "'g platform \<Rightarrow> ('r, 'd) Server \<Rightarrow> gin_ctx \<Rightarrow> (route \<times> (string \<rightharpoonup> string)) option" where
  "matched_route pf s c =
     (case ge_match (pf_engine pf) (map route_key (sv_router s)) (Method (Request c)) (URL_Path (Request c)) of
        None \<Rightarrow> None
      | Some (key, params) \<Rightarrow>
          (case find (\<lambda>r. route_key r = key) (sv_router s) of
             None \<Rightarrow> None
           | Some rt \<Rightarrow> Some (rt, params)))"

text \<open>A request without a route runs through the middleware too; what is answered is the
  framework's.\<close>

definition handle_with ::
    "(endpoint \<Rightarrow> ('r, 'd, 'g) world handler) \<Rightarrow> 'g platform \<Rightarrow> ('r, 'd) Server \<Rightarrow> inputs \<Rightarrow>
     ('r, 'd, 'g) world handler" where
  "handle_with D pf s inp w c =
     (case matched_route pf s c of
        None \<Rightarrow> chain (setupMiddleware pf s inp) Returned w c
      | Some (rt, params) \<Rightarrow>
          chain (setupMiddleware pf s inp) (route_handlers pf s inp D rt) w (c\<lparr>Param := params\<rparr>))"

definition handle_request ::
    "'g platform \<Rightarrow> ('r, 'd) Server \<Rightarrow> inputs \<Rightarrow> ('r, 'd, 'g) world handler" where
  "handle_request pf s inp = handle_with (dispatch pf s inp) pf s inp"

section \<open>Running and stopping\<close>

text \<open>\<open>Run\<close> sets the server up and blocks in \<open>ListenAndServe\<close>; only the set-up is here.\<close>

definition Run :: "string \<Rightarrow> ('r, 'd) Server \<Rightarrow> ('r, 'd) Server" where
  "Run addr s = s\<lparr>sv_httpServer := Some addr\<rparr>"

fun stop_all :: "'g proxy_map \<Rightarrow> 'g proxy_map outcome" where
  "stop_all [] = Inr []"
| "stop_all ((path, p) # rest) =
     (case Proxy_Stop p of
        Inl e \<Rightarrow> Inl e
      | Inr p' \<Rightarrow> (case stop_all rest of Inl e \<Rightarrow> Inl e | Inr ps \<Rightarrow> Inr ((path, p') # ps)))"

text \<open>\<open>result\<close> is what the shutdown of the HTTP server returns.\<close>

definition Shutdown ::
    "go_error option \<Rightarrow> ('r, 'd) Server \<Rightarrow> 'g proxy_map \<Rightarrow> (go_error option \<times> 'g proxy_map) outcome" where
  "Shutdown result s ps =
     (case stop_all ps of
        Inl e \<Rightarrow> Inl e
      | Inr ps' \<Rightarrow> Inr (if sv_httpServer s \<noteq> None then result else None, ps'))"

definition GetRouter :: "('r, 'd) Server \<Rightarrow> route list" where
  "GetRouter s = sv_router s"

end
