(* ===== verification/Gateway.thy ===== *)
theory Gateway
  imports GatewayServer
begin

text \<open>
  The gateway as a whole: what holds of a request on its way through the middleware, the check of
  tokens and the handlers, and of sequences of requests from the construction of the server to its
  shutdown.

  A middleware reads the request and the keys of the context, but changes neither what it does not
  own: this is the locale \<open>carried\<close>, for a property of contexts that the middleware hand on to
  the rest of the chain, and \<open>part_of_world\<close>, for a part of the world they leave to it.
\<close>

section \<open>Properties of contexts on the way through the chain\<close>

text \<open>Two handlers that agree on the contexts with a property.\<close>

definition agree_on :: "(gin_ctx \<Rightarrow> bool) \<Rightarrow> 'w handler \<Rightarrow> 'w handler \<Rightarrow> bool" where
  "agree_on P h h' \<longleftrightarrow> (\<forall>w c. P c \<longrightarrow> h w c = h' w c)"

locale carried =
  fixes P :: "gin_ctx \<Rightarrow> bool"
  assumes on_call: "P c \<Longrightarrow> P (call a c)"
    and on_Set: "k \<in> {''request_id'', ''api_key'', ''api_key_id'', ''api_key_tier''} \<Longrightarrow> P c \<Longrightarrow> P (ctx_Set k v c)"
begin

lemma Recovery_agree: "agree_on P h h' \<Longrightarrow> agree_on P (Recovery h) (Recovery h')"
  by (simp add: agree_on_def Recovery_def)

lemma RequestID_agree: "agree_on P h h' \<Longrightarrow> agree_on P (RequestID fresh h) (RequestID fresh h')"
  by (simp add: agree_on_def RequestID_def Let_def on_call on_Set)

lemma Logger_agree: "agree_on P h h' \<Longrightarrow> agree_on P (Logger fw ts h) (Logger fw ts h')"
  by (simp add: agree_on_def Logger_def Let_def)

lemma RequestLogger_agree:
  "agree_on P h h' \<Longrightarrow> agree_on P (RequestLogger fw ts get put h) (RequestLogger fw ts get put h')"
  by (simp add: agree_on_def RequestLogger_def)

lemma CORS_agree: "agree_on P h h' \<Longrightarrow> agree_on P (CORS h) (CORS h')"
  by (simp add: agree_on_def CORS_def cors_headers_def Let_def on_call)

lemma APIKeyValidator_agree:
  "agree_on P h h' \<Longrightarrow> agree_on P (APIKeyValidator env s ts get put h) (APIKeyValidator env s ts get put h')"
  by (auto simp: agree_on_def APIKeyValidator_def Let_def on_Set split: prod.splits sum.splits option.splits)

lemma rate_headers_carried: "P c \<Longrightarrow> P (rate_headers p rl n t c)"
  by (simp add: rate_headers_def Let_def on_call)

lemma RateLimitWithTier_agree:
  "agree_on P h h' \<Longrightarrow>
   agree_on P (RateLimitWithTier redis codec cfg ts get put h) (RateLimitWithTier redis codec cfg ts get put h')"
  by (auto simp: agree_on_def RateLimitWithTier_def Let_def rate_headers_carried
      split: prod.splits sum.splits option.splits)

lemma chain_agree:
  "agree_on P h h' \<Longrightarrow> agree_on P (chain (setupMiddleware pf s inp) h) (chain (setupMiddleware pf s inp) h')"
  by (simp add: chain_def setupMiddleware_def Recovery_agree RequestID_agree Logger_agree RequestLogger_agree
      CORS_agree APIKeyValidator_agree RateLimitWithTier_agree)

lemma chain_cong:
  assumes "P c" "\<And>w c. P c \<Longrightarrow> h w c = h' w c"
  shows "chain (setupMiddleware pf s inp) h w c = chain (setupMiddleware pf s inp) h' w c"
  using chain_agree [of h h' pf s inp] assms by (simp add: agree_on_def)

end

text \<open>No middleware touches the request, and none sets the identity of a user.\<close>

interpretation same_request: carried "\<lambda>c. Request c = r" for r
  by unfold_locales simp_all

interpretation no_user: carried "\<lambda>c. Keys c ''user_id'' = None"
  by unfold_locales auto

section \<open>Parts of the world\<close>

text \<open>What a handler does to a part of the world, on every path.\<close>

definition changes :: "('w \<Rightarrow> 'a) \<Rightarrow> ('a \<Rightarrow> 'a \<Rightarrow> bool) \<Rightarrow> 'w handler \<Rightarrow> bool" where
  "changes part R h \<longleftrightarrow> (\<forall>w c. R (part w) (part (result_world (h w c))))"

locale part_of_world =
  fixes part :: "('r, 'd, 'g) world \<Rightarrow> 'a" and R :: "'a \<Rightarrow> 'a \<Rightarrow> bool"
  assumes refl: "R x x"
    and put_stores: "part (put_stores st w) = part w"
begin

lemma put_redis_same: "part (put_redis r w) = part w"
  using put_stores [of "(w_stores w)\<lparr>s_redis := r\<rparr>" w] by (simp add: put_redis_def put_stores_def)

lemma put_db_same: "part (put_db d w) = part w"
  using put_stores [of "(w_stores w)\<lparr>s_db := d\<rparr>" w] by (simp add: put_db_def put_stores_def)

lemma Recovery_changes: "changes part R h \<Longrightarrow> changes part R (Recovery h)"
  unfolding changes_def Recovery_def
  by (auto simp: reject_def Let_def split: result.splits) (metis result_world.simps)+

lemma RequestID_changes: "changes part R h \<Longrightarrow> changes part R (RequestID fresh h)"
  by (simp add: changes_def RequestID_def Let_def)

lemma Logger_changes: "changes part R h \<Longrightarrow> changes part R (Logger fw ts h)"
  unfolding changes_def Logger_def
  by (auto simp: Let_def split: result.splits) (metis result_world.simps)+

lemma CORS_changes: "changes part R h \<Longrightarrow> changes part R (CORS h)"
  by (simp add: changes_def CORS_def Let_def refl)

lemma APIKeyValidator_changes:
  assumes "changes part R h"
  shows "changes part R (APIKeyValidator env s ts w_stores put_stores h)"
  unfolding changes_def
proof (intro allI)
  fix w c
  have "R (part w) (part (result_world (h (put_stores st w) c')))" for st c'
    using assms put_stores [of st w] unfolding changes_def by metis
  then show "R (part w) (part (result_world (APIKeyValidator env s ts w_stores put_stores h w c)))"
    using assms
    by (auto simp: APIKeyValidator_def Let_def reject_def put_stores refl changes_def
        split: prod.splits sum.splits option.splits)
qed

lemma RateLimitWithTier_changes:
  assumes "changes part R h"
  shows "changes part R (RateLimitWithTier redis codec cfg ts get_redis put_redis h)"
  unfolding changes_def
proof (intro allI)
  fix w c
  have "R (part w) (part (result_world (h (put_redis r w) c')))" for r c'
    using assms put_redis_same [of r w] unfolding changes_def by metis
  then show "R (part w) (part (result_world (RateLimitWithTier redis codec cfg ts get_redis put_redis h w c)))"
    by (auto simp: RateLimitWithTier_def too_many_requests_def reject_def Let_def put_redis_same refl
        split: prod.splits sum.splits option.splits)
qed

lemma RequireAuth_changes: "changes part R h \<Longrightarrow> changes part R (RequireAuth lib s t h)"
  by (auto simp: changes_def RequireAuth_def reject_def Let_def refl split: sum.splits)

lemma on_stores_changes: "changes part R (on_part w_stores put_stores h)"
  by (auto simp: changes_def on_part_def put_stores refl split: result.splits)

lemma on_db_changes: "changes part R (on_part get_db put_db h)"
  by (auto simp: changes_def on_part_def put_db_same refl split: result.splits)

end

section \<open>The request log\<close>

interpretation logger_part: part_of_world "w_logger :: ('r, 'd, 'g) world \<Rightarrow> Logger_state" "(=)"
  by unfold_locales (simp_all add: put_stores_def)

lemma on_proxies_keeps_logger: "changes w_logger (=) (on_part w_proxies put_proxies h)"
  by (auto simp: changes_def on_part_def put_proxies_def split: result.splits)

lemma dispatch_keeps_logger: "changes w_logger (=) (dispatch pf s inp ep)"
  by (cases ep) (simp_all add: logger_part.on_stores_changes logger_part.on_db_changes on_proxies_keeps_logger)

text \<open>The four outer middleware around a rest of the chain that does not touch the log: one entry is
  offered, or the rest has panicked.\<close>

definition logged_once :: "'g platform \<Rightarrow> inputs \<Rightarrow> ('r, 'd, 'g) world \<Rightarrow> ('r, 'd, 'g) world result \<Rightarrow> bool" where
  "logged_once pf inp w r \<longleftrightarrow>
     (\<exists>w' c' c1. r = Returned w' c' \<and>
        w_logger w' = snd (offer (log_entry (pf_fw pf) (in_clock inp 1 0) (in_clock inp 1 1) c1) (w_logger w)))"

definition panicked_500 :: "('r, 'd, 'g) world \<Rightarrow> ('r, 'd, 'g) world result \<Rightarrow> bool" where
  "panicked_500 w r \<longleftrightarrow>
     (\<exists>w' c1 ms. r = Returned w' (call Abort (call (JSON 500 (error_body ''Internal Server Error''))
        (call (Printf ''[%s] PANIC: %v'' ms) c1))) \<and> w_logger w' = w_logger w)"

lemma outer_logs:
  fixes w :: "('r, 'd, 'g) world"
  assumes "changes w_logger (=) h"
  shows "logged_once pf inp w (Recovery (RequestID fresh (Logger fw ts
           (RequestLogger (pf_fw pf) (in_clock inp 1) w_logger put_logger h))) w c) \<or>
         panicked_500 w (Recovery (RequestID fresh (Logger fw ts
           (RequestLogger (pf_fw pf) (in_clock inp 1) w_logger put_logger h))) w c)"
proof -
  obtain c0 where c0: "RequestID fresh m w c = m w c0" for m :: "('r, 'd, 'g) world handler"
    by (simp add: RequestID_def Let_def)
  have same: "w_logger (result_world (h w c0)) = w_logger w" using assms by (simp add: changes_def)
  show ?thesis
  proof (cases "h w c0")
    case (Returned w1 c1)
    then have "logged_once pf inp w (Recovery (RequestID fresh (Logger fw ts
           (RequestLogger (pf_fw pf) (in_clock inp 1) w_logger put_logger h))) w c)"
      using same
      by (auto simp: logged_once_def Recovery_def c0 Logger_def RequestLogger_def put_logger_def Let_def
          split: prod.splits intro!: exI [of _ c1])
    then show ?thesis ..
  next
    case (Panicked p w1 c1)
    then have "panicked_500 w (Recovery (RequestID fresh (Logger fw ts
           (RequestLogger (pf_fw pf) (in_clock inp 1) w_logger put_logger h))) w c)"
      using same
      by (auto simp: panicked_500_def Recovery_def c0 Logger_def RequestLogger_def reject_def Let_def)
    then show ?thesis ..
  qed
qed

lemma chain_logs:
  assumes "changes w_logger (=) h"
  shows "logged_once pf inp w (chain (setupMiddleware pf s inp) h w c) \<or>
         panicked_500 w (chain (setupMiddleware pf s inp) h w c)"
  using outer_logs [OF logger_part.CORS_changes [OF logger_part.APIKeyValidator_changes
      [OF logger_part.RateLimitWithTier_changes [OF assms]]], of pf inp w]
  by (simp add: chain_def setupMiddleware_def)

lemma handle_with_logs:
  fixes w :: "('r, 'd, 'g) world"
  assumes "\<And>ep. changes w_logger (=) (D ep)"
  shows "logged_once pf inp w (handle_with D pf s inp w c) \<or> panicked_500 w (handle_with D pf s inp w c)"
proof -
  have "changes w_logger (=) (Returned :: ('r, 'd, 'g) world handler)" by (simp add: changes_def)
  note logs = chain_logs [OF this, of pf inp w s c]
  have route: "changes w_logger (=) (route_handlers pf s inp D rt)" for rt
    by (simp add: route_handlers_def assms logger_part.RequireAuth_changes)
  show ?thesis
  proof (cases "matched_route pf s c")
    case None
    then show ?thesis using logs by (simp add: handle_with_def)
  next
    case (Some m)
    then show ?thesis
      using chain_logs [OF route [of "fst m"], of pf inp w s "c\<lparr>Param := snd m\<rparr>"]
      by (simp add: handle_with_def case_prod_beta)
  qed
qed


section \<open>The administration\<close>

definition admin_endpoint :: "endpoint \<Rightarrow> bool" where
  "admin_endpoint ep =
     (case ep of EHealth \<Rightarrow> False | ERegister \<Rightarrow> False | ELogin \<Rightarrow> False | EMe \<Rightarrow> False | EProxy _ \<Rightarrow> False | _ \<Rightarrow> True)"

text \<open>The token check is on exactly the routes of the administration.\<close>

definition auth_where_due :: "route list \<Rightarrow> bool" where
  "auth_where_due rs \<longleftrightarrow> list_all (\<lambda>r. rt_auth r = admin_endpoint (rt_endpoint r)) rs"

lemma add_routes_all:
  assumes "add_routes ge new rs = Inr rs'" "auth_where_due rs" "auth_where_due new"
  shows "auth_where_due rs'"
  using assms
  by (induction ge new rs rule: add_routes.induct)
     (auto simp: auth_where_due_def add_route_def split: if_splits)

lemma setupRoutes_auth:
  assumes "setupRoutes ge paths = Inr rs"
  shows "auth_where_due rs"
proof -
  have "auth_where_due (public_routes ge @ admin_routes ge)"
    by (simp add: auth_where_due_def public_routes_def admin_routes_def admin_endpoint_def)
  moreover have "auth_where_due (concat (map (\<lambda>path. Any ge (path @ ''/*proxyPath'') (EProxy path) @
      Any ge path (EProxy path)) paths))"
    by (auto simp: auth_where_due_def list_all_iff Any_def admin_endpoint_def)
  moreover have "auth_where_due []" by (simp add: auth_where_due_def)
  ultimately show ?thesis
    using assms add_routes_all
    by (auto simp: setupRoutes_def setupProxyRoutes_def split: sum.splits)
qed

lemma Server_New_router:
  assumes "Server_New pf si order cfg redis postgres = Inr (s, ps, l)" "matched_route pf s c = Some (rt, params)"
  shows "rt_auth rt = admin_endpoint (rt_endpoint rt)"
proof -
  have "auth_where_due (sv_router s)"
    using assms(1) setupRoutes_auth by (auto simp: Server_New_def Let_def split: sum.splits)
  moreover have "rt \<in> set (sv_router s)"
    using assms(2) by (auto simp: matched_route_def find_Some_iff split: option.splits)
  ultimately show ?thesis by (simp add: auth_where_due_def list_all_iff)
qed

text \<open>A request with a token that the server accepts.\<close>

definition bearer_token :: "'g platform \<Rightarrow> ('r, 'd) Server \<Rightarrow> time \<Rightarrow> http_request \<Rightarrow> bool" where
  "bearer_token pf s t r \<longleftrightarrow>
     (\<exists>tok cl. Header_Get ''Authorization'' r = ''Bearer '' @ tok \<and> CHR '' '' \<notin> set tok \<and>
        ValidateToken (pf_jwt pf) (sv_authService s) t tok = Inr cl)"

lemma RequireAuth_rejects:
  assumes "\<not> bearer_token pf s t (Request c)"
  shows "RequireAuth (pf_jwt pf) (sv_authService s) t h w c = RequireAuth (pf_jwt pf) (sv_authService s) t h' w c"
proof -
  let ?h = "Header_Get ''Authorization'' (Request c)"
  show ?thesis
  proof (cases "length (Split_space ?h) = 2 \<and> Split_space ?h ! 0 = ''Bearer''")
    case True
    then obtain tk where tk: "Split_space ?h = [''Bearer'', tk]" "?h = ''Bearer'' @ '' '' @ tk" "CHR '' '' \<notin> set tk"
      using bearer_parts by blast
    then obtain err where "ValidateToken (pf_jwt pf) (sv_authService s) t tk = Inl err"
      using assms by (cases "ValidateToken (pf_jwt pf) (sv_authService s) t tk") (auto simp: bearer_token_def)
    with tk show ?thesis by (simp add: RequireAuth_def Let_def)
  qed (auto simp: RequireAuth_def Let_def)
qed

text \<open>C9: No handler of the administration runs for a request that does not carry a bearer token which
  the service validates: the outcome of the request (the response, the stores, the log, the proxies)
  is the same whatever the handlers would do.\<close>

theorem admin_needs_token:
  assumes "Server_New pf si order cfg redis postgres = Inr (s, ps, l)"
    and "matched_route pf s c = Some (rt, params)" and "admin_endpoint (rt_endpoint rt)"
    and "\<not> bearer_token pf s (in_clock inp 7 0) (Request c)"
  shows "handle_request pf s inp w c = handle_with D pf s inp w c"
proof -
  have "rt_auth rt" using Server_New_router [OF assms(1,2)] assms(3) by simp
  then have "route_handlers pf s inp D1 rt w1 c1 = route_handlers pf s inp D2 rt w1 c1"
    if "Request c1 = Request c" for D1 D2 w1 c1
    using RequireAuth_rejects [of pf s "in_clock inp 7 0" c1] assms(4) that by (simp add: route_handlers_def)
  then show ?thesis
    unfolding handle_request_def handle_with_def assms(2)
    by (simp, intro same_request.chain_cong [where r = "Request c"]) simp_all
qed

text \<open>The handler of \<open>/auth/me\<close> expects the identity of the user in the context, but its route is not
  behind the token check: nobody puts it there.\<close>

lemma on_part_respond: "put (get w) w = w \<Longrightarrow> on_part get put (respond code body) w c = respond code body w c"
  by (simp add: on_part_def respond_def)

text \<open>C40: The route of the current user always fails: a request to it that passes the middleware is
  answered with 401, with every token, valid or not.\<close>

theorem me_always_unauthorized:
  assumes "Server_New pf si order cfg redis postgres = Inr (s, ps, l)"
    and "matched_route pf s c = Some (rt, params)" and "rt_endpoint rt = EMe"
    and "Keys c = Map.empty"
  shows "handle_request pf s inp w c =
    chain (setupMiddleware pf s inp) (respond 401 (error_body ''Unauthorized'')) w (c\<lparr>Param := params\<rparr>)"
proof -
  have "\<not> rt_auth rt" using Server_New_router [OF assms(1,2)] assms(3) by (simp add: admin_endpoint_def)
  moreover have "dispatch pf s inp EMe w1 c1 = respond 401 (error_body ''Unauthorized'') w1 c1"
    if "Keys c1 ''user_id'' = None" for w1 c1
    using that by (simp add: on_part_def AuthHandler_Me_def respond_def put_db_def get_db_def)
  ultimately show ?thesis
    unfolding handle_request_def handle_with_def assms(2)
    by (simp add: assms(3) route_handlers_def, intro no_user.chain_cong) (simp_all add: assms(4))
qed

section \<open>The proxies\<close>

text \<open>A map of well-formed proxies whose balancers are good for \<open>n\<close> more requests and whose health
  checkers are running.\<close>

definition proxy_ok :: "'g platform \<Rightarrow> nat \<Rightarrow> 'g Proxy \<Rightarrow> bool" where
  "proxy_ok pf n p \<longleftrightarrow>
     proxy_inv (pf_parse pf) p \<and> strategy_ready (pf_intn pf) n (loadBalancer p) \<and>
     running (healthChecker p) \<and> \<not> stopClosed (healthChecker p)"

definition proxies_ok :: "'g platform \<Rightarrow> nat \<Rightarrow> 'g proxy_map \<Rightarrow> bool" where
  "proxies_ok pf n ps \<longleftrightarrow> distinct (map fst ps) \<and> (\<forall>p \<in> snd ` set ps. proxy_ok pf n p)"

text \<open>What one request may do to the map: the paths stay, and every balancer has at most one
  request less to go.\<close>

definition proxies_next :: "'g platform \<Rightarrow> 'g proxy_map \<Rightarrow> 'g proxy_map \<Rightarrow> bool" where
  "proxies_next pf ps ps' \<longleftrightarrow> (\<forall>n. proxies_ok pf (Suc n) ps \<longrightarrow> proxies_ok pf n ps' \<and> fst ` set ps' = fst ` set ps)"

lemma proxy_ok_less: "proxy_ok pf (Suc n) p \<Longrightarrow> proxy_ok pf n p"
  by (auto simp: proxy_ok_def intro: balancer.ready_less)

lemma proxies_ok_less: "proxies_ok pf (Suc n) ps \<Longrightarrow> proxies_ok pf n ps"
  by (auto simp: proxies_ok_def intro: proxy_ok_less)

lemma set_AList_update: "x \<in> set (AList.update k v ps) \<Longrightarrow> x = (k, v) \<or> x \<in> set ps"
  by (induction ps) (auto split: if_splits)

lemma proxies_ok_update:
  assumes "proxies_ok pf n ps" "proxy_ok pf n p"
  shows "proxies_ok pf n (AList.update k p ps)"
  using assms by (auto simp: proxies_ok_def distinct_update dest!: set_AList_update)

lemma update_keys: "map_of ps k = Some p \<Longrightarrow> fst ` set (AList.update k q ps) = fst ` set ps"
  by (force simp: dom_update dest: map_of_SomeD)

lemma map_of_ok: "proxies_ok pf n ps \<Longrightarrow> map_of ps k = Some p \<Longrightarrow> proxy_ok pf n p"
  by (auto simp: proxies_ok_def dest!: map_of_SomeD)

interpretation proxies_part: part_of_world "w_proxies :: ('r, 'd, 'g) world \<Rightarrow> 'g proxy_map" "proxies_next pf"
  for pf :: "'g platform"
  by unfold_locales (simp_all add: proxies_next_def proxies_ok_less put_stores_def)

lemma RequestLogger_proxies:
  "changes w_proxies R h \<Longrightarrow> changes w_proxies R (RequestLogger fw ts w_logger put_logger h)"
  unfolding changes_def RequestLogger_def
  by (auto simp: put_logger_def Let_def split: result.splits prod.splits) (metis result_world.simps)+

lemma on_proxies_changes:
  assumes "\<And>ps c. R ps (result_world (h ps c))"
  shows "changes w_proxies R (on_part w_proxies put_proxies h)"
  unfolding changes_def
proof (intro allI)
  fix w c
  show "R (w_proxies w) (w_proxies (result_world (on_part w_proxies put_proxies h w c)))"
    using assms [of "w_proxies w" c] by (cases "h (w_proxies w) c") (simp_all add: on_part_def put_proxies_def)
qed

lemma proxy_endpoint_next: "proxies_next pf ps (result_world (proxy_endpoint pf ts path ps c))"
proof (cases "map_of ps path")
  case None
  then show ?thesis by (simp add: proxy_endpoint_def proxies_next_def proxies_ok_less)
next
  case (Some p)
  let ?r = "Proxy_Handle (pf_intn pf) (pf_parse pf) (pf_backend pf) ts p c"
  have world: "result_world (proxy_endpoint pf ts path ps c) = AList.update path (result_world ?r) ps"
    using Some by (cases ?r) (simp_all add: proxy_endpoint_def on_part_def)
  have "proxies_ok pf n (AList.update path (result_world ?r) ps)" if "proxies_ok pf (Suc n) ps" for n
  proof -
    have p: "proxy_ok pf (Suc n) p" using map_of_ok [OF that Some] .
    then have "proxy_ok pf n (result_world ?r)"
      using proxy_step [of "pf_parse pf" p "pf_intn pf" n ?r] by (simp add: proxy_ok_def)
    then show ?thesis using proxies_ok_update proxies_ok_less [OF that] by blast
  qed
  then show ?thesis by (simp add: proxies_next_def world update_keys [OF Some])
qed

lemma reset_next: "proxies_next pf ps (result_world (SystemHandler_ResetCircuitBreaker now ps c))"
proof (cases "map_of ps (ctx_Param ''service'' c)")
  case None
  then show ?thesis
    by (simp add: SystemHandler_ResetCircuitBreaker_def respond_def proxies_next_def proxies_ok_less)
next
  case (Some p)
  have "proxies_ok pf n (AList.update (ctx_Param ''service'' c) (ResetCircuitBreaker now p) ps)"
    if "proxies_ok pf n ps" for n
    using map_of_ok [OF that Some]
    by (intro proxies_ok_update [OF that])
      (simp add: proxy_ok_def ResetCircuitBreaker_def proxy_inv_def cb_inv_Reset)
  then show ?thesis
    using Some
    by (simp add: SystemHandler_ResetCircuitBreaker_def respond_def Let_def proxies_next_def update_keys
        proxies_ok_less)
qed

lemma dispatch_proxies: "changes w_proxies (proxies_next pf) (dispatch pf s inp ep)"
  by (cases ep)
     (simp_all add: proxies_part.on_stores_changes proxies_part.on_db_changes on_proxies_changes
        proxy_endpoint_next reset_next CircuitBreakerStatus_def ServiceHealthStatus_def respond_def proxies_part.refl)

lemma chain_proxies:
  "changes w_proxies (proxies_next pf) h \<Longrightarrow> changes w_proxies (proxies_next pf) (chain (setupMiddleware pf s inp) h)"
  by (simp add: chain_def setupMiddleware_def proxies_part.Recovery_changes proxies_part.RequestID_changes
      proxies_part.Logger_changes RequestLogger_proxies proxies_part.CORS_changes
      proxies_part.APIKeyValidator_changes proxies_part.RateLimitWithTier_changes)

lemma handle_request_proxies:
  fixes s :: "('r, 'd) Server" and pf :: "'g platform"
  shows "changes w_proxies (proxies_next pf) (handle_request pf s inp)"
proof -
  have "changes w_proxies (proxies_next pf) (route_handlers pf s inp (dispatch pf s inp) rt)" for rt
    by (simp add: route_handlers_def dispatch_proxies proxies_part.RequireAuth_changes)
  note routed = chain_proxies [OF this, of s inp, unfolded changes_def]
  have "changes w_proxies (proxies_next pf) (Returned :: ('r, 'd, 'g) world handler)"
    by (simp add: changes_def proxies_part.refl)
  note unrouted = chain_proxies [OF this, of s inp, unfolded changes_def]
  show ?thesis
    unfolding changes_def
  proof (intro allI)
    fix w c
    show "proxies_next pf (w_proxies w) (w_proxies (result_world (handle_request pf s inp w c)))"
      using routed [rule_format] unrouted [rule_format]
      by (cases "matched_route pf s c") (simp_all add: handle_request_def handle_with_def case_prod_beta)
  qed
qed

section \<open>Construction and shutdown\<close>

definition strategy_known :: "string \<Rightarrow> bool" where
  "strategy_known name \<longleftrightarrow> (\<exists>lb. NewStrategy () name = Inr lb)"

text \<open>The services that get a proxy.\<close>

definition starts :: "url_parser \<Rightarrow> ServiceConfig \<Rightarrow> bool" where
  "starts parse svc \<longleftrightarrow>
     svc_Targets svc \<noteq> [] \<and> strategy_known (svc_LoadBalancer svc) \<and>
     list_all (\<lambda>t. \<exists>u. parse t = Inr u) (svc_Targets svc)"

text \<open>Values of the configuration are Go integers; the first health checks of a service are those of
  its targets.\<close>

definition service_ok :: "ServiceConfig \<Rightarrow> bool" where
  "service_ok svc \<longleftrightarrow>
     (case svc_CircuitBreaker svc of None \<Rightarrow> True
      | Some cb \<Rightarrow> int64 (cbc_MaxFailures cb) \<and> int64 (cbc_HalfOpenSuccess cb)) \<and>
     (case svc_HealthCheck svc of None \<Rightarrow> True | Some hc \<Rightarrow> int64 (hcc_MaxFailures hc))"

fun first_checks :: "(nat \<Rightarrow> 'g service_input) \<Rightarrow> ServiceConfig list \<Rightarrow> bool" where
  "first_checks si [] \<longleftrightarrow> True"
| "first_checks si (svc # rest) \<longleftrightarrow>
     jobs_for (si_jobs (si 0)) (svc_Targets svc) \<and> first_checks (\<lambda>i. si (Suc i)) rest"

lemma config_ok_proxy_config:
  assumes "service_ok svc"
  shows "config_ok (proxy_config svc)"
    and "slice_of (hc_Targets (effective_hc (proxy_config svc))) = svc_Targets svc"
proof -
  have "int64 1" "int64 3" "int64 5" "int64 (30 * Second)" by (simp_all add: int64_def)
  then show "config_ok (proxy_config svc)"
    and "slice_of (hc_Targets (effective_hc (proxy_config svc))) = svc_Targets svc"
    using assms
    by (auto simp: config_ok_def proxy_config_def breaker_config_def checker_config_def service_ok_def
        effective_hc_def slice_of_def split: option.splits)
qed

lemma parse_targets_total:
  "(\<exists>m'. parse_targets parse ts m = Inr m') \<longleftrightarrow> list_all (\<lambda>t. \<exists>u. parse t = Inr u) ts"
  by (induction ts arbitrary: m) (auto split: sum.splits)

lemma NewStrategy_known: "(\<exists>lb. NewStrategy rng name = Inr lb) \<longleftrightarrow> strategy_known name"
  by (simp add: strategy_known_def NewStrategy_def)

lemma service_proxy:
  assumes "service_ok svc" "jobs_for jobs (svc_Targets svc)" "Intn_law (pf_intn pf)"
  shows "if starts (pf_parse pf) svc
         then \<exists>p. NewWithConfig (pf_parse pf) rng http jobs now ts (proxy_config svc) = Inr (Inr p) \<and>
                proxy_ok pf (2 ^ 63) p
         else \<exists>e. NewWithConfig (pf_parse pf) rng http jobs now ts (proxy_config svc) = Inr (Inl e)"
proof -
  let ?n = "NewWithConfig (pf_parse pf) rng http jobs now ts (proxy_config svc)"
  have "(\<exists>e. ?n = Inr (Inl e)) \<or> (\<exists>p. ?n = Inr (Inr p) \<and> proxy_ok pf (2 ^ 63) p)"
    using NewWithConfig_cases [OF config_ok_proxy_config(1) [OF assms(1)], of jobs "pf_parse pf" rng http now ts]
      assms(2) config_ok_proxy_config(2) [OF assms(1)] NewStrategy_ready [OF assms(3)]
    by (auto simp: proxy_ok_def)
  moreover have "(\<exists>e. ?n = Inr (Inl e)) \<longleftrightarrow> \<not> starts (pf_parse pf) svc"
    using calculation NewStrategy_known [of rng "svc_LoadBalancer svc"]
      parse_targets_total [of "pf_parse pf" "svc_Targets svc" Map.empty]
    by (auto simp: NewWithConfig_def proxy_config_def starts_def Let_def split: sum.splits if_splits)
  ultimately show ?thesis by auto
qed

lemma initializeProxies_ok:
  assumes "list_all service_ok svcs" "first_checks si svcs" "Intn_law (pf_intn pf)"
    and "proxies_ok pf (2 ^ 63) ps"
  shows "\<exists>ps'. initializeProxies (pf_parse pf) si svcs ps = Inr ps' \<and> proxies_ok pf (2 ^ 63) ps' \<and>
    fst ` set ps' = fst ` set ps \<union> svc_Path ` set (filter (starts (pf_parse pf)) svcs)"
  using assms
proof (induction "pf_parse pf" si svcs ps rule: initializeProxies.induct)
  case (1 si ps)
  then show ?case by simp
next
  case (2 si svc rest ps)
  have svc: "service_ok svc" "jobs_for (si_jobs (si 0)) (svc_Targets svc)" using "2.prems"(1,2) by simp_all
  note proxy = service_proxy [OF this "2.prems"(3), of "si_rng (si 0)" "si_http (si 0)" "si_now (si 0)" "si_clock (si 0)"]
  show ?case
  proof (cases "starts (pf_parse pf) svc")
    case False
    then have "initializeProxies (pf_parse pf) si (svc # rest) ps =
        initializeProxies (pf_parse pf) (\<lambda>i. si (Suc i)) rest ps"
      using proxy by (auto simp: Let_def)
    then show ?thesis using False 2 proxy by (cases "svc_Targets svc = []") auto
  next
    case True
    then obtain p where p: "NewWithConfig (pf_parse pf) (si_rng (si 0)) (si_http (si 0)) (si_jobs (si 0))
        (si_now (si 0)) (si_clock (si 0)) (proxy_config svc) = Inr (Inr p)" "proxy_ok pf (2 ^ 63) p"
      using proxy by auto
    moreover have "svc_Targets svc \<noteq> []" using True by (simp add: starts_def)
    moreover have "proxies_ok pf (2 ^ 63) (AList.update (svc_Path svc) p ps)"
      using proxies_ok_update "2.prems"(4) p(2) .
    ultimately show ?thesis using True "2.hyps"(3) "2.prems"(1,2,3) by (auto simp: dom_update)
  qed
qed

lemma Stop_ok: "proxy_ok pf n p \<Longrightarrow> \<exists>p'. Proxy_Stop p = Inr p' \<and> \<not> running (healthChecker p')"
  by (simp add: proxy_ok_def Proxy_Stop_def Stop_def)

lemma stop_all_ok:
  "\<forall>p \<in> snd ` set ps. proxy_ok pf n p \<Longrightarrow>
   \<exists>ps'. stop_all ps = Inr ps' \<and> map fst ps' = map fst ps \<and> (\<forall>p \<in> snd ` set ps'. \<not> running (healthChecker p))"
proof (induction ps rule: stop_all.induct)
  case (2 path p rest)
  then obtain p' where "Proxy_Stop p = Inr p'" "\<not> running (healthChecker p')" using Stop_ok by fastforce
  with 2 show ?case by auto
qed simp

section \<open>The life of a gateway\<close>

text \<open>What happens while the server runs: requests are served, the health checkers probe their
  targets, the worker of the request log receives entries and flushes them, and pending uses of keys
  are recorded, in any order.  (Inside one component the steps are finer: see the theories of the
  components.)\<close>

datatype gateway_event =
    Request_served inputs gin_ctx gin_ctx
  | Health_checked string
  | Log_worked flush
  | Use_recorded

definition log_table :: "('r, 'd) Server \<Rightarrow> ('d, RequestLog) gorm" where
  "log_table s = gorm.truncate (gdb_request_logs (pg_DB (sv_postgres s)))"

inductive gateway_step ::
    "'g platform \<Rightarrow> ('r, 'd) Server \<Rightarrow> ('r, 'd, 'g) world \<Rightarrow> gateway_event \<Rightarrow> ('r, 'd, 'g) world \<Rightarrow> bool"
  for pf :: "'g platform" and s :: "('r, 'd) Server" where
  request: "handle_request pf s inp w c = Returned w' c' \<Longrightarrow> gateway_step pf s w (Request_served inp c c') w'"
| check: "map_of (w_proxies w) path = Some p \<Longrightarrow> jobs_for jobs (targets (healthChecker p)) \<Longrightarrow>
     checkAll http jobs (healthChecker p) = Inr hc \<Longrightarrow>
     gateway_step pf s w (Health_checked path)
       (put_proxies (AList.update path (p\<lparr>healthChecker := hc\<rparr>) (w_proxies w)) w)"
| receive: "worker_receive (log_table s) (w_logger w) (get_db w) = Some (f, l, d) \<Longrightarrow>
     gateway_step pf s w (Log_worked f) (put_db d (put_logger l w))"
| tick: "worker_tick (log_table s) (w_logger w) (get_db w) = (f, l, d) \<Longrightarrow>
     gateway_step pf s w (Log_worked f) (put_db d (put_logger l w))"
| record_use: "gateway_step pf s w Use_recorded (put_stores (run_pending (sv_apiKeyService s) now (w_stores w)) w)"

fun requests_in :: "gateway_event list \<Rightarrow> nat" where
  "requests_in [] = 0"
| "requests_in (Request_served _ _ _ # es) = Suc (requests_in es)"
| "requests_in (_ # es) = requests_in es"

lemma requests_in_append [simp]: "requests_in (es @ fs) = requests_in es + requests_in fs"
  by (induction es rule: requests_in.induct) simp_all

lemma world_parts [simp]:
  "w_proxies (put_db d w) = w_proxies w" "w_proxies (put_logger l w) = w_proxies w"
  "w_proxies (put_stores st w) = w_proxies w" "w_proxies (put_proxies ps w) = ps"
  "w_logger (put_db d w) = w_logger w" "w_logger (put_logger l w) = l"
  "w_logger (put_stores st w) = w_logger w" "w_logger (put_proxies ps w) = w_logger w"
  by (simp_all add: put_db_def put_logger_def put_stores_def put_proxies_def)

lemma offer_inv: "logger_inv n st \<Longrightarrow> logger_inv n (snd (offer l st))"
  by (auto simp: offer_def logger_inv_def)

lemma request_logger_inv:
  assumes "handle_request pf s inp w c = Returned w' c'" "logger_inv n (w_logger w)"
  shows "logger_inv n (w_logger w')"
  using handle_with_logs [where D = "dispatch pf s inp", OF dispatch_keeps_logger, of pf inp w s c] assms
  by (auto simp: handle_request_def logged_once_def panicked_500_def offer_inv)

lemma checkAll_proxy_ok:
  assumes "proxy_ok pf n p" "jobs_for jobs (targets (healthChecker p))" "checkAll http jobs (healthChecker p) = Inr hc"
  shows "proxy_ok pf n (p\<lparr>healthChecker := hc\<rparr>)"
proof -
  have "checker_inv (healthChecker p)" using assms(1) by (simp add: proxy_ok_def proxy_inv_def)
  then obtain hc' where "checkAll http jobs (healthChecker p) = Inr hc'" "checker_inv hc'"
      "targets hc' = targets (healthChecker p)" "running hc' = running (healthChecker p)"
      "stopClosed hc' = stopClosed (healthChecker p)"
    using assms(2) by (rule checkAll_total)
  then show ?thesis using assms(1,3) by (simp add: proxy_ok_def proxy_inv_def)
qed

text \<open>A part of the state with its budget of requests.\<close>

definition gateway_inv :: "'g platform \<Rightarrow> string set \<Rightarrow> nat \<Rightarrow> ('r, 'd, 'g) world \<Rightarrow> bool" where
  "gateway_inv pf paths n w \<longleftrightarrow>
     proxies_ok pf n (w_proxies w) \<and> fst ` set (w_proxies w) = paths \<and> logger_inv 1000 (w_logger w)"

lemma gateway_step_inv:
  assumes "gateway_step pf s w e w'" "gateway_inv pf paths (n + requests_in [e]) w"
  shows "gateway_inv pf paths n w'"
  using assms(1)
proof cases
  case (request inp c c')
  have "proxies_next pf (w_proxies w) (w_proxies w')"
    using handle_request_proxies [of pf s inp] request(2) unfolding changes_def by (metis result_world.simps(1))
  with request assms(2) request_logger_inv [OF request(2)] show ?thesis
    by (simp add: gateway_inv_def proxies_next_def) blast
next
  case (check path p jobs http hc)
  with assms(2) checkAll_proxy_ok map_of_ok [of pf n "w_proxies w" path p] show ?thesis
    by (auto simp: gateway_inv_def update_keys intro!: proxies_ok_update)
next
  case (receive f l d)
  with assms(2) log_step_transit [OF log_step.receive [OF receive(3)], of 1000] show ?thesis
    by (simp add: gateway_inv_def)
next
  case (tick f l d)
  with assms(2) log_step_transit [OF log_step.tick [OF tick(3)], of 1000] show ?thesis
    by (simp add: gateway_inv_def)
next
  case (record_use now)
  with assms(2) show ?thesis by (simp add: gateway_inv_def)
qed

lemma gateway_run_inv:
  assumes "run (gateway_step pf s) w es w'" "gateway_inv pf paths (n + requests_in es) w"
  shows "gateway_inv pf paths n w'"
  using assms
proof (induction arbitrary: n rule: run.induct)
  case (run_snoc w es w1 e w2)
  have "n + requests_in (es @ [e]) = n + requests_in [e] + requests_in es" by simp
  then have "gateway_inv pf paths (n + requests_in [e]) w1"
    using run_snoc.IH [of "n + requests_in [e]"] run_snoc.prems by metis
  then show ?case using gateway_step_inv run_snoc.hyps(2) by blast
qed simp

lemma gateway_starts:
  assumes "list_all service_ok (Services cfg)" "first_checks si (Services cfg)" "Intn_law (pf_intn pf)"
    and "initializeProxies (pf_parse pf) si (Services cfg) [] = Inr (w_proxies w)"
    and "w_logger w = InitRequestLogger 1000"
  shows "gateway_inv pf (svc_Path ` set (filter (starts (pf_parse pf)) (Services cfg))) (2 ^ 63) w"
proof -
  have "proxies_ok pf (2 ^ 63) ([] :: 'b proxy_map)" by (simp add: proxies_ok_def)
  from initializeProxies_ok [OF assms(1-3) this] assms(4,5) show ?thesis
    by (simp add: gateway_inv_def logger_inv_def InitRequestLogger_def)
qed


section \<open>Instances\<close>

text \<open>A gateway with one service, the request log in memory, and no keys and users.\<close>

definition empty_gorm :: "('d, 'a) gorm" where
  "empty_gorm =
     \<lparr>g_Create = (\<lambda>hook xs d. (Some (Sentinel ''read only''), d)), g_First = (\<lambda>q d. (Inl ErrRecordNotFound, d)),
      g_Find = (\<lambda>q d. (([], None), d)), g_Updates = (\<lambda>q u d. (None, d)), g_Delete = (\<lambda>q d. ((0, None), d)),
      g_Count = (\<lambda>q d. ((0, None), d))\<rparr>"

definition demo_postgres :: "RequestLog list Postgres" where
  "demo_postgres =
     \<lparr>pg_DB = \<lparr>gdb_api_keys = empty_gorm, gdb_users = empty_gorm, gdb_request_logs = mem_log_gorm 0,
        gdb_DB = (\<lambda>d. (Inl (Sentinel ''no pool''), d)), gdb_AutoMigrate = (\<lambda>ts d. (None, d)),
        gdb_Transaction = (\<lambda>f d. f d)\<rparr>\<rparr>"

definition demo_engine :: gin_engine where
  "demo_engine =
     \<lparr>ge_join = (\<lambda>p q. if p = ''/'' then q else p @ q), ge_conflict = (\<lambda>rs r. False),
      ge_match = (\<lambda>rs meth path. if List.member rs (meth, path) then Some ((meth, path), Map.empty) else None)\<rparr>"

definition demo_platform :: "unit platform" where
  "demo_platform =
     \<lparr>pf_engine = demo_engine, pf_fw = plain_framework,
      pf_keys = \<lparr>Sum256 = id, Marshal = (\<lambda>j. ''''), Parse_json = (\<lambda>s. Inr JNull), uuid_Parse = Inr\<rparr>,
      pf_lib = demo_library, pf_bcrypt = demo_bcrypt, pf_jwt = demo_jwt, pf_codec = demo_codec,
      pf_parse = demo_parse, pf_backend = (\<lambda>u r. Served [Write_header 200]), pf_intn = demo_intn,
      pf_startTime = 0\<rparr>"

definition demo_config :: Config where
  "demo_config = zero_Config\<lparr>Services :=
     [\<lparr>svc_Path = ''/api'', svc_Targets = [''a''], svc_LoadBalancer = ''random'', svc_CircuitBreaker = None,
       svc_HealthCheck = None\<rparr>]\<rparr>"

definition demo_service_input :: "nat \<Rightarrow> unit service_input" where
  "demo_service_input i =
     \<lparr>si_rng = (), si_http = demo_http, si_jobs = [(''a'', 1, 1)], si_now = 0, si_clock = (\<lambda>_. 0)\<rparr>"

definition demo_inputs :: inputs where
  "demo_inputs =
     \<lparr>in_request_id = ''r'', in_clock = (\<lambda>i j. 0), in_rand = Inr '''', in_uuid = '''', in_salt = '''',
      in_visit = (\<lambda>p. [])\<rparr>"

lemma add_routes_free:
  "(\<And>rs r. \<not> ge_conflict ge rs r) \<Longrightarrow> add_routes ge new rs = Inr (rs @ new)"
  by (induction new arbitrary: rs) (simp_all add: add_route_def)

lemma demo_config_ok:
  "list_all service_ok (Services demo_config)" "first_checks demo_service_input (Services demo_config)"
  "Intn_law (pf_intn demo_platform)"
  by (simp_all add: demo_config_def service_ok_def jobs_for_def demo_service_input_def demo_platform_def
      Intn_law_def)

lemma demo_gateway:
  obtains s ps l where "Server_New demo_platform demo_service_input id demo_config mem_client demo_postgres = Inr (s, ps, l)"
    and "\<exists>rest. sv_router s = public_routes demo_engine @ admin_routes demo_engine @ rest"
proof -
  have "proxies_ok demo_platform (2 ^ 63) []" by (simp add: proxies_ok_def)
  from initializeProxies_ok [OF demo_config_ok this]
  obtain ps where "initializeProxies (pf_parse demo_platform) demo_service_input (Services demo_config) [] = Inr ps"
    by blast
  moreover have "pf_engine demo_platform = demo_engine" "\<not> ge_conflict demo_engine rs r" for rs r
    by (simp_all add: demo_platform_def demo_engine_def)
  ultimately obtain s ps l where
    New: "Server_New demo_platform demo_service_input id demo_config mem_client demo_postgres = Inr (s, ps, l)"
    and routes: "\<exists>rest. sv_router s = public_routes demo_engine @ admin_routes demo_engine @ rest"
    by (auto simp: Server_New_def setupRoutes_def setupProxyRoutes_def add_routes_free Let_def)
  then show ?thesis by (rule that)
qed

definition demo_visit :: "string \<Rightarrow> gin_ctx" where
  "demo_visit path =
     \<lparr>Request = \<lparr>Method = ''GET'', URL_Path = path, URL_Host = '''', URL_Scheme = '''', Host = ''h'',
        Header = Map.empty\<rparr>, Body = '''', ClientIP = ''10.0.0.1'', Query = Map.empty, Param = Map.empty,
      Keys = Map.empty, calls = []\<rparr>"

lemma demo_matched:
  assumes "sv_router s = public_routes demo_engine @ admin_routes demo_engine @ rest"
  shows "\<exists>rt. matched_route demo_platform s (demo_visit ''/admin/logs'') = Some (rt, Map.empty) \<and> rt_endpoint rt = ELogs"
    and "\<exists>rt. matched_route demo_platform s (demo_visit ''/auth/me'') = Some (rt, Map.empty) \<and> rt_endpoint rt = EMe"
  by (simp_all add: matched_route_def assms demo_platform_def demo_engine_def demo_visit_def route_key_def
      public_routes_def admin_routes_def)

definition demo_world :: "unit proxy_map \<Rightarrow> Logger_state \<Rightarrow> (rdb, RequestLog list, unit) world" where
  "demo_world ps l = \<lparr>w_stores = \<lparr>s_redis = Map.empty, s_db = [], s_pending = []\<rparr>, w_logger = l, w_proxies = ps\<rparr>"

theorem admin_needs_token_witness:
  "\<exists>s ps l. handle_request demo_platform s demo_inputs (demo_world ps l) (demo_visit ''/admin/logs'') =
     handle_with (\<lambda>ep w c. Panicked AbortHandler w c) demo_platform s demo_inputs (demo_world ps l)
       (demo_visit ''/admin/logs'')"
proof -
  obtain s ps l rest where New: "Server_New demo_platform demo_service_input id demo_config mem_client demo_postgres = Inr (s, ps, l)"
      and router: "sv_router s = public_routes demo_engine @ admin_routes demo_engine @ rest"
    using demo_gateway by metis
  obtain rt where rt: "matched_route demo_platform s (demo_visit ''/admin/logs'') = Some (rt, Map.empty)" "rt_endpoint rt = ELogs"
    using demo_matched(1) [OF router] by blast
  have "admin_endpoint (rt_endpoint rt)" by (simp add: rt(2) admin_endpoint_def)
  moreover have "\<not> bearer_token demo_platform s t (Request (demo_visit ''/admin/logs''))" for t
    by (simp add: bearer_token_def demo_visit_def Header_Get_def)
  ultimately show ?thesis using admin_needs_token [OF New rt(1)] by blast
qed

theorem me_always_unauthorized_witness:
  "\<exists>s ps l. handle_request demo_platform s demo_inputs (demo_world ps l) (demo_visit ''/auth/me'') =
     chain (setupMiddleware demo_platform s demo_inputs) (respond 401 (error_body ''Unauthorized'')) (demo_world ps l)
       (demo_visit ''/auth/me'')"
proof -
  obtain s ps l rest where New: "Server_New demo_platform demo_service_input id demo_config mem_client demo_postgres = Inr (s, ps, l)"
      and router: "sv_router s = public_routes demo_engine @ admin_routes demo_engine @ rest"
    using demo_gateway by metis
  obtain rt where rt: "matched_route demo_platform s (demo_visit ''/auth/me'') = Some (rt, Map.empty)" "rt_endpoint rt = EMe"
    using demo_matched(2) [OF router] by blast
  have "Keys (demo_visit ''/auth/me'') = Map.empty" "(demo_visit ''/auth/me'')\<lparr>Param := Map.empty\<rparr> = demo_visit ''/auth/me''"
    by (simp_all add: demo_visit_def)
  then show ?thesis using me_always_unauthorized [OF New rt] by metis
qed


end
