(* ===== verification/Process.thy ===== *)
theory Process
  imports Gateway
begin

text \<open>
  The program, \<open>src/cmd/gateway/main.go\<close>: its start, which connects the stores and builds the
  server, and then the two goroutines, one that serves and one that waits for a signal and shuts
  the server down.

  Shown: a gateway that starts has a valid configuration, connected stores and a well-formed state;
  once the listener is closed, an exit with code 0 leaves no request unanswered; and a shutdown that
  has to wait for requests can at any moment be overtaken by the serving goroutine, which ends the
  process with code 1.
\<close>

section \<open>Start\<close>

text \<open>What the program finds: files, the environment (after \<open>godotenv.Load\<close>), the libraries.\<close>

record ('r, 'd, 'g) host =
  h_ReadFile :: "string \<Rightarrow> go_error + string"
  h_parse :: "string \<Rightarrow> go_error + json"
  h_env :: environment
  h_dial :: "string \<Rightarrow> string \<Rightarrow> int \<Rightarrow> 'r redis_client"
  h_now :: time
  h_connect :: "string \<Rightarrow> 'd \<Rightarrow> (go_error + 'd gorm_DB) \<times> 'd"
  h_platform :: "'g platform"
  h_services :: "nat \<Rightarrow> 'g service_input"
  h_order :: "string list \<Rightarrow> string list"

definition database_dsn :: "DatabaseConfig \<Rightarrow> string" where
  "database_dsn c =
     ''host='' @ db_Host c @ '' port='' @ Itoa (db_Port c) @ '' user='' @ db_User c @
     '' password='' @ db_Password c @ '' dbname='' @ DBName c @ '' sslmode='' @ SSLMode c"

text \<open>\<open>log.Fatalf\<close> ends the process without running the deferred calls; a panic runs them.\<close>

datatype 's startup = Fatal string go_error | Crashed panic | Started 's

definition close_stores :: "'r redis_client \<Rightarrow> 'd Postgres \<Rightarrow> 'r \<Rightarrow> 'd \<Rightarrow> 'r \<times> 'd" where
  "close_stores redis postgres r d =
     (case Postgres_Close postgres d of (_, d) \<Rightarrow> case Redis_Close redis r of (_, r) \<Rightarrow> (r, d))"

definition main_startup ::
    "('r, 'd, 'g) host \<Rightarrow> 'r \<Rightarrow> 'd \<Rightarrow> (('r, 'd) Server \<times> 'g proxy_map \<times> Logger_state) startup \<times> 'r \<times> 'd" where
  "main_startup h r d =
     (case Load (h_ReadFile h) (h_parse h) (h_env h) ''config.json'' of
        Inl err \<Rightarrow> (Fatal ''Failed to load config: '' err, r, d)
      | Inr cfg \<Rightarrow>
          (case NewRedis (h_dial h) (h_now h) (GetRedisAddr (Redis cfg)) (redis_Password (Redis cfg))
                  (DB (Redis cfg)) r of
             (Inl err, r) \<Rightarrow> (Fatal ''Failed to connect to Redis: '' err, r, d)
           | (Inr redis, r) \<Rightarrow>
               (case NewPostgres (h_connect h) (database_dsn (Database cfg)) d of
                  (Inl err, d) \<Rightarrow> (Fatal ''Failed to connect to PostgreSQL: '' err, r, d)
                | (Inr postgres, d) \<Rightarrow>
                    (case AutoMigrate postgres d of
                       (Some err, d) \<Rightarrow> (Fatal ''Failed to run migrations: '' err, r, d)
                     | (None, d) \<Rightarrow>
                         (case Server_New (h_platform h) (h_services h) (h_order h) cfg redis postgres of
                            Inl p \<Rightarrow> (Crashed p, close_stores redis postgres r d)
                          | Inr srv \<Rightarrow> (Started srv, r, d))))))"

section \<open>Serving and shutting down\<close>

text \<open>The serving goroutine: before \<open>Run\<close> has set up the HTTP server, while it serves, and after a
  shutdown has closed its listener, when \<open>ListenAndServe\<close> returns \<open>ErrServerClosed\<close> at once.  The main
  goroutine, once it has asked for signals, waits for one, then for the end of the shutdown, and
  returns.  The process ends with a code: 1 from \<open>log.Fatalf\<close> and \<open>log.Fatal\<close>, 0 when \<open>main\<close> returns.\<close>

datatype serving = Not_serving | Serving | Listener_closed

datatype waiting = For_signal | For_shutdown | Returning

record process =
  pr_serving :: serving
  pr_waiting :: waiting
  in_flight :: nat
  exit_code :: "int option"

definition process_start :: process where
  "process_start = \<lparr>pr_serving = Not_serving, pr_waiting = For_signal, in_flight = 0, exit_code = None\<rparr>"

datatype process_event =
    Serve | Serve_fails | Accept | Finish | Signal | Serve_returns | Shutdown_done | Shutdown_timeout
  | Main_returns

text \<open>A step of one of the goroutines, or of a request.  \<open>ListenAndServe\<close> may fail (the port is in
  use).  \<open>Shutdown\<close> of a server that was not yet set up returns at once.\<close>

inductive process_step :: "process \<Rightarrow> process_event \<Rightarrow> process \<Rightarrow> bool" where
  serve: "exit_code p = None \<Longrightarrow> pr_serving p = Not_serving \<Longrightarrow>
     process_step p Serve (p\<lparr>pr_serving := Serving\<rparr>)"
| serve_fails: "exit_code p = None \<Longrightarrow> pr_serving p \<noteq> Listener_closed \<Longrightarrow>
     process_step p Serve_fails (p\<lparr>exit_code := Some 1\<rparr>)"
| accept: "exit_code p = None \<Longrightarrow> pr_serving p = Serving \<Longrightarrow>
     process_step p Accept (p\<lparr>in_flight := Suc (in_flight p)\<rparr>)"
| finish: "exit_code p = None \<Longrightarrow> in_flight p = Suc n \<Longrightarrow> process_step p Finish (p\<lparr>in_flight := n\<rparr>)"
| signal: "exit_code p = None \<Longrightarrow> pr_waiting p = For_signal \<Longrightarrow>
     process_step p Signal
       (if pr_serving p = Not_serving then p\<lparr>pr_waiting := Returning\<rparr>
        else p\<lparr>pr_waiting := For_shutdown, pr_serving := Listener_closed\<rparr>)"
| serve_returns: "exit_code p = None \<Longrightarrow> pr_serving p = Listener_closed \<Longrightarrow>
     process_step p Serve_returns (p\<lparr>exit_code := Some 1\<rparr>)"
| shutdown_done: "exit_code p = None \<Longrightarrow> pr_waiting p = For_shutdown \<Longrightarrow> in_flight p = 0 \<Longrightarrow>
     process_step p Shutdown_done (p\<lparr>pr_waiting := Returning\<rparr>)"
| shutdown_timeout: "exit_code p = None \<Longrightarrow> pr_waiting p = For_shutdown \<Longrightarrow>
     process_step p Shutdown_timeout (p\<lparr>exit_code := Some 1\<rparr>)"
| main_returns: "exit_code p = None \<Longrightarrow> pr_waiting p = Returning \<Longrightarrow>
     process_step p Main_returns (p\<lparr>exit_code := Some 0\<rparr>)"

section \<open>Properties\<close>

lemma main_startup_Started:
  assumes "main_startup h r d = (Started srv, r', d')"
  obtains cfg redis postgres d1 where
    "Load (h_ReadFile h) (h_parse h) (h_env h) ''config.json'' = Inr cfg"
    "NewRedis (h_dial h) (h_now h) (GetRedisAddr (Redis cfg)) (redis_Password (Redis cfg)) (DB (Redis cfg)) r =
       (Inr redis, r')"
    "NewPostgres (h_connect h) (database_dsn (Database cfg)) d = (Inr postgres, d1)"
    "AutoMigrate postgres d1 = (None, d')"
    "Server_New (h_platform h) (h_services h) (h_order h) cfg redis postgres = Inr srv"
  using assms by (auto simp: main_startup_def split: sum.splits prod.splits option.splits)

lemma NewRedis_Inr:
  "NewRedis dial t addr password db r = (Inr client, r') \<longleftrightarrow>
     client = dial addr password db \<and> c_Ping (dial addr password db) t r = (Inr (), r')"
  by (auto simp: NewRedis_def Let_def split: sum.splits prod.splits)

lemma Server_New_fields:
  "Server_New pf si order cfg redis postgres = Inr (s, ps, l) \<Longrightarrow>
     sv_config s = cfg \<and> sv_redis s = redis \<and> sv_postgres s = postgres \<and> sv_httpServer s = None \<and>
     initializeProxies (pf_parse pf) si (Services cfg) [] = Inr ps \<and> l = InitRequestLogger 1000"
  by (auto simp: Server_New_def Let_def split: sum.splits)

text \<open>C19: A program that gets as far as serving has a complete configuration and working stores: the
  configuration is the one \<open>Load\<close> gives and has every required field, the Redis client was made for
  the configured address and answered a ping, the database was opened for the configured connection
  string and its migrations have succeeded.  If the backends' first checks ran, the state is
  well-formed, with one proxy for each service that could be started.\<close>

theorem startup_sound:
  assumes "main_startup h r d = (Started (s, ps, l), r', d')"
  shows "Load (h_ReadFile h) (h_parse h) (h_env h) ''config.json'' = Inr (sv_config s) \<and>
    required_fields (sv_config s) \<and> 0 < ExpiryHours (JWT (sv_config s)) \<and>
    sv_redis s = h_dial h (GetRedisAddr (Redis (sv_config s))) (redis_Password (Redis (sv_config s))) (DB (Redis (sv_config s))) \<and>
    c_Ping (sv_redis s) (h_now h) r = (Inr (), r') \<and>
    (\<exists>d1. NewPostgres (h_connect h) (database_dsn (Database (sv_config s))) d = (Inr (sv_postgres s), d1) \<and>
       AutoMigrate (sv_postgres s) d1 = (None, d')) \<and>
    (list_all service_ok (Services (sv_config s)) \<and> first_checks (h_services h) (Services (sv_config s)) \<and>
       Intn_law (pf_intn (h_platform h)) \<longrightarrow>
     gateway_inv (h_platform h) (svc_Path ` set (filter (starts (pf_parse (h_platform h))) (Services (sv_config s))))
       (2 ^ 63) \<lparr>w_stores = \<lparr>s_redis = r', s_db = d', s_pending = []\<rparr>, w_logger = l, w_proxies = ps\<rparr>)"
proof -
  from assms obtain cfg redis postgres d1 where
    Load: "Load (h_ReadFile h) (h_parse h) (h_env h) ''config.json'' = Inr cfg" and
    redis: "NewRedis (h_dial h) (h_now h) (GetRedisAddr (Redis cfg)) (redis_Password (Redis cfg)) (DB (Redis cfg)) r =
       (Inr redis, r')" and
    db: "NewPostgres (h_connect h) (database_dsn (Database cfg)) d = (Inr postgres, d1)"
      "AutoMigrate postgres d1 = (None, d')" and
    New: "Server_New (h_platform h) (h_services h) (h_order h) cfg redis postgres = Inr (s, ps, l)"
    by (rule main_startup_Started)
  note s = Server_New_fields [OF New]
  show ?thesis
    using Load Load_complete [OF Load] redis db s
      gateway_starts [of cfg "h_services h" "h_platform h"
        "\<lparr>w_stores = \<lparr>s_redis = r', s_db = d', s_pending = []\<rparr>, w_logger = l, w_proxies = ps\<rparr>"]
    unfolding NewRedis_Inr by simp
qed

definition demo_sql :: "RequestLog list sql_DB" where
  "demo_sql =
     \<lparr>sql_PingContext = (\<lambda>d. (None, d)), sql_Close = (\<lambda>d. (None, d)), sql_SetMaxIdleConns = (\<lambda>n d. d),
      sql_SetMaxOpenConns = (\<lambda>n d. d), sql_SetConnMaxLifetime = (\<lambda>t d. d)\<rparr>"

definition demo_host :: "(rdb, RequestLog list, unit) host" where
  "demo_host =
     \<lparr>h_ReadFile = (\<lambda>path. Inr ''text''), h_parse = (\<lambda>txt. Inr demo_document), h_env = demo_env,
      h_dial = (\<lambda>addr password db. mem_client), h_now = 0,
      h_connect = (\<lambda>dsn d. (Inr ((pg_DB demo_postgres)\<lparr>gdb_DB := (\<lambda>d. (Inr demo_sql, d))\<rparr>), d)),
      h_platform = demo_platform,
      h_services = (\<lambda>i. (demo_service_input i)\<lparr>si_jobs := [(''http://a'', 1, 1)]\<rparr>), h_order = id\<rparr>"

lemma demo_Load:
  obtains cfg where "Load (\<lambda>path. Inr ''text'') (\<lambda>txt. Inr demo_document) demo_env ''config.json'' = Inr cfg"
    and "Services cfg = [zero_ServiceConfig\<lparr>svc_Path := ''/api'', svc_Targets := [''http://a'']\<rparr>]"
proof -
  obtain cfg0 where cfg0: "decode_Config demo_document zero_Config = (cfg0, False)"
      "required_fields (applyEnvOverrides demo_env cfg0)"
      "Services cfg0 = [zero_ServiceConfig\<lparr>svc_Path := ''/api'', svc_Targets := [''http://a'']\<rparr>]"
    by (rule that [OF demo_decoded])
      (simp_all add: required_fields_def applyEnvOverrides_def pick_def demo_env_def)
  show thesis
  proof (rule that [of "default_expiry (applyEnvOverrides demo_env cfg0)"])
    show "Load (\<lambda>path. Inr ''text'') (\<lambda>txt. Inr demo_document) demo_env ''config.json'' =
        Inr (default_expiry (applyEnvOverrides demo_env cfg0))"
      unfolding Load_validated validate_ok using cfg0 by blast
  qed (simp add: cfg0(3) default_expiry_def applyEnvOverrides_def)
qed

theorem startup_sound_witness:
  "\<exists>s ps l r' d'. main_startup demo_host Map.empty [] = (Started (s, ps, l), r', d') \<and>
     required_fields (sv_config s) \<and> sv_redis s = mem_client"
proof -
  obtain cfg where Load: "Load (\<lambda>path. Inr ''text'') (\<lambda>txt. Inr demo_document) demo_env ''config.json'' = Inr cfg"
      and services: "Services cfg = [zero_ServiceConfig\<lparr>svc_Path := ''/api'', svc_Targets := [''http://a'']\<rparr>]"
    by (rule demo_Load)
  have "proxies_ok demo_platform (2 ^ 63) []" "Intn_law (pf_intn demo_platform)"
    "list_all service_ok (Services cfg)" "first_checks (h_services demo_host) (Services cfg)"
    by (simp_all add: proxies_ok_def demo_config_ok services service_ok_def jobs_for_def demo_host_def
        zero_ServiceConfig_def)
  then obtain ps where "initializeProxies (pf_parse demo_platform) (h_services demo_host) (Services cfg) [] = Inr ps"
    using initializeProxies_ok by blast
  moreover have "pf_engine demo_platform = demo_engine" "\<not> ge_conflict demo_engine rs r" for rs r
    by (simp_all add: demo_platform_def demo_engine_def)
  ultimately obtain s ps l where
    "main_startup demo_host Map.empty [] = (Started (s, ps, l), Map.empty, [])"
    by (auto simp: main_startup_def demo_host_def Load NewRedis_def mem_client_def NewPostgres_def demo_sql_def
        AutoMigrate_def demo_postgres_def Server_New_def setupRoutes_def setupProxyRoutes_def add_routes_free Let_def)
  moreover from startup_sound [OF this] have "required_fields (sv_config s) \<and> sv_redis s = mem_client"
    by (simp add: demo_host_def)
  ultimately show ?thesis by blast
qed

definition process_inv :: "process \<Rightarrow> bool" where
  "process_inv p \<longleftrightarrow>
     (pr_serving p = Not_serving \<longrightarrow> in_flight p = 0) \<and>
     (pr_waiting p = For_signal \<longrightarrow> pr_serving p \<noteq> Listener_closed) \<and>
     (pr_waiting p = For_shutdown \<longrightarrow> pr_serving p = Listener_closed) \<and>
     (pr_waiting p = Returning \<and> pr_serving p = Listener_closed \<longrightarrow> in_flight p = 0) \<and>
     (exit_code p = Some 0 \<longrightarrow> pr_waiting p = Returning)"

interpretation program: invariant_system "\<lambda>p. p = process_start" process_step process_inv
proof (unfold_locales, goal_cases)
  case (1 p)
  then show ?case by (simp add: process_inv_def process_start_def)
next
  case (2 p e q)
  from 2(2,1) show ?case by cases (auto simp: process_inv_def)
qed

text \<open>C27: When the shutdown has closed the listener, the process exits with code 0 only after every
  request has been served.  But the shutdown is not graceful: in every reachable state in which it
  is waiting for requests to finish, the serving goroutine, whose \<open>ListenAndServe\<close> has returned
  because of the shutdown, may take the step that ends the process with code 1 and the requests
  unanswered.\<close>

theorem shutdown_not_graceful:
  assumes "run process_step process_start es p"
  shows "(exit_code p = Some 0 \<and> pr_serving p = Listener_closed \<longrightarrow> in_flight p = 0) \<and>
    (exit_code p = None \<and> pr_waiting p = For_shutdown \<longrightarrow>
       (\<exists>q. process_step p Serve_returns q \<and> exit_code q = Some 1 \<and> in_flight q = in_flight p))"
proof -
  have inv: "process_inv p" using program.inv_reachable [OF refl assms] .
  have "\<exists>q. process_step p Serve_returns q \<and> exit_code q = Some 1 \<and> in_flight q = in_flight p"
    if "exit_code p = None" "pr_waiting p = For_shutdown"
  proof -
    have "pr_serving p = Listener_closed" using inv that(2) by (simp add: process_inv_def)
    then have "process_step p Serve_returns (p\<lparr>exit_code := Some 1\<rparr>)" using that(1) by (intro serve_returns)
    then show ?thesis by (intro exI [of _ "p\<lparr>exit_code := Some 1\<rparr>"]) simp
  qed
  then show ?thesis using inv by (auto simp: process_inv_def)
qed

theorem shutdown_not_graceful_witness:
  "\<exists>p q. run process_step process_start [Serve, Accept, Signal] p \<and> process_step p Serve_returns q \<and>
     exit_code q = Some 1 \<and> in_flight q = 1"
proof -
  let ?p = "\<lparr>pr_serving = Listener_closed, pr_waiting = For_shutdown, in_flight = 1, exit_code = None\<rparr>"
  have steps: "process_step process_start Serve \<lparr>pr_serving = Serving, pr_waiting = For_signal, in_flight = 0, exit_code = None\<rparr>"
    "process_step \<lparr>pr_serving = Serving, pr_waiting = For_signal, in_flight = 0, exit_code = None\<rparr> Accept
      \<lparr>pr_serving = Serving, pr_waiting = For_signal, in_flight = 1, exit_code = None\<rparr>"
    "process_step \<lparr>pr_serving = Serving, pr_waiting = For_signal, in_flight = 1, exit_code = None\<rparr> Signal ?p"
    using serve [of process_start] accept [of "\<lparr>pr_serving = Serving, pr_waiting = For_signal, in_flight = 0, exit_code = None\<rparr>"]
      signal [of "\<lparr>pr_serving = Serving, pr_waiting = For_signal, in_flight = 1, exit_code = None\<rparr>"]
    by (simp_all add: process_start_def)
  then have run: "run process_step process_start [Serve, Accept, Signal] ?p"
    unfolding run_Cons run_Nil_iff by blast
  then show ?thesis using shutdown_not_graceful [OF run] by fastforce
qed

end
