(* ===== verification/ApiKeyCache.thy ===== *)
theory ApiKeyCache
  imports ApiKeys Systems
begin

text \<open>
  The cache of the API-key service is transparent: whatever keys are created, updated,
  deleted and validated, one operation after the other and with stores that answer,
  \<open>Validate\<close> decides as the table does.  The invariant is coherence: every entry of the
  cache is empty or holds an active key of the table.  Two further results say what happens
  when operations overlap or stores fail: a revoked key can be put back into the cache, and
  then dies with the entry.
\<close>

section \<open>What the service relies on\<close>


definition plain_key :: "APIKey \<Rightarrow> bool" where
  "plain_key a \<longleftrightarrow> canonical_uuid (ID a) \<and> ascii (Name a) \<and> ascii (CreatedBy a) \<and> ascii (Tier a)"

text \<open>The text of a key can be read back, unless there is none (a time outside the range that
  JSON can express); the canonical form of an identifier is its own reading.\<close>

definition env_ok :: "key_env \<Rightarrow> bool" where
  "env_ok env \<longleftrightarrow>
     (\<forall>a. plain_key a \<longrightarrow>
        Marshal env (APIKey_json a) = '''' \<or>
        Parse_json env (Marshal env (APIKey_json a)) = Inr (APIKey_json a)) \<and>
     (\<forall>u. canonical_uuid u \<longrightarrow> uuid_Parse env u = Inr u)"

text \<open>Stores that answer: a write to Redis succeeds, and a query for one row finds it or
  finds that there is none.  Writes to the database may fail.\<close>

definition stores_answer :: "('r, 'd) APIKeyService \<Rightarrow> bool" where
  "stores_answer s \<longleftrightarrow>
     (\<forall>t k v d r. fst (c_Set (aks_redis s) t k v d r) = Inr ()) \<and>
     (\<forall>q d e. fst (g_First (aks_repository s) q d) = Inl e \<longrightarrow> e = ErrRecordNotFound)"

lemma JSON_round_trip:
  assumes "canonical_uuid (ID a)" "\<forall>u. canonical_uuid u \<longrightarrow> uuid_Parse env u = Inr u"
  shows "APIKey_decoder env (APIKey_json a) APIKey_zero = (a\<lparr>KeyHash := ''''\<rparr>, False)"
  using assms
  by (cases a; cases "LastUsedAt a")
     (simp_all add: APIKey_decoder_def APIKey_json_def decode_struct_def find_field_def decode_field_def
       decode_uuid_def decode_string_def decode_bool_def decode_time_def decode_ptr_def APIKey_zero_def)

lemma Unmarshal_Marshal:
  assumes "env_ok env" "plain_key a" "Marshal env (APIKey_json a) \<noteq> ''''"
  shows "Unmarshal_APIKey env (Marshal env (APIKey_json a)) = Some (a\<lparr>KeyHash := ''''\<rparr>)"
proof -
  have "Parse_json env (Marshal env (APIKey_json a)) = Inr (APIKey_json a)"
    and "APIKey_decoder env (APIKey_json a) APIKey_zero = (a\<lparr>KeyHash := ''''\<rparr>, False)"
    using assms JSON_round_trip [of a env] by (auto simp: env_ok_def plain_key_def)
  then show ?thesis by (simp add: Unmarshal_APIKey_def Unmarshal_def)
qed

section \<open>Coherence of the cache\<close>

text \<open>Two keys that differ at most in the hash, which the cache does not keep, and in the time
  of the last use, which is recorded without touching the cache.\<close>

definition same_key :: "APIKey \<Rightarrow> APIKey \<Rightarrow> bool" where
  "same_key a k \<longleftrightarrow> a\<lparr>KeyHash := '''', LastUsedAt := None\<rparr> = k\<lparr>KeyHash := '''', LastUsedAt := None\<rparr>"

definition active_key :: "APIKey list \<Rightarrow> string \<Rightarrow> APIKey \<Rightarrow> bool" where
  "active_key rows h k \<longleftrightarrow> k \<in> set rows \<and> KeyHash k = h \<and> IsActive k"

definition entry_ok :: "key_env \<Rightarrow> APIKey list \<Rightarrow> string \<Rightarrow> rentry \<Rightarrow> bool" where
  "entry_ok env rows h e \<longleftrightarrow>
     (\<exists>txt. rval e = RStr txt \<and>
        (txt = '''' \<or>
         (\<exists>a k. Unmarshal_APIKey env txt = Some a \<and> active_key rows h k \<and> same_key a k)))"

definition coherent :: "key_env \<Rightarrow> APIKey list \<Rightarrow> rdb \<Rightarrow> bool" where
  "coherent env rows db \<longleftrightarrow> (\<forall>h e. db (cache_key h) = Some e \<longrightarrow> entry_ok env rows h e)"

lemma same_key_refl [simp]: "same_key k k" "same_key (k\<lparr>KeyHash := h\<rparr>) k"
  by (simp_all add: same_key_def)

lemma same_key_trans: "same_key a b \<Longrightarrow> same_key b c \<Longrightarrow> same_key a c"
  by (simp add: same_key_def)

lemma cache_key_inj [simp]: "cache_key h = cache_key h' \<longleftrightarrow> h = h'"
  by (simp add: cache_key_def)

lemma coherent_mono:
  assumes "coherent env rows db"
    and "\<And>h k. active_key rows h k \<Longrightarrow> \<exists>k'. active_key rows' h k' \<and> same_key k k'"
  shows "coherent env rows' db"
  unfolding coherent_def entry_ok_def
  using assms(1) [unfolded coherent_def entry_ok_def] assms(2) same_key_trans by meson

lemma coherent_subset:
  "coherent env rows db \<Longrightarrow> (\<And>h k. active_key rows h k \<Longrightarrow> active_key rows' h k) \<Longrightarrow> coherent env rows' db"
  using coherent_mono same_key_refl(1) by blast

lemma coherent_upd:
  "coherent env rows db \<Longrightarrow> entry_ok env rows h e \<Longrightarrow> coherent env rows (db(cache_key h \<mapsto> e))"
  by (auto simp: coherent_def)

lemma coherent_blank:
  assumes "coherent env rows db"
  shows "coherent env (filter (\<lambda>k. KeyHash k \<noteq> h) rows)
           (db(cache_key h \<mapsto> \<lparr>rval = RStr '''', expires = x\<rparr>))"
  using assms by (force simp: coherent_def entry_ok_def active_key_def)

lemma live_Some: "live t db k = Some e \<Longrightarrow> db k = Some e"
  by (simp add: live_def split: option.splits if_splits)

lemma via_redis_eq:
  "via_redis f st = (x, st') \<longleftrightarrow> (\<exists>r. f (s_redis st) = (x, r) \<and> st' = st\<lparr>s_redis := r\<rparr>)"
  by (auto simp: via_redis_def split: prod.splits)

lemma via_db_eq:
  "via_db f st = (x, st') \<longleftrightarrow> (\<exists>d. f (s_db st) = (x, d) \<and> st' = st\<lparr>s_db := d\<rparr>)"
  by (auto simp: via_db_def split: prod.splits)

lemma db_get_Inr: "db_get t k db = (Inr txt, db') \<Longrightarrow> \<exists>e. db k = Some e \<and> alive t e \<and> rval e = RStr txt"
  by (auto simp: db_get_def live_def split: option.splits rvalue.splits if_splits)

text \<open>The contract between the service and its stores.\<close>

locale key_stores =
  fixes env :: key_env
    and s :: "('r, 'd) APIKeyService"
    and view :: "'r \<Rightarrow> rdb"
    and ttl :: "time \<Rightarrow> duration \<Rightarrow> time"
    and rows :: "'d \<Rightarrow> APIKey list"
  assumes redis: "redis_conforms (aks_redis s) view ttl"
    and table: "gorm_conforms api_keys (aks_repository s) rows"
    and codec: "env_ok env"
begin

text \<open>What a lookup finds, whatever the state of the cache.\<close>

lemma lookup_cases:
  assumes "Validate_lookup env s t key st = (out, st')"
  shows "view (s_redis st') = view (s_redis st)" (is ?redis)
    and "rows (s_db st') = rows (s_db st)" (is ?rows)
    and "out = Fetched h k \<Longrightarrow>
      h = key_hash env key \<and> active_key (rows (s_db st)) h k" (is "_ \<Longrightarrow> ?fetched")
    and "out = Finished (Inr None) \<Longrightarrow>
      \<not> active_key (rows (s_db st)) (key_hash env key) k" (is "_ \<Longrightarrow> ?none")
    and "out = Finished (Inr (Some a)) \<Longrightarrow>
      \<exists>e txt. view (s_redis st) (cache_key (key_hash env key)) = Some e \<and> alive t e \<and>
        rval e = RStr txt \<and> txt \<noteq> '''' \<and> Unmarshal_APIKey env txt = Some a" (is "_ \<Longrightarrow> ?hit")
proof -
  let ?h = "key_hash env key"
  obtain cached r where get: "Redis_Get (aks_redis s) t (cache_key ?h) (s_redis st) = (cached, r)"
    by (cases "Redis_Get (aks_redis s) t (cache_key ?h) (s_redis st)")
  note reply = conforms_Get [OF redis get]
  have r: "view r = view (s_redis st)"
    using replied_db [OF reply] by simp
  obtain res d where found: "FindByHash (aks_repository s) ?h (s_db st) = (res, d)"
    by (cases "FindByHash (aks_repository s) ?h (s_db st)")
  note look = FindByHash_spec [OF table found]
  have eq: "Validate_lookup env s t key st =
      (case cache_hit env cached of
         Some apiKey \<Rightarrow> (Finished (Inr (Some apiKey)), st\<lparr>s_redis := r\<rparr>)
       | None \<Rightarrow> (case res of Inl err \<Rightarrow> Finished (Inl err) | Inr None \<Rightarrow> Finished (Inr None)
                 | Inr (Some k) \<Rightarrow> Fetched ?h k, st\<lparr>s_redis := r, s_db := d\<rparr>))"
    by (simp add: Validate_lookup_def via_redis_def via_db_def get found split: option.splits sum.splits)
  have hit: "cache_hit env cached = Some a \<Longrightarrow>
      \<exists>e txt. view (s_redis st) (cache_key ?h) = Some e \<and> alive t e \<and> rval e = RStr txt \<and>
        txt \<noteq> '''' \<and> Unmarshal_APIKey env txt = Some a" for a
    using reply by (auto simp: cache_hit_def split: sum.splits if_splits dest!: replied_Inr db_get_Inr)
  show ?redis ?rows
    using assms r look(1) unfolding eq by (auto split: option.splits)
  show "out = Fetched h k \<Longrightarrow> ?fetched"
    using assms look(3) unfolding eq by (auto simp: active_key_def split: option.splits sum.splits)
  show "out = Finished (Inr None) \<Longrightarrow> ?none"
    using assms look(2) [of k] unfolding eq by (auto simp: active_key_def split: option.splits sum.splits)
  show "out = Finished (Inr (Some a)) \<Longrightarrow> ?hit"
    using assms hit unfolding eq by (auto split: option.splits sum.splits)
qed

lemma store_view:
  "\<exists>e. (view (s_redis (Validate_store env s t h k st)) = view (s_redis st) \<or>
        view (s_redis (Validate_store env s t h k st)) = (view (s_redis st))(cache_key h \<mapsto> e)) \<and>
       rval e = RStr (Marshal env (APIKey_json k)) \<and> expires e = Some (ttl t (5 * Minute))"
  "s_db (Validate_store env s t h k st) = s_db st"
proof -
  obtain res r where set: "Redis_Set (aks_redis s) t (cache_key h) (Marshal env (APIKey_json k))
      (5 * Minute) (s_redis st) = (res, r)"
    by (cases "Redis_Set (aks_redis s) t (cache_key h) (Marshal env (APIKey_json k))
      (5 * Minute) (s_redis st)")
  have "lifetime (5 * Minute)" by (simp add: lifetime_def)
  then have "view r = view (s_redis st) \<or> view r = snd (db_set ttl t (cache_key h)
      (Marshal env (APIKey_json k)) (5 * Minute) (view (s_redis st)))"
    using replied_db [OF conforms_Set [OF redis _ set]] by blast
  then show "\<exists>e. (view (s_redis (Validate_store env s t h k st)) = view (s_redis st) \<or>
        view (s_redis (Validate_store env s t h k st)) = (view (s_redis st))(cache_key h \<mapsto> e)) \<and>
       rval e = RStr (Marshal env (APIKey_json k)) \<and> expires e = Some (ttl t (5 * Minute))"
    by (intro exI [of _ "\<lparr>rval = RStr (Marshal env (APIKey_json k)), expires = Some (ttl t (5 * Minute))\<rparr>"])
       (simp add: Validate_store_def via_redis_def set [simplified] db_set_def)
  show "s_db (Validate_store env s t h k st) = s_db st"
    by (simp add: Validate_store_def via_redis_def set [simplified])
qed

lemma store_coherent:
  assumes "coherent env (rows (s_db st)) (view (s_redis st))"
    and "active_key (rows (s_db st)) h k" "plain_key k"
  shows "coherent env (rows (s_db st)) (view (s_redis (Validate_store env s t h k st)))"
proof -
  let ?txt = "Marshal env (APIKey_json k)"
  obtain e where e: "rval e = RStr ?txt"
      "view (s_redis (Validate_store env s t h k st)) = view (s_redis st) \<or>
       view (s_redis (Validate_store env s t h k st)) = (view (s_redis st))(cache_key h \<mapsto> e)"
    using store_view(1) by blast
  have "entry_ok env (rows (s_db st)) h e"
    using Unmarshal_Marshal [OF codec assms(3)] assms(2) e(1)
    by (cases "?txt = ''''") (auto simp: entry_ok_def)
  with e(2) assms(1) show ?thesis by (auto intro: coherent_upd)
qed

end

definition keys_inv :: "key_env \<Rightarrow> APIKey list \<Rightarrow> rdb \<Rightarrow> bool" where
  "keys_inv env rows db \<longleftrightarrow>
     coherent env rows db \<and> distinct_keys api_keys rows \<and> list_all plain_key rows"

lemma coherent_filter: "coherent env (filter P rows) db \<Longrightarrow> coherent env rows db"
  by (erule coherent_subset) (simp add: active_key_def)

lemma distinct_ids:
  "distinct_keys api_keys rows \<Longrightarrow> a \<in> set rows \<Longrightarrow> b \<in> set rows \<Longrightarrow> ID a = ID b \<Longrightarrow> a = b"
  by (auto simp: distinct_keys_def api_keys_def distinct_map inj_on_def)

context key_stores
begin

lemma validate_cases:
  assumes "keys_inv env (rows (s_db st)) (view (s_redis st))"
    and "Validate env s ts key st = (res, st')"
  shows "rows (s_db st') = rows (s_db st)"
    and "coherent env (rows (s_db st')) (view (s_redis st'))"
    and "res = Inr None \<Longrightarrow> \<not> active_key (rows (s_db st)) (key_hash env key) k"
    and "res = Inr (Some a) \<Longrightarrow> \<exists>k. active_key (rows (s_db st)) (key_hash env key) k \<and> same_key a k"
proof -
  obtain out st1 where look: "Validate_lookup env s (ts 0) key st = (out, st1)"
    by (cases "Validate_lookup env s (ts 0) key st")
  note facts = lookup_cases [OF look]
  have coh: "coherent env (rows (s_db st)) (view (s_redis st))"
    and plain: "active_key (rows (s_db st)) h k \<Longrightarrow> plain_key k" for h k
    using assms(1) by (auto simp: keys_inv_def list_all_iff active_key_def)
  show "rows (s_db st') = rows (s_db st)"
    using assms(2) look facts(2) store_view(2) by (auto simp: Validate_def split: lookup.splits)
  show "coherent env (rows (s_db st')) (view (s_redis st'))"
    using assms(2) look facts(1-3) coh plain store_view(2) store_coherent [of st1]
    by (auto simp: Validate_def split: lookup.splits)
  show "res = Inr None \<Longrightarrow> \<not> active_key (rows (s_db st)) (key_hash env key) k"
    using assms(2) look facts(4) by (auto simp: Validate_def split: lookup.splits)
  show "\<exists>k. active_key (rows (s_db st)) (key_hash env key) k \<and> same_key a k" if "res = Inr (Some a)"
  proof (cases out)
    case (Finished r)
    then have "out = Finished (Inr (Some a))" using assms(2) look that by (simp add: Validate_def)
    then show ?thesis using facts(5) coh by (fastforce simp: coherent_def entry_ok_def)
  next
    case (Fetched h k)
    then show ?thesis using assms(2) look that facts(3) by (auto simp: Validate_def intro!: exI [of _ k])
  qed
qed

lemma invalidate_rows:
  "canonical_uuid i \<Longrightarrow> rows (s_db (invalidateCache s t i st)) = rows (s_db st)"
  using FindByID_spec(1) [OF table]
  by (auto simp: invalidateCache_def via_db_def via_redis_def split: prod.splits sum.splits option.splits)

lemma invalidate_coherent:
  assumes "stores_answer s" "canonical_uuid i"
    and inv: "keys_inv env (rows (s_db st)) (view (s_redis st))"
  shows "coherent env (filter (\<lambda>k. ID k \<noteq> i) (rows (s_db st))) (view (s_redis (invalidateCache s t i st)))"
proof -
  let ?rows = "rows (s_db st)"
  have coh: "coherent env ?rows (view (s_redis st))" using inv by (simp add: keys_inv_def)
  obtain res d where find: "FindByID (aks_repository s) i (s_db st) = (res, d)"
    by (cases "FindByID (aks_repository s) i (s_db st)")
  note facts = FindByID_spec [OF table find assms(2)]
  have "\<exists>o'. res = Inr o'"
    using assms(1) find
    by (auto simp: FindByID_def not_found_nil_cases stores_answer_def split: sum.splits)
  then consider "res = Inr None" | k where "res = Inr (Some k)" by (metis option.exhaust)
  then show ?thesis
  proof cases
    case 1
    then have "filter (\<lambda>k. ID k \<noteq> i) ?rows = ?rows" using facts(2) by (auto simp: filter_id_conv)
    with 1 coh find show ?thesis by (simp add: invalidateCache_def via_db_def)
  next
    case 2
    obtain r where set: "Redis_Set (aks_redis s) t (cache_key (KeyHash k)) '''' 0 (s_redis st) = (Inr (), r)"
      using assms(1) unfolding stores_answer_def Redis_Set_def by (metis prod.collapse)
    have "view r = snd (db_set ttl t (cache_key (KeyHash k)) '''' 0 (view (s_redis st)))"
      using replied_Inr [OF conforms_Set [OF redis _ set]] by simp
    then have "coherent env (filter (\<lambda>x. KeyHash x \<noteq> KeyHash k) ?rows) (view r)"
      using coherent_blank [OF coh] by (simp add: db_set_def)
    moreover have "ID x \<noteq> i" if "x \<in> set ?rows" "KeyHash x \<noteq> KeyHash k" for x
      using that 2 facts(3) inv distinct_ids by (auto simp: keys_inv_def)
    ultimately have "coherent env (filter (\<lambda>k. ID k \<noteq> i) ?rows) (view r)"
      by (elim coherent_subset) (simp add: active_key_def)
    with 2 find set show ?thesis by (simp add: invalidateCache_def via_db_def via_redis_def)
  qed
qed

end

section \<open>Every operation keeps the invariant\<close>

text \<open>An assignment to columns changes neither the identifier nor the hash.\<close>

lemma assigned_api_keys:
  "ID (assigned api_keys u x) = ID x" "KeyHash (assigned api_keys u x) = KeyHash x"
  "Name (assigned api_keys u x) = Name x" "CreatedBy (assigned api_keys u x) = CreatedBy x"
  by (simp_all add: assigned_def api_keys_assign_def split: option.splits sql_val.splits)

lemma assigned_Tier:
  "ascii (Tier x) \<Longrightarrow> (\<And>tier. u ''tier'' = Some (SText tier) \<Longrightarrow> ascii tier) \<Longrightarrow>
     ascii (Tier (assigned api_keys u x))"
  by (auto simp: assigned_def api_keys_assign_def split: option.splits sql_val.splits)

definition update_row :: "uuid \<Rightarrow> (string \<rightharpoonup> sql_val) \<Rightarrow> APIKey \<Rightarrow> APIKey" where
  "update_row i u x = (if ID x = i then assigned api_keys u x else x)"

lemma update_row_fixed [simp]: "ID (update_row i u x) = ID x" "KeyHash (update_row i u x) = KeyHash x"
  by (simp_all add: update_row_def assigned_api_keys)

lemma update_row_plain:
  "plain_key x \<Longrightarrow> (\<And>tier. u ''tier'' = Some (SText tier) \<Longrightarrow> ascii tier) \<Longrightarrow>
     plain_key (update_row i u x)"
  by (auto simp: update_row_def plain_key_def assigned_api_keys assigned_Tier)

lemma keys_inv_update:
  assumes "keys_inv env rows db"
    and "\<And>tier. u ''tier'' = Some (SText tier) \<Longrightarrow> ascii tier"
    and "coherent env (map (update_row i u) rows) db'"
  shows "keys_inv env (map (update_row i u) rows) db'"
  using assms
  by (auto simp: keys_inv_def distinct_keys_def api_keys_def o_def list.pred_map
      elim!: list.pred_mono_strong intro!: update_row_plain)

lemma keys_inv_coherent: "keys_inv env rows db \<Longrightarrow> coherent env rows db' \<Longrightarrow> keys_inv env rows db'"
  by (simp add: keys_inv_def)

lemma query_by_id [simp]:
  "matches api_keys (Where [Equals ''id'' (SText i)] all_rows) x \<longleftrightarrow> ID x = i"
  by simp

context key_stores
begin

lemma update_rows:
  assumes "canonical_uuid i" "dom u \<subseteq> {''tier'', ''is_active'', ''last_used_at''}"
    and "g_Updates (aks_repository s) (Where [Equals ''id'' (SText i)] all_rows) u d = (err, d')"
  shows "rows d' = rows d \<or> rows d' = map (update_row i u) (rows d)"
  using conforms_Updates [OF table assms(3)] assms(1, 2)
  by (auto simp: executed_def updated_def update_row_def [abs_def])

lemma delete_rows:
  assumes "canonical_uuid i"
    and "g_Delete (aks_repository s) (Where [Equals ''id'' (SText i)] all_rows) d = ((n, err), d')"
  shows "rows d' = rows d \<or> rows d' = filter (\<lambda>x. ID x \<noteq> i) (rows d)"
  using conforms_Delete(1) [OF table assms(2)] assms(1) by (auto simp: executed_def)

lemma last_used_inv:
  assumes "canonical_uuid i" and inv: "keys_inv env (rows (s_db st)) (view (s_redis st))"
  shows "keys_inv env (rows (s_db (UpdateLastUsed s now i st))) (view (s_redis (UpdateLastUsed s now i st)))"
proof -
  let ?u = "[''last_used_at'' \<mapsto> STime now]"
  obtain err d where upd: "g_Updates (aks_repository s) (Where [Equals ''id'' (SText i)] all_rows) ?u (s_db st) = (err, d)"
    by (cases "g_Updates (aks_repository s) (Where [Equals ''id'' (SText i)] all_rows) ?u (s_db st)")
  have row: "IsActive (update_row i ?u k) = IsActive k" "same_key k (update_row i ?u k)" for k
    by (simp_all add: update_row_def assigned_def api_keys_assign_def same_key_def)
  have "coherent env (map (update_row i ?u) (rows (s_db st))) (view (s_redis st))"
    using inv row unfolding keys_inv_def
    by (elim conjE coherent_mono) (auto simp: active_key_def intro!: exI [of _ "update_row i ?u _"])
  then have "keys_inv env (map (update_row i ?u) (rows (s_db st))) (view (s_redis st))"
    using inv by (intro keys_inv_update) simp_all
  with update_rows [OF assms(1) _ upd] inv show ?thesis
    by (auto simp: UpdateLastUsed_def APIKeyRepository_UpdateLastUsed_def via_db_def upd)
qed

lemma create_inv:
  assumes "canonical_uuid fresh" "ascii name" "ascii createdBy" "ascii tier"
    and inv: "keys_inv env (rows (s_db st)) (view (s_redis st))"
    and "APIKeyService_Create env s rand fresh name createdBy tier st = (res, st')"
  shows "keys_inv env (rows (s_db st')) (view (s_redis st'))"
proof (cases rand)
  case (Inl err)
  with assms(6) inv show ?thesis by (auto simp: APIKeyService_Create_def)
next
  case (Inr bytes)
  let ?a = "new_key env (generated_key bytes) name createdBy tier"
  obtain err d where create: "g_Create (aks_repository s) (APIKey_BeforeCreate fresh) [?a] (s_db st) = (err, d)"
    by (cases "g_Create (aks_repository s) (APIKey_BeforeCreate fresh) [?a] (s_db st)")
  have st': "st' = st\<lparr>s_db := d\<rparr>"
    using assms(6) Inr create
    by (auto simp: APIKeyService_Create_def Let_def via_db_def APIKeyRepository_Create_def
        split: option.splits)
  obtain now ids where ids: "length ids = length [?a]"
      and dist: "distinct_keys api_keys (rows (s_db st)) \<longrightarrow> distinct_keys api_keys (rows d)"
      and ex: "executed (rows (s_db st)) (rows (s_db st) @ inserted api_keys now ids (APIKey_BeforeCreate fresh) [?a])
        err (rows d)"
    using conforms_Create [OF table create] by blast
  obtain j where "ids = [j]" using ids by (cases ids) auto
  let ?new = "api_keys_filled now j (APIKey_BeforeCreate fresh ?a)"
  have "rows d = rows (s_db st) \<or> rows d = rows (s_db st) @ [?new]"
    using ex by (auto simp: executed_def inserted_def \<open>ids = [j]\<close>)
  moreover have "plain_key ?new"
    using assms(1-4) by (simp add: plain_key_def api_keys_filled_def APIKey_BeforeCreate_def new_key_def
        APIKey_zero_def ascii_def)
  moreover have "coherent env (rows (s_db st) @ [?new]) (view (s_redis st))"
    using inv unfolding keys_inv_def by (auto elim: coherent_subset simp: active_key_def)
  ultimately show ?thesis
    using inv dist by (auto simp: keys_inv_def st')
qed

end

lemma key_updates_simps:
  "dom (key_updates req) \<subseteq> {''tier'', ''is_active'', ''last_used_at''}"
  "key_updates req ''tier'' = map_option SText (ukr_Tier req)"
  "key_updates req ''is_active'' = map_option SBool (ukr_IsActive req)"
  by (auto simp: key_updates_def Let_def split: option.splits if_splits)

text \<open>The rows that an update or a deletion leaves alone.\<close>

lemma others_coherent:
  "coherent env (filter (\<lambda>k. ID k \<noteq> i) rows) db \<Longrightarrow> coherent env (map (update_row i u) rows) db"
  by (erule coherent_subset) (auto simp: active_key_def update_row_def image_iff)

context key_stores
begin

lemma invalidate_inv:
  assumes "stores_answer s" "canonical_uuid i"
    and "keys_inv env (rows (s_db st)) (view (s_redis st))"
  shows "keys_inv env (rows (s_db st)) (view (s_redis (invalidateCache s t i st)))"
  by (rule keys_inv_coherent [OF assms(3) coherent_filter [OF invalidate_coherent [OF assms]]])

lemma update_inv:
  assumes answer: "stores_answer s" and i: "canonical_uuid i"
    and req: "ukr_Tier req \<noteq> None \<or> ukr_IsActive req \<noteq> None"
    and tier: "\<And>tier. ukr_Tier req = Some tier \<Longrightarrow> ascii tier"
    and inv: "keys_inv env (rows (s_db st)) (view (s_redis st))"
    and upd: "APIKeyService_Update s ts i (key_updates req) st = (err, st')"
  shows "keys_inv env (rows (s_db st')) (view (s_redis st'))"
proof -
  define st1 where "st1 = (if ukr_Tier req \<noteq> None then invalidateCache s (ts 0) i st else st)"
  define st2 where "st2 = (if ukr_IsActive req \<noteq> None then invalidateCache s (ts 1) i st1 else st1)"
  obtain d where d: "g_Updates (aks_repository s) (Where [Equals ''id'' (SText i)] all_rows)
      (key_updates req) (s_db st2) = (err, d)" and st': "st' = st2\<lparr>s_db := d\<rparr>"
    using upd
    by (auto simp: APIKeyService_Update_def Let_def key_updates_simps st1_def st2_def via_db_eq
        APIKeyRepository_Update_def simp del: query_by_id cong: if_cong)
  have rows2: "rows (s_db st2) = rows (s_db st)"
    by (simp add: st2_def st1_def invalidate_rows i)
  have inv1: "keys_inv env (rows (s_db st1)) (view (s_redis st1))"
    using invalidate_inv [OF answer i inv] inv by (simp add: st1_def invalidate_rows i)
  have "coherent env (filter (\<lambda>k. ID k \<noteq> i) (rows (s_db st))) (view (s_redis st2))"
    using req invalidate_coherent [OF answer i inv1] invalidate_coherent [OF answer i inv]
    by (auto simp: st2_def st1_def invalidate_rows i)
  then have new: "coherent env (rows (s_db st)) (view (s_redis st2))"
      "coherent env (map (update_row i (key_updates req)) (rows (s_db st))) (view (s_redis st2))"
    by (rule coherent_filter, rule others_coherent)
  have "rows d = rows (s_db st) \<or> rows d = map (update_row i (key_updates req)) (rows (s_db st))"
    using update_rows [OF i key_updates_simps(1) d] by (simp add: rows2)
  then show ?thesis
    using keys_inv_update [OF inv _ new(2)] keys_inv_coherent [OF inv new(1)] tier
    by (auto simp: st' key_updates_simps)
qed

lemma delete_inv:
  assumes answer: "stores_answer s" and i: "canonical_uuid i"
    and inv: "keys_inv env (rows (s_db st)) (view (s_redis st))"
    and del: "APIKeyService_Delete s t i st = (err, st')"
  shows "keys_inv env (rows (s_db st')) (view (s_redis st'))"
proof -
  define st1 where "st1 = invalidateCache s t i st"
  obtain n d where d: "g_Delete (aks_repository s) (Where [Equals ''id'' (SText i)] all_rows) (s_db st1) = ((n, err), d)"
      and st': "st' = st1\<lparr>s_db := d\<rparr>"
    using del by (auto simp: APIKeyService_Delete_def via_db_eq APIKeyRepository_Delete_def st1_def
        split: prod.splits)
  have c: "coherent env (filter (\<lambda>k. ID k \<noteq> i) (rows (s_db st))) (view (s_redis st1))"
    unfolding st1_def by (rule invalidate_coherent [OF answer i inv])
  have "keys_inv env (rows (s_db st)) (view (s_redis st1))"
      "keys_inv env (filter (\<lambda>k. ID k \<noteq> i) (rows (s_db st))) (view (s_redis st1))"
    using inv c coherent_filter [OF c]
    by (simp_all add: keys_inv_def distinct_keys_def distinct_map_filter list_all_iff)
  moreover have "rows d = rows (s_db st) \<or> rows d = filter (\<lambda>k. ID k \<noteq> i) (rows (s_db st))"
    using delete_rows [OF i d] by (simp add: st1_def invalidate_rows i)
  ultimately show ?thesis
    by (elim disjE) (simp_all add: st')
qed

end

section \<open>Histories of the service\<close>

datatype key_event =
    Created "go_error + string"
  | Validated clock string "go_error + APIKey option"
  | Updated uuid UpdateKeyRequest "go_error option"
  | Deleted uuid "go_error option"
  | Last_used uuid

text \<open>One operation after the other, with any arguments the handlers and the middleware pass
  on: identifiers in canonical form and updates that are not empty.\<close>

inductive key_step ::
    "key_env \<Rightarrow> ('r, 'd) APIKeyService \<Rightarrow> ('r, 'd) stores \<Rightarrow> key_event \<Rightarrow> ('r, 'd) stores \<Rightarrow> bool"
  for env :: key_env and s :: "('r, 'd) APIKeyService" where
  step_Create: "APIKeyService_Create env s rand fresh name createdBy tier st = (res, st') \<Longrightarrow>
    canonical_uuid fresh \<Longrightarrow> ascii name \<Longrightarrow> ascii createdBy \<Longrightarrow> ascii tier \<Longrightarrow>
    key_step env s st (Created res) st'"
| step_Validate: "Validate env s ts key st = (res, st') \<Longrightarrow> key_step env s st (Validated ts key res) st'"
| step_Update: "APIKeyService_Update s ts i (key_updates req) st = (err, st') \<Longrightarrow> canonical_uuid i \<Longrightarrow>
    ukr_Tier req \<noteq> None \<or> ukr_IsActive req \<noteq> None \<Longrightarrow>
    (\<And>tier. ukr_Tier req = Some tier \<Longrightarrow> ascii tier) \<Longrightarrow>
    key_step env s st (Updated i req err) st'"
| step_Delete: "APIKeyService_Delete s t i st = (err, st') \<Longrightarrow> canonical_uuid i \<Longrightarrow>
    key_step env s st (Deleted i err) st'"
| step_Last_used: "UpdateLastUsed s now i st = st' \<Longrightarrow> canonical_uuid i \<Longrightarrow>
    key_step env s st (Last_used i) st'"

inductive_cases ValidatedE: "key_step env s st (Validated ts key res) st'"

definition keys_ready ::
    "key_env \<Rightarrow> ('r, 'd) APIKeyService \<Rightarrow> ('r \<Rightarrow> rdb) \<Rightarrow> (time \<Rightarrow> duration \<Rightarrow> time) \<Rightarrow> ('d \<Rightarrow> APIKey list) \<Rightarrow>
     bool" where
  "keys_ready env s view ttl rows \<longleftrightarrow>
     redis_conforms (aks_redis s) view ttl \<and> gorm_conforms api_keys (aks_repository s) rows \<and>
     env_ok env \<and> stores_answer s"

definition keys_init :: "APIKey list \<Rightarrow> rdb \<Rightarrow> bool" where
  "keys_init rows db \<longleftrightarrow>
     distinct_keys api_keys rows \<and> list_all plain_key rows \<and> (\<forall>h. db (cache_key h) = None)"

lemma keys_ready_stores: "keys_ready env s view ttl rows \<Longrightarrow> key_stores env s view ttl rows"
  by (simp add: keys_ready_def key_stores_def)

lemma keys_init_inv: "keys_init rows db \<Longrightarrow> keys_inv env rows db"
  by (simp add: keys_init_def keys_inv_def coherent_def)

lemma key_step_inv:
  assumes ready: "keys_ready env s view ttl rows"
    and "key_step env s st e st'" and "keys_inv env (rows (s_db st)) (view (s_redis st))"
  shows "keys_inv env (rows (s_db st')) (view (s_redis st'))"
proof -
  have stores: "key_stores env s view ttl rows" and answer: "stores_answer s"
    using ready by (simp_all add: keys_ready_stores, simp add: keys_ready_def)
  from assms(2) show ?thesis
  proof cases
    case (step_Validate ts key res)
    note v = key_stores.validate_cases(1, 2) [OF stores assms(3) step_Validate(2)]
    have "keys_inv env (rows (s_db st)) (view (s_redis st'))"
      using v by (intro keys_inv_coherent [OF assms(3)]) simp
    then show ?thesis by (simp add: v(1))
  next
    case (step_Update ts i req err)
    then show ?thesis
      by (intro key_stores.update_inv [OF stores answer step_Update(3, 4) _ assms(3) step_Update(2)])
  next
    case (step_Create rand fresh name createdBy tier res)
    then show ?thesis
      by (intro key_stores.create_inv [OF stores step_Create(3-6) assms(3) step_Create(2)])
  next
    case (step_Delete t i err)
    then show ?thesis
      by (intro key_stores.delete_inv [OF stores answer step_Delete(3) assms(3) step_Delete(2)])
  next
    case (step_Last_used now i)
    then show ?thesis
      using key_stores.last_used_inv [OF stores step_Last_used(3) assms(3), of now] by simp
  qed
qed

interpretation key_service: invariant_system
  "\<lambda>st. keys_ready env s view ttl rows \<and> keys_init (rows (s_db st)) (view (s_redis st))"
  "key_step env s"
  "\<lambda>st. keys_ready env s view ttl rows \<and> keys_inv env (rows (s_db st)) (view (s_redis st))"
proof (unfold_locales, goal_cases)
  case (1 st)
  then show ?case by (simp add: keys_init_inv)
next
  case (2 st e st')
  then show ?case using key_step_inv [of env s view ttl rows st e st'] by simp
qed

section \<open>Results\<close>

lemma FindByHash_answers:
  "stores_answer s \<Longrightarrow> FindByHash (aks_repository s) h d = (res, d') \<Longrightarrow> \<exists>k. res = Inr k"
  by (auto simp: FindByHash_def not_found_nil_cases stores_answer_def split: sum.splits)

lemma Validate_answers:
  assumes "stores_answer s" "Validate env s ts key st = (res, st')"
  shows "\<exists>k. res = Inr k"
proof -
  obtain k d where "FindByHash (aks_repository s) (key_hash env key) (s_db st) = (Inr k, d)"
    using FindByHash_answers [OF assms(1)] by (metis surj_pair)
  with assms(2) show ?thesis
    by (auto simp: Validate_def Validate_lookup_def Let_def via_redis_def via_db_def
        split: prod.splits option.splits)
qed

text \<open>What a validation decides at the end of a history.\<close>

lemma history_validate:
  assumes "keys_ready env s view ttl rows" "keys_init (rows (s_db st0)) (view (s_redis st0))"
    and "run (key_step env s) st0 es st" "Validate env s ts key st = (res, st')"
  shows "res = Inr None \<and> \<not> (\<exists>k. active_key (rows (s_db st)) (key_hash env key) k) \<or>
         (\<exists>a k. res = Inr (Some a) \<and> active_key (rows (s_db st)) (key_hash env key) k \<and> same_key a k)"
proof -
  have inv: "keys_inv env (rows (s_db st)) (view (s_redis st))"
    using key_service.inv_reachable [of env s view ttl rows st0 es st] assms(1-3) by simp
  obtain k where "res = Inr k"
    using Validate_answers [OF _ assms(4)] assms(1) by (auto simp: keys_ready_def)
  with key_stores.validate_cases(3, 4) [OF keys_ready_stores [OF assms(1)] inv assms(4)]
  show ?thesis by (cases k) auto
qed

text \<open>C3: The cache is transparent.  After any sequence of creations, validations, updates,
  deletions and recorded uses, \<open>Validate\<close> rejects a key exactly when the table has no active
  row with its hash, and otherwise returns that row, up to the hash, which the cache does not
  keep, and the time of the last use.\<close>

theorem cache_is_transparent:
  assumes "keys_ready env s view ttl rows" "keys_init (rows (s_db st0)) (view (s_redis st0))"
    and "run (key_step env s) st0 es st" "Validate env s ts key st = (res, st')"
  shows "case res of
           Inl err \<Rightarrow> False
         | Inr None \<Rightarrow> \<not> (\<exists>k. active_key (rows (s_db st)) (key_hash env key) k)
         | Inr (Some a) \<Rightarrow> \<exists>k. active_key (rows (s_db st)) (key_hash env key) k \<and> same_key a k"
  using history_validate [OF assms] by auto

lemma Create_rows:
  assumes "gorm_conforms api_keys (aks_repository s) rows"
    and "APIKeyService_Create env s (Inr bytes) fresh name createdBy tier st = (Inr key, st')"
  obtains now j where "key = generated_key bytes" "s_redis st' = s_redis st"
    and "rows (s_db st') = rows (s_db st) @
      [api_keys_filled now j (APIKey_BeforeCreate fresh (new_key env key name createdBy tier))]"
proof -
  let ?a = "new_key env (generated_key bytes) name createdBy tier"
  obtain d where create: "g_Create (aks_repository s) (APIKey_BeforeCreate fresh) [?a] (s_db st) = (None, d)"
      and eq: "st' = st\<lparr>s_db := d\<rparr>" "key = generated_key bytes"
    using assms(2)
    by (auto simp: APIKeyService_Create_def Let_def via_db_def APIKeyRepository_Create_def
        split: prod.splits option.splits)
  obtain now ids where ids: "length ids = length [?a]"
      and "rows d = rows (s_db st) @ inserted api_keys now ids (APIKey_BeforeCreate fresh) [?a]"
    by (rule conforms_Create [OF assms(1) create]) (auto simp: executed_def)
  moreover obtain j where "ids = [j]" using ids by (cases ids) auto
  ultimately show ?thesis
    using that eq by (auto simp: inserted_def)
qed

lemma distinct_hashes:
  "distinct_keys api_keys rows \<Longrightarrow> a \<in> set rows \<Longrightarrow> b \<in> set rows \<Longrightarrow> KeyHash a = KeyHash b \<Longrightarrow> a = b"
  by (auto simp: distinct_keys_def api_keys_def distinct_map inj_on_def)

text \<open>C25: A key that \<open>Create\<close> returned is accepted by \<open>Validate\<close>, as the key that was
  requested: active, with its name, its creator and its tier.\<close>

theorem created_key_validates:
  assumes "keys_ready env s view ttl rows" "keys_init (rows (s_db st0)) (view (s_redis st0))"
    and "run (key_step env s) st0 es st"
    and "APIKeyService_Create env s (Inr bytes) fresh name createdBy tier st = (Inr key, st')"
    and "canonical_uuid fresh" "ascii name" "ascii createdBy" "ascii tier"
    and "Validate env s ts key st' = (res, st'')"
  shows "\<exists>a. res = Inr (Some a) \<and> ID a = fresh \<and> Name a = name \<and> CreatedBy a = createdBy \<and>
           Tier a = (if tier = '''' then ''basic'' else tier) \<and> IsActive a"
proof -
  have step: "key_step env s st (Created (Inr key)) st'"
    by (rule step_Create [OF assms(4-8)])
  have run: "run (key_step env s) st0 (es @ [Created (Inr key)]) st'"
    using assms(3) step by (rule run_snoc)
  have inv: "keys_inv env (rows (s_db st')) (view (s_redis st'))"
    using key_service.inv_reachable [of env s view ttl rows st0 _ st'] assms(1, 2) run by blast
  obtain now j where new: "rows (s_db st') = rows (s_db st) @
      [api_keys_filled now j (APIKey_BeforeCreate fresh (new_key env key name createdBy tier))]"
    (is "_ = _ @ [?new]")
    using assms(1, 4) by (auto simp: keys_ready_def elim: Create_rows)
  have act: "active_key (rows (s_db st')) (key_hash env key) ?new"
    by (simp add: active_key_def new api_keys_filled_def APIKey_BeforeCreate_def new_key_def)
  then obtain a k where a: "res = Inr (Some a)" "active_key (rows (s_db st')) (key_hash env key) k" "same_key a k"
    using history_validate [OF assms(1, 2) run assms(9)] by blast
  have "k = ?new"
    using act a(2) inv unfolding active_key_def keys_inv_def by (metis distinct_hashes)
  with a(1, 3) show ?thesis
    by (cases a) (simp add: same_key_def api_keys_filled_def APIKey_BeforeCreate_def new_key_def
        APIKey_zero_def)
qed

section \<open>Overlapping operations and failing stores\<close>

text \<open>A key is revoked from a time on: the table has no active row with its hash, and what the
  cache may still hold is empty or expires by then.\<close>

definition revoked :: "string \<Rightarrow> time \<Rightarrow> APIKey list \<Rightarrow> rdb \<Rightarrow> bool" where
  "revoked h x rows db \<longleftrightarrow>
     (\<forall>k. \<not> active_key rows h k) \<and>
     (\<forall>e. db (cache_key h) = Some e \<longrightarrow> rval e = RStr '''' \<or> (\<exists>x'. expires e = Some x' \<and> x' \<le> x))"

context key_stores
begin

lemma revoked_validate:
  assumes rev: "revoked h x (rows (s_db st)) (view (s_redis st))" and late: "\<forall>i. x \<le> ts i"
    and "Validate env s ts key st = (res, st')"
  shows "revoked h x (rows (s_db st')) (view (s_redis st'))"
    and "key_hash env key = h \<Longrightarrow> res \<noteq> Inr (Some a)"
proof -
  obtain out st1 where look: "Validate_lookup env s (ts 0) key st = (out, st1)"
    by (cases "Validate_lookup env s (ts 0) key st")
  note facts = lookup_cases [OF look]
  have rev1: "revoked h x (rows (s_db st1)) (view (s_redis st1))" using rev facts(1, 2) by simp
  have other: "h' \<noteq> h" if "out = Fetched h' k" for h' k
    using facts(3) [OF that] rev by (auto simp: revoked_def)
  have "revoked h x (rows (s_db st1)) (view (s_redis (Validate_store env s t h' k st1)))" if "h' \<noteq> h" for t h' k
    using store_view(1) [of t h' k st1] rev1 that by (auto simp: revoked_def)
  with other show "revoked h x (rows (s_db st')) (view (s_redis st'))"
    using assms(3) look rev1 by (auto simp: Validate_def store_view(2) split: lookup.splits)
  have "\<not> (\<exists>e txt. view (s_redis st) (cache_key h) = Some e \<and> alive (ts 0) e \<and> rval e = RStr txt \<and> txt \<noteq> '''')"
    using rev late unfolding revoked_def alive_def
    by (metis linorder_not_le option.simps(5) order_trans rvalue.inject(1))
  then show "key_hash env key = h \<Longrightarrow> res \<noteq> Inr (Some a)"
    using assms(3) look other facts(3, 5) by (auto simp: Validate_def split: lookup.splits)
qed

lemma revoked_run:
  assumes "run (key_step env s) st es st'" "revoked h x (rows (s_db st)) (view (s_redis st))"
    and "\<forall>e \<in> set es. \<exists>ts key res. e = Validated ts key res \<and> (\<forall>i. x \<le> ts i)"
  shows "revoked h x (rows (s_db st')) (view (s_redis st')) \<and>
         (\<forall>ts key a. Validated ts key (Inr (Some a)) \<in> set es \<longrightarrow> key_hash env key \<noteq> h)"
  using assms
proof (induction rule: run.induct)
  case (run_Nil st)
  then show ?case by simp
next
  case (run_snoc st es t e u)
  then have IH: "revoked h x (rows (s_db t)) (view (s_redis t))"
      "\<forall>ts key a. Validated ts key (Inr (Some a)) \<in> set es \<longrightarrow> key_hash env key \<noteq> h"
    by auto
  obtain ts key res where e: "e = Validated ts key res" "\<forall>i. x \<le> ts i" using run_snoc.prems(2) by auto
  have v: "Validate env s ts key t = (res, u)" using run_snoc.hyps(2) e(1) by (auto elim: ValidatedE)
  from revoked_validate [OF IH(1) e(2) v] IH(2) show ?case by (auto simp: e(1))
qed

end


abbreviation deactivate :: UpdateKeyRequest where
  "deactivate \<equiv> \<lparr>ukr_Tier = None, ukr_IsActive = Some False\<rparr>"

lemma deactivate_row: "IsActive (update_row i (key_updates deactivate) k) \<longleftrightarrow> ID k \<noteq> i \<and> IsActive k"
  by (simp add: update_row_def assigned_def api_keys_assign_def key_updates_def)

context key_stores
begin

lemma deactivated_rows:
  assumes "APIKeyService_Update s ts i (key_updates deactivate) st = (None, st')" "canonical_uuid i"
  shows "rows (s_db st') = map (update_row i (key_updates deactivate)) (rows (s_db st))"
proof -
  obtain d where upd: "g_Updates (aks_repository s) (Where [Equals ''id'' (SText i)] all_rows)
      (key_updates deactivate) (s_db (invalidateCache s (ts 1) i st)) = (None, d)" "s_db st' = d"
    using assms(1)
    by (auto simp: APIKeyService_Update_def Let_def key_updates_simps via_db_eq APIKeyRepository_Update_def)
  have "rows d = updated api_keys (Where [Equals ''id'' (SText i)] all_rows) (key_updates deactivate)
      (rows (s_db (invalidateCache s (ts 1) i st)))"
    using conforms_Updates [OF table upd(1)] key_updates_simps(1) [of deactivate] assms(2)
    by (simp add: executed_def)
  then show ?thesis
    by (simp add: upd(2) invalidate_rows assms(2) updated_def update_row_def [abs_def])
qed

text \<open>What a validation finds right after a successful write of the cache.\<close>

lemma fresh_entry_hit:
  assumes "stores_answer s" "\<forall>t k r. fst (c_Get (aks_redis s) t k r) = fst (db_get t k (view r))"
    and "plain_key k" "Marshal env (APIKey_json k) \<noteq> ''''"
    and "ts 0 < t + 5 * Minute"
    and "Validate env s ts key (Validate_store env s t (key_hash env key) k st) = (res, st')"
  shows "res = Inr (Some (k\<lparr>KeyHash := ''''\<rparr>))"
proof -
  let ?h = "key_hash env key" and ?txt = "Marshal env (APIKey_json k)"
  let ?e = "\<lparr>rval = RStr ?txt, expires = Some (ttl t (5 * Minute))\<rparr>"
  obtain r where set: "Redis_Set (aks_redis s) t (cache_key ?h) ?txt (5 * Minute) (s_redis st) = (Inr (), r)"
    using assms(1) unfolding stores_answer_def Redis_Set_def by (metis prod.collapse)
  have life: "lifetime (5 * Minute)" by (simp add: lifetime_def)
  have "view r = (view (s_redis st))(cache_key ?h \<mapsto> ?e)"
    using replied_Inr [OF conforms_Set [OF redis _ set]] life by (simp add: db_set_def)
  then have r: "view r (cache_key ?h) = Some ?e" by simp
  obtain cached r' where get: "Redis_Get (aks_redis s) (ts 0) (cache_key ?h) r = (cached, r')"
    by (cases "Redis_Get (aks_redis s) (ts 0) (cache_key ?h) r")
  have "t + 5 * Minute \<le> ttl t (5 * Minute)" by (rule conforms_ttl [OF redis life])
  then have "fst (db_get (ts 0) (cache_key ?h) (view r)) = Inr ?txt"
    using assms(5) r by (simp add: db_get_def live_def alive_def)
  then have "cached = Inr ?txt"
    using assms(2) get unfolding Redis_Get_def by (metis fst_conv)
  moreover have "Validate_store env s t ?h k st = st\<lparr>s_redis := r\<rparr>"
    using set by (simp add: Validate_store_def via_redis_def)
  ultimately show ?thesis
    using assms(4, 6) Unmarshal_Marshal [OF codec assms(3, 4)] get
    by (simp add: Validate_def Validate_lookup_def Let_def via_redis_def cache_hit_def)
qed

end

text \<open>C39: A validation that has read the table before a key is deactivated, and writes to the
  cache after it, undoes the invalidation: although the deactivation has succeeded and the
  table has no active row for the key, the key is accepted for the next five minutes.\<close>

theorem revocation_race:
  assumes ready: "keys_ready env s view ttl rows" "keys_inv env (rows (s_db st)) (view (s_redis st))"
    and get: "\<forall>t k r. fst (c_Get (aks_redis s) t k r) = fst (db_get t k (view r))"
    and look: "Validate_lookup env s t0 key st = (Fetched h k, st1)"
    and upd: "APIKeyService_Update s ts (ID k) (key_updates deactivate) st1 = (None, st2)"
    and marshals: "Marshal env (APIKey_json k) \<noteq> ''''"
    and late: "ts' 0 < t1 + 5 * Minute"
    and val: "Validate env s ts' key (Validate_store env s t1 h k st2) = (res, st3)"
  shows "\<not> (\<exists>k'. active_key (rows (s_db st2)) h k') \<and> res = Inr (Some (k\<lparr>KeyHash := ''''\<rparr>))"
proof -
  have stores: "key_stores env s view ttl rows" and answer: "stores_answer s"
    using ready(1) by (simp_all add: keys_ready_stores, simp add: keys_ready_def)
  note found = key_stores.lookup_cases(2, 3) [OF stores look]
  have h: "h = key_hash env key" and act: "active_key (rows (s_db st)) h k" using found(2) by auto
  have k: "plain_key k" "canonical_uuid (ID k)"
    using act ready(2) by (auto simp: keys_inv_def list_all_iff active_key_def plain_key_def)
  have rows2: "rows (s_db st2) = map (update_row (ID k) (key_updates deactivate)) (rows (s_db st))"
    using key_stores.deactivated_rows [OF stores upd k(2)] found(1) by simp
  have "x = k" if "x \<in> set (rows (s_db st))" "KeyHash x = h" for x
    using that act ready(2) unfolding active_key_def keys_inv_def by (metis distinct_hashes)
  then have "\<not> active_key (rows (s_db st2)) h k'" for k'
    by (auto simp: active_key_def rows2 deactivate_row)
  moreover have "res = Inr (Some (k\<lparr>KeyHash := ''''\<rparr>))"
    using key_stores.fresh_entry_hit [OF stores answer get k(1) marshals, where ts = ts' and t = t1]
      late val h by blast
  ultimately show ?thesis by blast
qed

text \<open>The middleware lets a request with a key through exactly when the table has an active
  row for the key, trimmed of white space: the handlers behind it then see that row in the
  context, and the recording of the use is scheduled; otherwise the request is answered with
  401 and aborted.  A request without a key is passed on unchanged.\<close>

theorem validator_admits_active_keys:
  assumes "keys_ready env s view ttl rows" "keys_init (rows (s_db st0)) (view (s_redis st0))"
    and "run (key_step env s) st0 es (get w)"
  shows "let header = Header_Get ''X-Api-Key'' (Request c);
             h = key_hash env (TrimSpace header);
             rs = rows (s_db (get w));
             st' = snd (Validate env s ts (TrimSpace header) (get w))
         in if header = '''' then APIKeyValidator env s ts get put nxt w c = nxt w c
            else if \<exists>k. active_key rs h k
            then \<exists>a k. active_key rs h k \<and> same_key a k \<and>
                   APIKeyValidator env s ts get put nxt w c =
                     nxt (put (st'\<lparr>s_pending := s_pending st' @ [ID a]\<rparr>) w)
                       (c\<lparr>Keys := (Keys c)(''api_key'' \<mapsto> VAPIKey a, ''api_key_id'' \<mapsto> VUUID (ID a),
                                      ''api_key_tier'' \<mapsto> VString (Tier a))\<rparr>)
            else APIKeyValidator env s ts get put nxt w c =
                   Returned (put st' w) (call Abort (call (JSON 401 (error_body ''Invalid API key'')) c))"
proof -
  let ?key = "TrimSpace (Header_Get ''X-Api-Key'' (Request c))"
  obtain res st' where val: "Validate env s ts ?key (get w) = (res, st')"
    by (cases "Validate env s ts ?key (get w)")
  from history_validate [OF assms val] show ?thesis
  proof (elim disjE conjE exE)
    assume "res = Inr None" "\<not> (\<exists>k. active_key (rows (s_db (get w))) (key_hash env ?key) k)"
    then show ?thesis using val by (auto simp: APIKeyValidator_def Let_def reject_def)
  next
    fix a k
    assume "res = Inr (Some a)" "active_key (rows (s_db (get w))) (key_hash env ?key) k" "same_key a k"
    then show ?thesis using val by (auto simp: APIKeyValidator_def Let_def ctx_Set_def)
  qed
qed

section \<open>Stores in memory\<close>


text \<open>A hash that is the identity, documents numbered by their text.\<close>

definition demo_key_env :: key_env where
  "demo_key_env =
     \<lparr>Sum256 = id, Marshal = (\<lambda>j. decimal (to_nat j)), Parse_json = (\<lambda>s. Inr (from_nat (number s))),
      uuid_Parse = Inr\<rparr>"

definition demo_service :: "(rdb, APIKey list) APIKeyService" where
  "demo_service = NewAPIKeyService (mem_gorm api_keys 0) mem_client"

definition demo_uuid :: uuid where
  "demo_uuid = ''01234567-89ab-cdef-0123-456789abcdef''"

definition demo_key :: APIKey where
  "demo_key = (new_key demo_key_env ''gw_a'' ''n'' ''me'' ''basic'')\<lparr>ID := demo_uuid\<rparr>"

definition demo_stores :: "APIKey list \<Rightarrow> (rdb, APIKey list) stores" where
  "demo_stores rows = \<lparr>s_redis = Map.empty, s_db = rows, s_pending = []\<rparr>"

lemma demo_uuid_canonical: "canonical_uuid demo_uuid"
  by code_simp

lemma demo_ready: "keys_ready demo_key_env demo_service id (\<lambda>t d. t + d) id"
proof -
  have "stores_answer demo_service"
    by (auto simp: stores_answer_def demo_service_def NewAPIKeyService_def mem_client_def db_set_def
        mem_gorm_def split: list.splits)
  moreover have "env_ok demo_key_env"
    by (simp add: env_ok_def demo_key_env_def)
  ultimately show ?thesis
    by (simp add: keys_ready_def mem_conforms mem_gorm_conforms demo_service_def NewAPIKeyService_def)
qed

interpretation memory_keys: key_stores demo_key_env demo_service id "\<lambda>t d. t + d" id
  by (rule keys_ready_stores [OF demo_ready])

lemma demo_init: "keys_init (id (s_db (demo_stores []))) (id (s_redis (demo_stores [])))"
  by (simp add: keys_init_def demo_stores_def distinct_keys_def api_keys_def)

lemma demo_key_simps:
  "ID demo_key = demo_uuid" "KeyHash demo_key = key_hash demo_key_env ''gw_a''" "IsActive demo_key"
  by (simp_all add: demo_key_def new_key_def)

lemma demo_init_key: "keys_init (id (s_db (demo_stores [demo_key]))) (id (s_redis (demo_stores [demo_key])))"
  by (simp add: keys_init_def demo_stores_def distinct_keys_def api_keys_def plain_key_def
      demo_uuid_canonical demo_key_simps) (simp add: demo_key_def new_key_def ascii_def)

definition demo_created :: APIKey where
  "demo_created = api_keys_filled 0 1 (APIKey_BeforeCreate demo_uuid
     (new_key demo_key_env ''gw_'' ''n'' ''me'' ''pro''))"

lemma demo_Create:
  "APIKeyService_Create demo_key_env demo_service (Inr []) demo_uuid ''n'' ''me'' ''pro'' (demo_stores []) =
     (Inr ''gw_'', demo_stores [demo_created])"
  by (simp add: APIKeyService_Create_def generated_key_def APIKeyRepository_Create_def via_db_def
      demo_service_def NewAPIKeyService_def mem_gorm_def inserted_def distinct_keys_def api_keys_def
      demo_stores_def Let_def demo_created_def)

theorem cache_is_transparent_witness:
  "\<exists>st. run (key_step demo_key_env demo_service) (demo_stores []) [Created (Inr ''gw_'')] st \<and>
     (case fst (Validate demo_key_env demo_service (\<lambda>i. 7) ''gw_'' st) of
        Inl err \<Rightarrow> False
      | Inr None \<Rightarrow> \<not> (\<exists>k. active_key (s_db st) (key_hash demo_key_env ''gw_'') k)
      | Inr (Some a) \<Rightarrow> \<exists>k. active_key (s_db st) (key_hash demo_key_env ''gw_'') k \<and> same_key a k)"
proof -
  let ?st = "demo_stores [demo_created]"
  have step: "run (key_step demo_key_env demo_service) (demo_stores []) [Created (Inr ''gw_'')] ?st"
    using step_Create [OF demo_Create demo_uuid_canonical] by (simp add: ascii_def)
  obtain res st' where v: "Validate demo_key_env demo_service (\<lambda>i. 7) ''gw_'' ?st = (res, st')"
    by (cases "Validate demo_key_env demo_service (\<lambda>i. 7) ''gw_'' ?st")
  from cache_is_transparent [OF demo_ready demo_init step v] step v show ?thesis
    by (intro exI [of _ ?st]) (simp only: fst_conv id_apply simp_thms)
qed

theorem created_key_validates_witness:
  "\<exists>a. fst (Validate demo_key_env demo_service (\<lambda>i. 7) ''gw_''
         (snd (APIKeyService_Create demo_key_env demo_service (Inr []) demo_uuid ''n'' ''me'' ''pro''
            (demo_stores [])))) = Inr (Some a) \<and> Tier a = ''pro'' \<and> IsActive a"
proof -
  obtain res st' where v: "Validate demo_key_env demo_service (\<lambda>i. 7) ''gw_'' (demo_stores [demo_created]) = (res, st')"
    by (cases "Validate demo_key_env demo_service (\<lambda>i. 7) ''gw_'' (demo_stores [demo_created])")
  from created_key_validates [OF demo_ready demo_init run_Nil demo_Create demo_uuid_canonical _ _ _ v]
  show ?thesis using v by (auto simp: ascii_def demo_Create)
qed

definition demo_key_ctx :: gin_ctx where
  "demo_key_ctx =
     \<lparr>Request = \<lparr>Method = ''GET'', URL_Path = ''/'', URL_Host = '''', URL_Scheme = '''', Host = ''h'',
        Header = [''X-Api-Key'' \<mapsto> ''k'']\<rparr>, Body = '''', ClientIP = '''', Query = Map.empty,
      Param = Map.empty, Keys = Map.empty, calls = []\<rparr>"

theorem validator_admits_active_keys_witness:
  "APIKeyValidator demo_key_env demo_service (\<lambda>i. 7) id (\<lambda>st w. st) Returned (demo_stores []) demo_key_ctx =
   Returned (snd (Validate demo_key_env demo_service (\<lambda>i. 7) (TrimSpace ''k'') (demo_stores [])))
     (call Abort (call (JSON 401 (error_body ''Invalid API key'')) demo_key_ctx))"
proof -
  have "Header_Get ''X-Api-Key'' (Request demo_key_ctx) = ''k''"
    by (simp add: Header_Get_def demo_key_ctx_def)
  moreover have none: "\<not> active_key (id (s_db (demo_stores []))) h k" for h k
    by (simp add: active_key_def demo_stores_def)
  ultimately show ?thesis
    using validator_admits_active_keys [where get = id and w = "demo_stores []" and c = demo_key_ctx and
        ts = "\<lambda>i. 7" and put = "\<lambda>st w. st" and nxt = Returned and es = "[]", OF demo_ready demo_init]
    by (auto simp: Let_def none split: if_splits)
qed

lemma demo_lookup:
  "Validate_lookup demo_key_env demo_service 0 ''gw_a'' (demo_stores [demo_key]) =
     (Fetched (key_hash demo_key_env ''gw_a'') demo_key, demo_stores [demo_key])"
  by (simp add: Validate_lookup_def via_redis_def via_db_def Redis_Get_def demo_service_def
      NewAPIKeyService_def mem_client_def db_get_def live_def demo_stores_def cache_hit_def FindByHash_def
      mem_gorm_def not_found_nil_def selected_def demo_key_simps Let_def)

theorem revocation_race_witness:
  "let st2 = snd (APIKeyService_Update demo_service (\<lambda>i. 1) demo_uuid (key_updates deactivate)
               (demo_stores [demo_key]))
   in \<not> (\<exists>k'. active_key (s_db st2) (key_hash demo_key_env ''gw_a'') k') \<and>
      fst (Validate demo_key_env demo_service (\<lambda>i. 3) ''gw_a''
             (Validate_store demo_key_env demo_service 2 (key_hash demo_key_env ''gw_a'') demo_key st2)) =
        Inr (Some (demo_key\<lparr>KeyHash := ''''\<rparr>))"
proof -
  obtain st2 where upd: "APIKeyService_Update demo_service (\<lambda>i. 1) (ID demo_key) (key_updates deactivate)
      (demo_stores [demo_key]) = (None, st2)"
    by (simp add: APIKeyService_Update_def Let_def via_db_def APIKeyRepository_Update_def demo_service_def
        NewAPIKeyService_def mem_gorm_def)
  let ?v = "Validate demo_key_env demo_service (\<lambda>i. 3) ''gw_a''
      (Validate_store demo_key_env demo_service 2 (key_hash demo_key_env ''gw_a'') demo_key st2)"
  have val: "?v = (fst ?v, snd ?v)" by simp
  have get: "\<forall>t k r. fst (c_Get (aks_redis demo_service) t k r) = fst (db_get t k (id r))"
    by (simp add: demo_service_def NewAPIKeyService_def mem_client_def)
  have marshals: "Marshal demo_key_env (APIKey_json demo_key) \<noteq> ''''"
    by (simp add: demo_key_env_def)
  from revocation_race [OF demo_ready keys_init_inv [OF demo_init_key] get demo_lookup upd marshals _ val]
  show ?thesis using upd by (simp add: demo_key_simps)
qed

text \<open>A cached entry that outlived its row, at the moment it expires.\<close>

definition demo_stale :: "(rdb, APIKey list) stores" where
  "demo_stale = (demo_stores [])\<lparr>s_redis :=
     [cache_key (key_hash demo_key_env ''gw_a'') \<mapsto>
        \<lparr>rval = RStr (Marshal demo_key_env (APIKey_json demo_key)), expires = Some 5\<rparr>]\<rparr>"


end
