(* ===== verification/GatewayLimits.thy ===== *)
theory GatewayLimits
  imports Gateway ApiKeyCache
begin

text \<open>
  The rate limit of the gateway as a whole.  A request reaches its handler through seven middleware
  which share the Redis server with the handlers of the administration: the cache of the API keys and
  the counters of the limiters live side by side.  Shown: in every run of the gateway, at most the
  limit of its tier of a client's requests in a window of a minute have an outcome that depends on a
  handler; all others are decided by the middleware.
\<close>

section \<open>The keys of the store\<close>

lemma rate_keys_disjoint [simp]:
  "fixed_key k w \<noteq> sliding_key k'" "fixed_key k w \<noteq> bucket_key k'" "fixed_key k w \<noteq> cache_key h"
  by (simp_all add: fixed_key_def sliding_key_def bucket_key_def cache_key_def)

lemma Redis_Set_frame:
  assumes "redis_conforms client view ttl" "d = 0 \<or> lifetime d" "K \<noteq> k"
  shows "view (snd (Redis_Set client t k v d r)) K = view r K"
  using replied_db [OF conforms_Set [OF assms(1,2) prod.collapse [symmetric]], of t k v r] assms(3)
  by (auto simp: db_set_def)

lemma Redis_Get_frame: "redis_conforms client view ttl \<Longrightarrow> view (snd (Redis_Get client t k r)) = view r"
  using replied_db [OF conforms_Get [OF _ prod.collapse [symmetric]], of client view ttl t k r] by auto

text \<open>The service of the API keys writes to Redis under the keys of its cache only.\<close>

lemma via_snd [simp]:
  "s_redis (snd (via_redis f st)) = snd (f (s_redis st))" "s_redis (snd (via_db g st)) = s_redis st"
  by (simp_all add: via_redis_def via_db_def split: prod.splits)

lemma via_db_redis: "via_db f st = (x, st') \<Longrightarrow> s_redis st' = s_redis st"
  by (auto simp: via_db_eq)

lemma invalidateCache_frame:
  assumes "redis_conforms (aks_redis s) view ttl" "\<And>h. K \<noteq> cache_key h"
  shows "view (s_redis (invalidateCache s t i st)) K = view (s_redis st) K"
  using assms
  by (auto simp: invalidateCache_def Redis_Set_frame split: prod.splits sum.splits option.splits dest!: via_db_redis)

lemma Validate_frame:
  assumes "redis_conforms (aks_redis s) view ttl" "\<And>h. K \<noteq> cache_key h"
  shows "view (s_redis (snd (Validate env s ts key st))) K = view (s_redis st) K"
proof -
  have get: "view (s_redis st1) = view (s_redis st)"
    if "via_redis (Redis_Get (aks_redis s) t k) st = (x, st1)" for t k x st1
    using that Redis_Get_frame [OF assms(1), of t k "s_redis st"] by (auto simp: via_redis_eq)
  have "view (s_redis (snd (Validate_lookup env s (ts 0) key st))) = view (s_redis st)"
    using get
    by (auto simp: Validate_lookup_def Let_def split: prod.splits option.splits sum.splits dest!: via_db_redis)
  moreover have "view (s_redis (Validate_store env s t h a st1)) K = view (s_redis st1) K" for t h a st1
    using assms by (simp add: Validate_store_def Redis_Set_frame lifetime_def)
  ultimately show ?thesis
    by (auto simp: Validate_def split: prod.splits lookup.splits)
qed

lemma Update_frame:
  assumes "redis_conforms (aks_redis s) view ttl" "\<And>h. K \<noteq> cache_key h"
  shows "view (s_redis (snd (APIKeyService_Update s ts i u st))) K = view (s_redis st) K"
  by (simp add: APIKeyService_Update_def Let_def invalidateCache_frame [OF assms])

lemma Delete_frame:
  assumes "redis_conforms (aks_redis s) view ttl" "\<And>h. K \<noteq> cache_key h"
  shows "view (s_redis (snd (APIKeyService_Delete s t i st))) K = view (s_redis st) K"
  by (simp add: APIKeyService_Delete_def invalidateCache_frame [OF assms])

text \<open>The handlers of all endpoints leave the counters of the limiters alone.\<close>

definition keeps_entry :: "('r \<Rightarrow> rdb) \<Rightarrow> string \<Rightarrow> ('r, 'd, 'g) world handler \<Rightarrow> bool" where
  "keeps_entry view K h \<longleftrightarrow> changes (\<lambda>w. view (get_redis w) K) (=) h"

lemma keeps_on_db: "keeps_entry view K (on_part get_db put_db h)"
  by (auto simp: keeps_entry_def changes_def on_part_def get_redis_def put_db_def split: result.splits)

lemma keeps_on_proxies: "keeps_entry view K (on_part w_proxies put_proxies h)"
  by (auto simp: keeps_entry_def changes_def on_part_def get_redis_def put_proxies_def split: result.splits)

lemma keeps_on_stores:
  assumes "\<And>st c. view (s_redis (result_world (h st c))) K = view (s_redis st) K"
  shows "keeps_entry view K (on_part w_stores put_stores h)"
  unfolding keeps_entry_def changes_def
proof (intro allI)
  fix w c
  show "view (get_redis w) K = view (get_redis (result_world (on_part w_stores put_stores h w c))) K"
    using assms [of "w_stores w" c]
    by (cases "h (w_stores w) c") (simp_all add: on_part_def get_redis_def put_stores_def)
qed

lemma keeps_RequireAuth: "keeps_entry view K h \<Longrightarrow> keeps_entry view K (RequireAuth lib s t h)"
  by (auto simp: keeps_entry_def changes_def RequireAuth_def reject_def Let_def split: sum.splits)

lemma key_handlers_keep_entry:
  assumes conf: "redis_conforms (aks_redis s) view ttl" and K: "\<And>h. K \<noteq> cache_key h"
  shows "view (s_redis (result_world (APIKeyHandler_Create fw env s rand u st c))) K = view (s_redis st) K"
    and "view (s_redis (result_world (APIKeyHandler_List fw s st c))) K = view (s_redis st) K"
    and "view (s_redis (result_world (APIKeyHandler_Get fw s st c))) K = view (s_redis st) K"
    and "view (s_redis (result_world (APIKeyHandler_Update fw s ts st c))) K = view (s_redis st) K"
    and "view (s_redis (result_world (APIKeyHandler_Delete fw s t st c))) K = view (s_redis st) K"
proof -
  show "view (s_redis (result_world (APIKeyHandler_Create fw env s rand u st c))) K = view (s_redis st) K"
    by (auto simp: APIKeyHandler_Create_def APIKeyService_Create_def respond_def Let_def
        split: sum.splits prod.splits option.splits dest!: via_db_redis)
  show "view (s_redis (result_world (APIKeyHandler_List fw s st c))) K = view (s_redis st) K"
    by (auto simp: APIKeyHandler_List_def APIKeyService_List_def respond_def
        split: prod.splits option.splits dest!: via_db_redis)
  show "view (s_redis (result_world (APIKeyHandler_Get fw s st c))) K = view (s_redis st) K"
    by (auto simp: APIKeyHandler_Get_def APIKeyService_Get_def respond_def
        split: sum.splits prod.splits option.splits dest!: via_db_redis)
  show "view (s_redis (result_world (APIKeyHandler_Update fw s ts st c))) K = view (s_redis st) K"
    using Update_frame [OF conf K, of ts "ctx_Param ''id'' c" _ st]
    by (auto simp: APIKeyHandler_Update_def respond_def split: sum.splits prod.splits option.splits) (metis snd_conv)+
  show "view (s_redis (result_world (APIKeyHandler_Delete fw s t st c))) K = view (s_redis st) K"
    using Delete_frame [OF conf K, of t "ctx_Param ''id'' c" st]
    by (auto simp: APIKeyHandler_Delete_def respond_def split: prod.splits option.splits)
qed

lemma server_handlers_keep_redis:
  assumes "redis_conforms (sv_redis s) view ttl"
  shows "view (s_redis (result_world (healthCheck fw s ts st c))) = view (s_redis st)"
    and "view (s_redis (result_world (adminStatus t s ts st c))) = view (s_redis st)"
proof -
  obtain p1 st1 where 1: "via_redis (Redis_Ping (sv_redis s) (ts 0)) st = (p1, st1)" by fastforce
  obtain p2 st2 where 2: "via_db (Postgres_Ping (sv_postgres s)) st1 = (p2, st2)" by fastforce
  have "view (s_redis st2) = view (s_redis st)"
    using 1 via_db_redis [OF 2] law_Ping [OF assms, of "ts 0" "s_redis st"] by (auto simp: via_redis_eq Redis_Ping_def)
  then show "view (s_redis (result_world (healthCheck fw s ts st c))) = view (s_redis st)"
    by (simp add: healthCheck_def 1 2 respond_def Let_def)
  show "view (s_redis (result_world (adminStatus t s ts st c))) = view (s_redis st)"
    by (auto simp: adminStatus_def APIKeyService_List_def respond_def split: prod.splits dest!: via_db_redis)
qed

lemma dispatch_keeps_entry:
  assumes conf: "redis_conforms (sv_redis s) view ttl" "aks_redis (sv_apiKeyService s) = sv_redis s"
    and K: "\<And>h. K \<noteq> cache_key h"
  shows "keeps_entry view K (dispatch pf s inp ep)"
proof -
  have "redis_conforms (aks_redis (sv_apiKeyService s)) view ttl" using conf by simp
  note handlers = key_handlers_keep_entry [OF this K] server_handlers_keep_redis [OF conf(1)]
  show ?thesis
    by (cases ep) (auto intro!: keeps_on_stores keeps_on_db keeps_on_proxies simp: handlers)
qed

section \<open>From the server to the limiter\<close>

text \<open>A request whose outcome depends on what the handlers do.\<close>

definition reaches :: "'g platform \<Rightarrow> ('r, 'd) Server \<Rightarrow> inputs \<Rightarrow> ('r, 'd, 'g) world \<Rightarrow> gin_ctx \<Rightarrow> bool" where
  "reaches pf s inp w c \<longleftrightarrow> (\<exists>D D'. handle_with D pf s inp w c \<noteq> handle_with D' pf s inp w c)"

abbreviation limiter_clock :: "inputs \<Rightarrow> nat \<Rightarrow> clock" where
  "limiter_clock inp \<equiv> \<lambda>i. in_clock inp (3 + i)"

text \<open>The inner two middleware, and what the outer five do to their result.\<close>

definition inner ::
    "'g platform \<Rightarrow> ('r, 'd) Server \<Rightarrow> inputs \<Rightarrow> ('r, 'd, 'g) world middleware" where
  "inner pf s inp h =
     APIKeyValidator (pf_keys pf) (sv_apiKeyService s) (in_clock inp 2) w_stores put_stores
       (RateLimitWithTier (sv_redis s) (pf_codec pf) (sv_config s) (limiter_clock inp) get_redis put_redis h)"

definition like_new :: "gin_ctx \<Rightarrow> gin_ctx \<Rightarrow> bool" where
  "like_new c c0 \<longleftrightarrow>
     Request c0 = Request c \<and> ClientIP c0 = ClientIP c \<and> Keys c0 ''api_key'' = Keys c ''api_key''"

definition same_input :: "gin_ctx \<Rightarrow> gin_ctx \<Rightarrow> bool" where
  "same_input c c0 \<longleftrightarrow> Body c0 = Body c \<and> Param c0 = Param c"

lemma chain_inner:
  fixes w :: "('r, 'd, 'g) world"
  obtains F c0 where "\<And>h. chain (setupMiddleware pf s inp) h w c = F (inner pf s inp h w c0)"
      "\<And>r. w_stores (result_world (F r)) = w_stores (result_world r)" "like_new c c0" "same_input c c0"
  | r where "\<And>h. chain (setupMiddleware pf s inp) h w c = r" "w_stores (result_world r) = w_stores w"
      "Method (Request c) = ''OPTIONS''"
proof -
  define c1 where "c1 = call (Header_call ''X-Request-ID'' (if Header_Get ''X-Request-Id'' (Request c) = ''''
    then in_request_id inp else Header_Get ''X-Request-Id'' (Request c))) (ctx_Set ''request_id''
      (VString (if Header_Get ''X-Request-Id'' (Request c) = '''' then in_request_id inp
        else Header_Get ''X-Request-Id'' (Request c))) c)"
  define c2 where "c2 = fold (\<lambda>(k, v). call (Header_call k v)) cors_headers c1"
  define F :: "('r, 'd, 'g) world result \<Rightarrow> ('r, 'd, 'g) world result" where
    "F r = Recovery (\<lambda>_ _. Logger (pf_fw pf) (in_clock inp 0)
       (RequestLogger (pf_fw pf) (in_clock inp 1) w_logger put_logger (\<lambda>_ _. r)) w c1) w c" for r
  have "RequestID (in_request_id inp) m w c = m w c1" for m :: "('r, 'd, 'g) world handler"
    by (simp add: RequestID_def c1_def Let_def)
  then have chain: "chain (setupMiddleware pf s inp) h w c = F (CORS (inner pf s inp h) w c1)" for h
    by (simp add: chain_def setupMiddleware_def F_def inner_def Recovery_def Logger_def RequestLogger_def)
  have F: "w_stores (result_world (F r)) = w_stores (result_world r)" for r
    by (cases r) (simp_all add: F_def Recovery_def Logger_def RequestLogger_def reject_def put_logger_def
        Let_def split: prod.splits)
  have like: "like_new c c2" "same_input c c2"
    by (simp_all add: like_new_def same_input_def c2_def c1_def cors_headers_def)
  show thesis
  proof (cases "Method (Request c2) = ''OPTIONS''")
    case True
    then show thesis
      using that(2) [of "F (Returned w (call (AbortWithStatus 204) c2))"] chain F like
      by (simp add: CORS_def c2_def Let_def like_new_def)
  next
    case False
    then show thesis
      using that(1) [of F c2] chain F like by (simp add: CORS_def c2_def Let_def)
  qed
qed

text \<open>The parameters with which the limiter is called, which depend on the key that is presented.\<close>

definition limiter_parameters ::
    "'g platform \<Rightarrow> ('r, 'd) Server \<Rightarrow> inputs \<Rightarrow> ('r, 'd, 'g) world \<Rightarrow> gin_ctx \<Rightarrow> rate_parameters" where
  "limiter_parameters pf s inp w c =
     (let header = Header_Get ''X-Api-Key'' (Request c)
      in if header = '''' then anonymous_parameters (sv_config s) c
         else case fst (Validate (pf_keys pf) (sv_apiKeyService s) (in_clock inp 2) (TrimSpace header) (w_stores w)) of
                Inr (Some apiKey) \<Rightarrow> key_parameters (sv_config s) apiKey
              | _ \<Rightarrow> anonymous_parameters (sv_config s) c)"

text \<open>The limiter with these parameters decides; nobody else writes to its counters.\<close>

lemma RateLimitWithTier_cases:
  fixes w :: "('r, 'd, 'g) world"
  assumes "redis_conforms redis view ttl" "rate_parameters_of cfg c = Inr p"
  obtains l ok err r where "NewLimiter (rp_algorithm p) (rp_limit p) Minute = Inr l"
    "Limiter_Allow redis codec l (ts 0) (rp_key p) (get_redis w) = (Inr (ok, err), r)"
    "ok \<and> err = None \<and>
     (\<exists>r' n t. view r' = view r \<and>
        (\<forall>h. RateLimitWithTier redis codec cfg ts get_redis put_redis h w c =
           h (put_redis r' w) (rate_headers p l n t c))) \<or>
     \<not> (ok \<and> err = None) \<and>
     (\<exists>r' c'. view r' = view r \<and>
        (\<forall>h. RateLimitWithTier redis codec cfg ts get_redis put_redis h w c = Returned (put_redis r' w) c'))"
proof -
  obtain l where l: "NewLimiter (rp_algorithm p) (rp_limit p) Minute = Inr l"
    using NewLimiter_minute_total by blast
  obtain ok err r where allow: "Limiter_Allow redis codec l (ts 0) (rp_key p) (get_redis w) = (Inr (ok, err), r)"
    using minute_limiter_total(1) [OF l, of redis codec "ts 0" "rp_key p" "get_redis w"] by blast
  obtain n e r1 where rem: "Limiter_Remaining redis codec l (ts 1) (rp_key p) r = (Inr (n, e), r1)"
    using minute_limiter_total(2) [OF l, of redis codec "ts 1" "rp_key p" r] by blast
  obtain t e' r2 where res: "Limiter_Reset redis codec l (ts 2) (rp_key p) r1 = (Inr (t, e'), r2)"
    using minute_limiter_total(3) [OF l, of redis codec "ts 2" "rp_key p" r1] by blast
  have view: "view r2 = view r"
    using Limiter_reads(1) [OF assms(1) rem] Limiter_reads(2) [OF assms(1) res] by simp

  note eqs = RateLimitWithTier_def assms(2) l allow rem [simplified] res [simplified] Let_def
  show thesis
  proof (cases "ok \<and> err = None")
    case True
    then have "RateLimitWithTier redis codec cfg ts get_redis put_redis h w c = h (put_redis r2 w) (rate_headers p l n t c)" for h
      by (simp add: eqs)
    then show thesis using that [OF l allow] view True by blast
  next
    case False
    then have "\<exists>r' c'. r' \<in> {r, r2} \<and>
        (\<forall>h. RateLimitWithTier redis codec cfg ts get_redis put_redis h w c = Returned (put_redis r' w) c')"
      by (cases err) (auto simp: eqs reject_def too_many_requests_def)
    then show thesis using that [OF l allow] view False by (metis insert_iff singletonD)
  qed
qed

text \<open>The world in which the limiter is asked, if the key is accepted.\<close>

definition key_checked ::
    "'g platform \<Rightarrow> ('r, 'd) Server \<Rightarrow> inputs \<Rightarrow> ('r, 'd, 'g) world \<Rightarrow> gin_ctx \<Rightarrow> ('r, 'd, 'g) world option" where
  "key_checked pf s inp w c =
     (let header = Header_Get ''X-Api-Key'' (Request c)
      in if header = '''' then Some w
         else case Validate (pf_keys pf) (sv_apiKeyService s) (in_clock inp 2) (TrimSpace header) (w_stores w) of
                (Inr (Some a), st) \<Rightarrow> Some (put_stores (st\<lparr>s_pending := s_pending st @ [ID a]\<rparr>) w)
              | _ \<Rightarrow> None)"

lemma inner_decides:
  fixes w :: "('r, 'd, 'g) world"
  assumes new: "like_new c c0" "Keys c ''api_key'' = None"
  obtains (refused) res where "key_checked pf s inp w c = None" "\<And>h. inner pf s inp h w c0 = res"
      "w_stores (result_world res) = snd (Validate (pf_keys pf) (sv_apiKeyService s) (in_clock inp 2)
         (TrimSpace (Header_Get ''X-Api-Key'' (Request c))) (w_stores w))"
  | (accepted) w1 c1 where "key_checked pf s inp w c = Some w1" "\<And>h. inner pf s inp h w c0 =
        RateLimitWithTier (sv_redis s) (pf_codec pf) (sv_config s) (limiter_clock inp) get_redis put_redis h w1 c1"
      "rate_parameters_of (sv_config s) c1 = Inr (limiter_parameters pf s inp w c)"
proof -
  let ?header = "Header_Get ''X-Api-Key'' (Request c)"
  have anon: "anonymous_parameters (sv_config s) c0 = anonymous_parameters (sv_config s) c"
    using new(1) by (simp add: like_new_def anonymous_parameters_def split: list.splits)
  have c0: "Request c0 = Request c" "Keys c0 ''api_key'' = None" using new by (simp_all add: like_new_def)
  obtain res st where val: "Validate (pf_keys pf) (sv_apiKeyService s) (in_clock inp 2) (TrimSpace ?header) (w_stores w) = (res, st)"
    by fastforce
  consider "?header = ''''" | a where "?header \<noteq> ''''" "res = Inr (Some a)" | "?header \<noteq> ''''" "\<forall>a. res \<noteq> Inr (Some a)"
    by blast
  then show thesis
  proof cases
    case 1
    then show thesis
      using accepted [of w c0] anon
      by (simp add: inner_def APIKeyValidator_def c0 limiter_parameters_def rate_parameters_of_def key_checked_def)
  next
    case (2 a)
    show thesis
      by (rule accepted [of "put_stores (st\<lparr>s_pending := s_pending st @ [ID a]\<rparr>) w"
            "ctx_Set ''api_key_tier'' (VString (Tier a)) (ctx_Set ''api_key_id'' (VUUID (ID a))
               (ctx_Set ''api_key'' (VAPIKey a) c0))"])
        (simp_all add: inner_def APIKeyValidator_def c0 2 val Let_def limiter_parameters_def
          rate_parameters_of_def key_checked_def)
  next
    case 3
    show thesis
      by (rule refused [of "reject 401 (error_body ''Invalid API key'') (put_stores st w) c0"])
        (use 3 in \<open>auto simp: inner_def APIKeyValidator_def c0 val reject_def put_stores_def key_checked_def
           split: sum.splits option.splits\<close>)
  qed
qed

lemma key_checked_frame:
  assumes "redis_conforms (sv_redis s) view ttl" "aks_redis (sv_apiKeyService s) = sv_redis s"
  shows "view (s_redis (snd (Validate (pf_keys pf) (sv_apiKeyService s) ts key (w_stores w)))) (fixed_key k W) =
      view (get_redis w) (fixed_key k W)"
    and "key_checked pf s inp w c = Some w1 \<Longrightarrow> view (get_redis w1) (fixed_key k W) = view (get_redis w) (fixed_key k W)"
proof -
  show frame: "view (s_redis (snd (Validate (pf_keys pf) (sv_apiKeyService s) ts key (w_stores w)))) (fixed_key k W) =
      view (get_redis w) (fixed_key k W)" for ts key
    using Validate_frame [of "sv_apiKeyService s" view ttl "fixed_key k W" "pf_keys pf" ts key "w_stores w"] assms
    by (simp add: get_redis_def)
  assume "key_checked pf s inp w c = Some w1"
  then show "view (get_redis w1) (fixed_key k W) = view (get_redis w) (fixed_key k W)"
    using frame [of "in_clock inp 2" "TrimSpace (Header_Get ''X-Api-Key'' (Request c))"]
    by (auto simp: key_checked_def get_redis_def put_stores_def Let_def
        split: if_splits prod.splits sum.splits option.splits)
qed

text \<open>The answer of the limiter to the request, asked after the key.\<close>

definition limiter_allows ::
    "'g platform \<Rightarrow> ('r, 'd) Server \<Rightarrow> inputs \<Rightarrow> ('r, 'd, 'g) world \<Rightarrow> gin_ctx \<Rightarrow> bool" where
  "limiter_allows pf s inp w c =
     (let p = limiter_parameters pf s inp w c; header = Header_Get ''X-Api-Key'' (Request c);
          r = (if header = '''' then get_redis w
               else s_redis (snd (Validate (pf_keys pf) (sv_apiKeyService s) (in_clock inp 2) (TrimSpace header) (w_stores w))))
      in case NewLimiter (rp_algorithm p) (rp_limit p) Minute of
           Inl err \<Rightarrow> False
         | Inr l \<Rightarrow> fst (Limiter_Allow (sv_redis s) (pf_codec pf) l (limiter_clock inp 0) (rp_key p) r) = Inr (True, None))"

lemma limiter_allows_checked:
  assumes "key_checked pf s inp w c = Some w1" "p = limiter_parameters pf s inp w c"
    "NewLimiter (rp_algorithm p) (rp_limit p) Minute = Inr l"
  shows "limiter_allows pf s inp w c \<longleftrightarrow>
    fst (Limiter_Allow (sv_redis s) (pf_codec pf) l (limiter_clock inp 0) (rp_key p) (get_redis w1)) = Inr (True, None)"
  using assms
  by (auto simp: limiter_allows_def key_checked_def get_redis_def put_stores_def Let_def
      split: if_splits prod.splits sum.splits option.splits)

lemma inner_cases:
  fixes w :: "('r, 'd, 'g) world"
  assumes conf: "redis_conforms (sv_redis s) view ttl" "aks_redis (sv_apiKeyService s) = sv_redis s"
    and new: "like_new c c0" "Keys c ''api_key'' = None"
  obtains res where "\<And>h. inner pf s inp h w c0 = res"
      "\<And>k W. view (get_redis (result_world res)) (fixed_key k W) = view (get_redis w) (fixed_key k W)"
  | w1 c1 where "\<And>h. inner pf s inp h w c0 =
        RateLimitWithTier (sv_redis s) (pf_codec pf) (sv_config s) (limiter_clock inp) get_redis put_redis h w1 c1"
      "rate_parameters_of (sv_config s) c1 = Inr (limiter_parameters pf s inp w c)"
      "\<And>k W. view (get_redis w1) (fixed_key k W) = view (get_redis w) (fixed_key k W)"
proof (rule inner_decides [OF new, of pf s inp w])
  fix res
  assume res: "\<And>h. inner pf s inp h w c0 = res"
    "w_stores (result_world res) = snd (Validate (pf_keys pf) (sv_apiKeyService s) (in_clock inp 2)
         (TrimSpace (Header_Get ''X-Api-Key'' (Request c))) (w_stores w))"
  show thesis
    using key_checked_frame(1) [OF conf, of pf _ _ w]
    by (intro that(1) [OF res(1)]) (simp add: get_redis_def res(2))
next
  fix w1 c1
  assume "key_checked pf s inp w c = Some w1" "\<And>h. inner pf s inp h w c0 =
        RateLimitWithTier (sv_redis s) (pf_codec pf) (sv_config s) (limiter_clock inp) get_redis put_redis h w1 c1"
      "rate_parameters_of (sv_config s) c1 = Inr (limiter_parameters pf s inp w c)"
  then show thesis using that(2) [of w1 c1] key_checked_frame(2) [OF conf] by blast
qed

section \<open>Admission\<close>

text \<open>A handler that leaves a mark in the world tells whether the middleware let the request through.\<close>

lemma reaches_inner:
  fixes w :: "('r, 'd, 'g) world"
  assumes route: "matched_route pf s c = Some (rt, params)" "\<not> rt_auth rt"
    and meth: "Method (Request c) \<noteq> ''OPTIONS''"
  obtains c0 where "like_new c c0"
    "(\<And>h h' :: ('r, 'd, 'g) world handler. inner pf s inp h w c0 = inner pf s inp h' w c0) \<Longrightarrow> \<not> reaches pf s inp w c"
    "\<And>w1 c1. (\<And>h. inner pf s inp h w c0 = h w1 c1) \<Longrightarrow> reaches pf s inp w c"
proof (rule chain_inner [of pf s inp w "c\<lparr>Param := params\<rparr>"])
  fix F c0
  assume F: "\<And>h. chain (setupMiddleware pf s inp) h w (c\<lparr>Param := params\<rparr>) = F (inner pf s inp h w c0)"
      "\<And>r. w_stores (result_world (F r)) = w_stores (result_world r)" "like_new (c\<lparr>Param := params\<rparr>) c0"
  have handle: "handle_with D pf s inp w c = F (inner pf s inp (D (rt_endpoint rt)) w c0)" for D
    using route by (simp add: handle_with_def route_handlers_def F(1))
  define D :: "string list \<Rightarrow> endpoint \<Rightarrow> ('r, 'd, 'g) world handler" where
    "D p = (\<lambda>ep w. Returned (put_stores ((w_stores w)\<lparr>s_pending := p\<rparr>) w))" for p
  show thesis
  proof (rule that [of c0])
    show "like_new c c0" using F(3) by (simp add: like_new_def)
    assume "\<And>h h' :: ('r, 'd, 'g) world handler. inner pf s inp h w c0 = inner pf s inp h' w c0"
    then show "\<not> reaches pf s inp w c" unfolding reaches_def handle by metis
  next
    fix w1 c1 assume "\<And>h. inner pf s inp h w c0 = h w1 c1"
    then have "s_pending (w_stores (result_world (handle_with (D p) pf s inp w c))) = p" for p
      by (simp add: handle F(2)) (simp add: D_def put_stores_def)
    then have "handle_with (D []) pf s inp w c \<noteq> handle_with (D [[]]) pf s inp w c"
      by (metis list.distinct(1))
    then show "reaches pf s inp w c" unfolding reaches_def by blast
  qed
next
  assume "Method (Request (c\<lparr>Param := params\<rparr>)) = ''OPTIONS''"
  then show thesis using meth by simp
qed

lemma admission:
  fixes w :: "('r, 'd, 'g) world"
  assumes conf: "redis_conforms (sv_redis s) view ttl"
    and route: "matched_route pf s c = Some (rt, params)" "\<not> rt_auth rt"
    and fresh: "Method (Request c) \<noteq> ''OPTIONS''" "Keys c ''api_key'' = None"
  shows "reaches pf s inp w c \<longleftrightarrow> key_checked pf s inp w c \<noteq> None \<and> limiter_allows pf s inp w c"
proof -
  obtain c0 where new: "like_new c c0"
    and no: "(\<And>h h' :: ('r, 'd, 'g) world handler. inner pf s inp h w c0 = inner pf s inp h' w c0) \<Longrightarrow> \<not> reaches pf s inp w c"
    and yes: "\<And>w1 c1. (\<And>h. inner pf s inp h w c0 = h w1 c1) \<Longrightarrow> reaches pf s inp w c"
    using reaches_inner [OF route fresh(1), of inp w] by metis
  show ?thesis
  proof (cases rule: inner_decides [OF new fresh(2), of pf s inp w])
    case (1 res)
    then show ?thesis using no by simp
  next
    case (2 w1 c1)
    let ?limit = "RateLimitWithTier (sv_redis s) (pf_codec pf) (sv_config s) (limiter_clock inp) get_redis put_redis"
    show ?thesis
    proof (rule RateLimitWithTier_cases [OF conf 2(3), of "pf_codec pf" "limiter_clock inp" w1])
      fix l ok err r
      let ?p = "limiter_parameters pf s inp w c"
      assume l: "NewLimiter (rp_algorithm ?p) (rp_limit ?p) Minute = Inr l"
        and allow: "Limiter_Allow (sv_redis s) (pf_codec pf) l (limiter_clock inp 0) (rp_key ?p) (get_redis w1) = (Inr (ok, err), r)"
        and cases: "ok \<and> err = None \<and> (\<exists>r' n t. view r' = view r \<and>
             (\<forall>h. ?limit h w1 c1 = h (put_redis r' w1) (rate_headers ?p l n t c1))) \<or>
           \<not> (ok \<and> err = None) \<and> (\<exists>r' c'. view r' = view r \<and> (\<forall>h. ?limit h w1 c1 = Returned (put_redis r' w1) c'))"
      have "reaches pf s inp w c \<longleftrightarrow> ok \<and> err = None"
        using cases 2(2) no yes by (metis (no_types, lifting))
      then show ?thesis using 2(1) limiter_allows_checked [OF 2(1) refl l] allow by auto
    qed
  qed
qed

section \<open>Counting\<close>

text \<open>The counter of a client in a window stands for at least \<open>n\<close> requests and outlives the window.\<close>

definition counted :: "int \<Rightarrow> nat \<Rightarrow> rentry option \<Rightarrow> bool" where
  "counted W n ent \<longleftrightarrow> fw_entry ((W + 1) * (60 * Second)) n 0 False ent"

text \<open>The clock of the server and that of the gateway agree on the window of a request.\<close>

definition on_time :: "(nat \<Rightarrow> clock) \<Rightarrow> bool" where
  "on_time ts \<longleftrightarrow>
     0 \<le> ts 0 0 \<and> int64 (time_Unix (ts 0 0)) \<and> time_Unix (ts 0 1) div 60 = window_of ts \<and> ts 0 1 \<le> ts 0 2"

lemma counted_incr:
  assumes "counted W n (db K)" "t < (W + 1) * (60 * Second)" "replied db (db_incr t K db) res db'"
  shows "counted W n (db' K) \<and> (\<forall>m. res = Inr m \<longrightarrow> counted W (Suc n) (db' K) \<and> int n < m)"
proof (cases "db K")
  case None
  then have "db_incr t K db = (Inr 1, db(K \<mapsto> \<lparr>rval = RStr (Itoa 1), expires = None\<rparr>))"
    by (simp add: db_incr_def live_def)
  with assms None show ?thesis
    by (auto simp: replied_def counted_def fw_entry_def int64_def)
next
  case (Some e)
  then have "live t db K = Some e" using assms by (auto simp: live_def counted_def intro: alive_entry)
  moreover obtain m where m: "rval e = RStr (Itoa m)" "int64 m" "1 \<le> m" "int n \<le> m"
      "\<forall>y. expires e = Some y \<longrightarrow> (W + 1) * (60 * Second) \<le> y"
    using assms(1) Some by (auto simp: counted_def fw_entry_def)
  ultimately have spec: "db_incr t K db =
      (if m < max_int64 then (Inr (m + 1), db(K \<mapsto> e\<lparr>rval := RStr (Itoa (m + 1))\<rparr>))
       else (Inl (Sentinel ''ERR''), db))"
    by (simp add: db_incr_def)
  have "counted W n (Some (e\<lparr>rval := RStr (Itoa (m + 1))\<rparr>)) \<and> counted W (Suc n) (Some (e\<lparr>rval := RStr (Itoa (m + 1))\<rparr>))"
    if "m < max_int64"
    using m that by (auto simp: counted_def fw_entry_def int64_def)
  then show ?thesis
    using assms(1,3) Some m(4) by (auto simp: replied_def spec split: if_splits)
qed

lemma counted_expire:
  assumes "counted W n (db K')" "K' = K \<longrightarrow> (W + 1) * (60 * Second) \<le> ttl t d"
    and "replied db (db_expire ttl t K d db) res db'"
  shows "counted W n (db' K')"
  using fw_entry_expire assms unfolding counted_def by blast

definition fixed_algorithm :: "string \<Rightarrow> bool" where
  "fixed_algorithm a \<longleftrightarrow> a \<noteq> ''sliding_window'' \<and> a \<noteq> ''token_bucket''"

lemma Allow_counted:
  assumes conf: "redis_conforms client view ttl" and time: "on_time ts"
    and new: "NewLimiter algorithm limit Minute = Inr l"
    and allow: "Limiter_Allow client codec l (ts 0) key r = (Inr (ok, err), r')"
    and n: "counted W n (view r (fixed_key k W))"
  shows "counted W n (view r' (fixed_key k W)) \<and>
    (fixed_algorithm algorithm \<and> key = k \<and> window_of ts = W \<and> limit \<le> L \<and> ok \<and> err = None \<longrightarrow>
       Suc n \<le> nat L \<and> counted W (Suc n) (view r' (fixed_key k W)))"
proof (cases "fixed_algorithm algorithm")
  case False
  then have "fixed_key k W \<notin> limiter_keys l key"
    using new by (auto simp: fixed_algorithm_def NewLimiter_def Let_def split: if_splits)
  moreover have "redis_limiter client view ttl l" using conf NewLimiter_ok [OF new] by (rule redis_limiter.intro)
  ultimately have "view r' (fixed_key k W) = view r (fixed_key k W)"
    using allow by (blast intro: redis_limiter.allow_frame)
  with False n show ?thesis by simp
next
  case True
  then have l: "l = Fixed (NewFixedWindow limit Minute)"
    using new by (auto simp: fixed_algorithm_def NewLimiter_def)
  let ?f = "NewFixedWindow limit Minute" and ?w = "window_of ts"
  have window: "currentWindow ?f (ts 0 0) = Inr ?w"
    using time currentWindow_of [of "ts 0 0" limit] by (simp add: on_time_def window_of_def)
  obtain res r1 where incr: "Redis_Incr client (ts 0 1) (fixed_key key ?w) r = (res, r1)" by fastforce
  obtain res2 r2 where expire: "Redis_Expire client (ts 0 2) (fixed_key key ?w) Minute r1 = (res2, r2)" by fastforce
  have at: "?w * (60 * Second) \<le> ts 0 1" "ts 0 1 < (?w + 1) * (60 * Second)"
    using time time_Unix_div [of 60 "ts 0 1" ?w] by (simp_all add: on_time_def)
  have life: "lifetime Minute" by (simp add: lifetime_def)
  have later: "(?w + 1) * (60 * Second) \<le> ttl (ts 0 2) Minute"
    using conforms_ttl [OF conf life, of "ts 0 2"] at(1) time by (simp add: on_time_def distrib_right)
  have r1: "counted W n (view r1 (fixed_key k W)) \<and>
      (key = k \<and> ?w = W \<longrightarrow> (\<forall>m. res = Inr m \<longrightarrow> counted W (Suc n) (view r1 (fixed_key k W)) \<and> int n < m))"
  proof (cases "key = k \<and> ?w = W")
    case True
    then show ?thesis
      using counted_incr [where db = "view r", OF n, of "ts 0 1" res "view r1"] conforms_Incr [OF conf incr] at(2) by simp
  next
    case False
    then have "view r1 (fixed_key k W) = view r (fixed_key k W)"
      by (intro replied_frame [OF conforms_Incr [OF conf incr] db_frames(3)]) auto
    with False n show ?thesis by auto
  qed
  have r2: "counted W m (view r2 (fixed_key k W))" if "counted W m (view r1 (fixed_key k W))" for m
    by (rule counted_expire [where db = "view r1", OF that _ conforms_Expire [OF conf life expire]]) (use later in auto)
  have "r' \<in> {r1, r2}" "ok \<and> err = None \<longrightarrow> (\<exists>m. res = Inr m \<and> m \<le> limit)"
    using allow window incr expire
    by (auto simp: l FixedWindow_Allow_def fw_incr_def fw_expire_def NewFixedWindow_def split: sum.splits if_splits)
  with r1 r2 show ?thesis by auto
qed

text \<open>One request.\<close>

lemma handle_with_chain:
  obtains route c' where "\<And>D. handle_with D pf s inp w c = chain (setupMiddleware pf s inp) (route D) w c'"
    "\<And>D. route D = Returned \<or> (\<exists>rt. route D = route_handlers pf s inp D rt)" "like_new c c'"
proof (cases "matched_route pf s c")
  case None
  then show thesis by (intro that [of "\<lambda>D. Returned" c]) (simp_all add: handle_with_def like_new_def)
next
  case (Some m)
  then show thesis
    by (intro that [of "\<lambda>D. route_handlers pf s inp D (fst m)" "c\<lparr>Param := snd m\<rparr>"])
      (auto simp: handle_with_def like_new_def case_prod_beta)
qed


definition limited_to :: "string \<Rightarrow> int \<Rightarrow> rate_parameters \<Rightarrow> bool" where
  "limited_to k L p \<longleftrightarrow> rp_key p = k \<and> fixed_algorithm (rp_algorithm p) \<and> rp_limit p \<le> L"

lemma inner_counted:
  fixes w :: "('r, 'd, 'g) world"
  assumes conf: "redis_conforms (sv_redis s) view ttl" and same: "aks_redis (sv_apiKeyService s) = sv_redis s"
    and time: "on_time (limiter_clock inp)" and fresh: "Keys c ''api_key'' = None" and like: "like_new c c0"
    and n: "counted W n (view (get_redis w) (fixed_key k W))" and keeps: "keeps_entry view (fixed_key k W) h"
  shows "counted W n (view (get_redis (result_world (inner pf s inp h w c0))) (fixed_key k W)) \<and>
    ((\<exists>g g'. inner pf s inp g w c0 \<noteq> inner pf s inp g' w c0) \<and>
     limited_to k L (limiter_parameters pf s inp w c) \<and> window_of (limiter_clock inp) = W \<longrightarrow>
       Suc n \<le> nat L \<and> counted W (Suc n) (view (get_redis (result_world (inner pf s inp h w c0))) (fixed_key k W)))"
proof (rule inner_cases [OF conf same like fresh, of pf inp w])
  fix res assume "\<And>h. inner pf s inp h w c0 = res"
    "\<And>k W. view (get_redis (result_world res)) (fixed_key k W) = view (get_redis w) (fixed_key k W)"
  then show ?thesis using n by simp
next
  let ?p = "limiter_parameters pf s inp w c" and ?K = "fixed_key k W"
  let ?limit = "RateLimitWithTier (sv_redis s) (pf_codec pf) (sv_config s) (limiter_clock inp) get_redis put_redis"
  fix w1 c1 assume limit: "\<And>h. inner pf s inp h w c0 = ?limit h w1 c1"
    "rate_parameters_of (sv_config s) c1 = Inr ?p"
    "\<And>k W. view (get_redis w1) (fixed_key k W) = view (get_redis w) (fixed_key k W)"
  obtain l ok err r where l: "NewLimiter (rp_algorithm ?p) (rp_limit ?p) Minute = Inr l"
      "Limiter_Allow (sv_redis s) (pf_codec pf) l (limiter_clock inp 0) (rp_key ?p) (get_redis w1) = (Inr (ok, err), r)"
      "ok \<and> err = None \<and> (\<exists>r' n t. view r' = view r \<and> (\<forall>h. ?limit h w1 c1 = h (put_redis r' w1) (rate_headers ?p l n t c1))) \<or>
       \<not> (ok \<and> err = None) \<and> (\<exists>r' c'. view r' = view r \<and> (\<forall>h. ?limit h w1 c1 = Returned (put_redis r' w1) c'))"
    by (rule RateLimitWithTier_cases [OF conf limit(2), of "pf_codec pf" "limiter_clock inp" w1])
  note step = Allow_counted [OF conf time l(1,2), of W n k L] n
  from l(3) show ?thesis
  proof (elim disjE conjE exE)
    fix r' n t assume ok: ok "err = None" and r': "view r' = view r"
      "\<forall>h. ?limit h w1 c1 = h (put_redis r' w1) (rate_headers ?p l n t c1)"
    have "view (get_redis (result_world (inner pf s inp h w c0))) ?K = view (get_redis (put_redis r' w1)) ?K"
      using keeps limit(1) r'(2) by (simp add: keeps_entry_def changes_def)
    then have "view (get_redis (result_world (inner pf s inp h w c0))) ?K = view r ?K"
      using r'(1) by (simp add: get_redis_def put_redis_def)
    then show ?thesis using step ok limit(3) by (simp add: limited_to_def)
  next
    fix r' c' assume "view r' = view r" "\<forall>h. ?limit h w1 c1 = Returned (put_redis r' w1) c'"
    then show ?thesis using step limit(1,3) by (simp add: get_redis_def put_redis_def)
  qed
qed

lemma route_keeps_entry:
  fixes h :: "('r, 'd, 'g) world handler"
  assumes "redis_conforms (sv_redis s) view ttl" "aks_redis (sv_apiKeyService s) = sv_redis s"
    and "h = Returned \<or> (\<exists>rt. h = route_handlers pf s inp (dispatch pf s inp) rt)"
  shows "keeps_entry view (fixed_key k W) h"
proof -
  have "keeps_entry view (fixed_key k W) (route_handlers pf s inp (dispatch pf s inp) rt)" for rt
    by (simp add: route_handlers_def dispatch_keeps_entry [OF assms(1,2)] keeps_RequireAuth)
  moreover have "keeps_entry view (fixed_key k W) (Returned :: ('r, 'd, 'g) world handler)"
    by (simp add: keeps_entry_def changes_def)
  ultimately show ?thesis using assms(3) by metis
qed

lemma request_counted:
  fixes w :: "('r, 'd, 'g) world"
  assumes conf: "redis_conforms (sv_redis s) view ttl" and same: "aks_redis (sv_apiKeyService s) = sv_redis s"
    and time: "on_time (limiter_clock inp)" and fresh: "Keys c ''api_key'' = None"
    and n: "counted W n (view (get_redis w) (fixed_key k W))"
    and handled: "handle_request pf s inp w c = Returned w' c'"
  shows "counted W n (view (get_redis w') (fixed_key k W)) \<and>
    (reaches pf s inp w c \<and> limited_to k L (limiter_parameters pf s inp w c) \<and> window_of (limiter_clock inp) = W \<longrightarrow>
       Suc n \<le> nat L \<and> counted W (Suc n) (view (get_redis w') (fixed_key k W)))"
proof -
  obtain route c1 where route: "\<And>D. handle_with D pf s inp w c = chain (setupMiddleware pf s inp) (route D) w c1"
      "\<And>D. route D = Returned \<or> (\<exists>rt. route D = route_handlers pf s inp D rt)" "like_new c c1"
    using handle_with_chain [of pf s inp w c] by blast
  let ?h = "route (dispatch pf s inp)"
  have w': "w' = result_world (chain (setupMiddleware pf s inp) ?h w c1)"
    using handled route(1) [of "dispatch pf s inp"] by (simp add: handle_request_def)
  have redis: "w_stores x = w_stores y \<Longrightarrow> get_redis x = get_redis y" for x y :: "('r, 'd, 'g) world"
    by (simp add: get_redis_def)
  show ?thesis
  proof (rule chain_inner [of pf s inp w c1])
    fix r assume r: "\<And>h. chain (setupMiddleware pf s inp) h w c1 = r" "w_stores (result_world r) = w_stores w"
    then have "\<not> reaches pf s inp w c" by (simp add: reaches_def route(1))
    moreover have "get_redis w' = get_redis w" using w' r redis by metis
    ultimately show ?thesis using n by simp
  next
    fix F c2
    assume F: "\<And>h. chain (setupMiddleware pf s inp) h w c1 = F (inner pf s inp h w c2)"
      "\<And>r. w_stores (result_world (F r)) = w_stores (result_world r)" "like_new c1 c2"
    have "like_new c c2" using F(3) route(3) by (simp add: like_new_def)
    note inner = inner_counted [OF conf same time fresh this n route_keeps_entry [OF conf same route(2)], of pf L]
    have "get_redis w' = get_redis (result_world (inner pf s inp ?h w c2))" using w' F(1,2) redis by metis
    moreover have "\<exists>g g'. inner pf s inp g w c2 \<noteq> inner pf s inp g' w c2" if "reaches pf s inp w c"
      using that by (auto simp: reaches_def route(1) F(1)) metis
    ultimately show ?thesis using inner by metis
  qed
qed

section \<open>Runs\<close>

text \<open>A run of the gateway with, for each request, the parameters of its limit, its window and
  whether it reached a handler.  The framework hands every request a context without keys.\<close>

record visit =
  v_parameters :: rate_parameters
  v_window :: int
  v_reached :: bool

definition visit_of ::
    "'g platform \<Rightarrow> ('r, 'd) Server \<Rightarrow> inputs \<Rightarrow> ('r, 'd, 'g) world \<Rightarrow> gin_ctx \<Rightarrow> visit" where
  "visit_of pf s inp w c =
     \<lparr>v_parameters = limiter_parameters pf s inp w c, v_window = window_of (limiter_clock inp),
      v_reached = reaches pf s inp w c\<rparr>"

inductive visited ::
    "'g platform \<Rightarrow> ('r, 'd) Server \<Rightarrow> ('r, 'd, 'g) world \<Rightarrow> visit list \<Rightarrow> ('r, 'd, 'g) world \<Rightarrow> bool"
  for pf :: "'g platform" and s :: "('r, 'd) Server" and w0 :: "('r, 'd, 'g) world" where
  visited_start: "visited pf s w0 [] w0"
| visited_request: "visited pf s w0 vs w \<Longrightarrow> handle_request pf s inp w c = Returned w' c' \<Longrightarrow>
     Keys c = Map.empty \<Longrightarrow> on_time (limiter_clock inp) \<Longrightarrow> visited pf s w0 (vs @ [visit_of pf s inp w c]) w'"
| visited_other: "visited pf s w0 vs w \<Longrightarrow> gateway_step pf s w e w' \<Longrightarrow> requests_in [e] = 0 \<Longrightarrow>
     visited pf s w0 vs w'"

definition reached :: "string \<Rightarrow> int \<Rightarrow> int \<Rightarrow> visit list \<Rightarrow> nat" where
  "reached k L W vs =
     length (filter (\<lambda>v. v_reached v \<and> v_window v = W \<and> limited_to k L (v_parameters v)) vs)"

lemma other_keeps_redis:
  assumes "gateway_step pf s w e w'" "requests_in [e] = 0"
  shows "get_redis w' = get_redis w"
  using assms
  by cases (auto simp: get_redis_def put_proxies_def put_db_def put_logger_def put_stores_def run_pending_def
      UpdateLastUsed_def split: list.splits)

lemma visited_counted:
  assumes "visited pf s w0 vs w" "redis_conforms (sv_redis s) view ttl" "aks_redis (sv_apiKeyService s) = sv_redis s"
    and "view (get_redis w0) (fixed_key k W) = None"
  shows "reached k L W vs \<le> nat L \<and> counted W (reached k L W vs) (view (get_redis w) (fixed_key k W))"
  using assms
proof induction
  case visited_start
  then show ?case by (simp add: reached_def counted_def fw_entry_def)
next
  case (visited_request vs w inp c w' c')
  have "reached k L W (vs @ [visit_of pf s inp w c]) =
      reached k L W vs + of_bool (reaches pf s inp w c \<and> window_of (limiter_clock inp) = W \<and>
        limited_to k L (limiter_parameters pf s inp w c))"
    by (simp add: reached_def visit_of_def)
  with visited_request request_counted [of s view ttl inp c W "reached k L W vs" w k pf w' c' L] show ?case
    by (auto simp: of_bool_def)
next
  case (visited_other vs w e w')
  then show ?case using other_keeps_redis by metis
qed


section \<open>Instances\<close>

text \<open>Someone without a key asks for the health of the gateway.\<close>

lemma demo_health_route:
  assumes "sv_router s = public_routes demo_engine @ admin_routes demo_engine @ rest"
  shows "\<exists>rt. matched_route demo_platform s (demo_visit ''/health'') = Some (rt, Map.empty) \<and>
     rt_endpoint rt = EHealth \<and> \<not> rt_auth rt"
  by (simp add: matched_route_def assms demo_platform_def demo_engine_def demo_visit_def route_key_def
      public_routes_def admin_routes_def)

lemma demo_first_allowed:
  assumes "r (fixed_key key 0) = None"
  shows "fst (FixedWindow_Allow mem_client (NewFixedWindow 60 Minute) (\<lambda>_. 0) key r) = Inr (True, None)"
proof -
  have "currentWindow (NewFixedWindow 60 Minute) 0 = Inr 0"
    using currentWindow_of [of 0 60] by (simp add: time_Unix_def int64_def)
  then show ?thesis using assms
    by (simp add: FixedWindow_Allow_def fw_incr_def Redis_Incr_def mem_client_def db_incr_def live_def
        NewFixedWindow_def Let_def)
qed

lemma demo_reaches:
  assumes router: "sv_router s = public_routes demo_engine @ admin_routes demo_engine @ rest"
    and s: "sv_redis s = mem_client" "sv_config s = demo_config"
  shows "reaches demo_platform s demo_inputs (demo_world ps l) (demo_visit ''/health'')"
proof -
  let ?c = "demo_visit ''/health''" and ?w = "demo_world ps l"
  obtain rt where rt: "matched_route demo_platform s ?c = Some (rt, Map.empty)" "\<not> rt_auth rt"
    using demo_health_route [OF router] by blast
  have c: "Method (Request ?c) \<noteq> ''OPTIONS''" "Keys ?c ''api_key'' = None" "Header_Get ''X-Api-Key'' (Request ?c) = ''''"
    by (simp_all add: demo_visit_def Header_Get_def)
  have "limiter_parameters demo_platform s demo_inputs ?w ?c =
      \<lparr>rp_tier = ''basic'', rp_limit = 60, rp_algorithm = ''fixed_window'', rp_key = ClientIP ?c\<rparr>"
    by (simp add: limiter_parameters_def c anonymous_parameters_def s demo_config_def zero_Config_def)
  then have "limiter_allows demo_platform s demo_inputs ?w ?c"
    using demo_first_allowed [of Map.empty]
    by (simp add: limiter_allows_def c s NewLimiter_def get_redis_def demo_world_def demo_inputs_def)
  then show ?thesis
    using admission [of s id "\<lambda>t d. t + d", OF _ rt c(1,2)] mem_conforms
    by (simp add: s key_checked_def c(3))
qed


end
