(* ===== verification/GatewayKeys.thy ===== *)
theory GatewayKeys
  imports GatewayLimits
begin

text \<open>
  API keys in the gateway as a whole.  The cache of the keys shares its Redis server with the
  limiters and its database with the users and the request log, and keys are administered by the
  same requests that are checked.  Shown: from the start of the gateway on, whatever requests and
  background work interleave, the cache stays coherent with the table, so that a request with a key
  reaches a handler only if the table has an active row for the key, and is limited by its tier.
\<close>

section \<open>Tables\<close>

text \<open>A statement on one table leaves the others alone: \<open>rows\<close> is a view of another table than \<open>g\<close>
  is for.\<close>

definition keeps_rows :: "('d \<Rightarrow> 'b) \<Rightarrow> ('d \<Rightarrow> 'a \<times> 'd) \<Rightarrow> bool" where
  "keeps_rows rows f \<longleftrightarrow> (\<forall>d. rows (snd (f d)) = rows d)"

definition other_table :: "('d, 'a, 'z) gorm_scheme \<Rightarrow> ('d \<Rightarrow> 'b) \<Rightarrow> bool" where
  "other_table g rows \<longleftrightarrow>
     (\<forall>hook xs. keeps_rows rows (g_Create g hook xs)) \<and> (\<forall>q. keeps_rows rows (g_First g q)) \<and>
     (\<forall>q. keeps_rows rows (g_Find g q)) \<and> (\<forall>q u. keeps_rows rows (g_Updates g q u)) \<and>
     (\<forall>q. keeps_rows rows (g_Delete g q)) \<and> (\<forall>q. keeps_rows rows (g_Count g q))"

text \<open>The statements that only read the log.\<close>

definition log_reads :: "'d log_gorm \<Rightarrow> ('d \<Rightarrow> 'b) \<Rightarrow> bool" where
  "log_reads g rows \<longleftrightarrow>
     (\<forall>q. keeps_rows rows (g_Find g q)) \<and> (\<forall>q. keeps_rows rows (g_Count g q)) \<and>
     (\<forall>e q. keeps_rows rows (g_Scan_float g e q)) \<and> (\<forall>e x t t'. keeps_rows rows (g_Raw_Scan_int g e x t t')) \<and>
     (\<forall>e b q. keeps_rows rows (g_Rows_paths g e b q)) \<and> (\<forall>e b q. keeps_rows rows (g_Rows_hours g e b q))"

definition other_log :: "'d log_gorm \<Rightarrow> ('d \<Rightarrow> 'b) \<Rightarrow> bool" where
  "other_log g rows \<longleftrightarrow> other_table g rows \<and> log_reads g rows"

definition keys_apart :: "'d Postgres \<Rightarrow> ('d \<Rightarrow> APIKey list) \<Rightarrow> bool" where
  "keys_apart p rows \<longleftrightarrow>
     other_table (gdb_users (pg_DB p)) rows \<and> other_log (gdb_request_logs (pg_DB p)) rows \<and>
     keeps_rows rows (Postgres_Ping p)"

lemma other_tableD:
  assumes "other_table g rows"
  shows "rows (snd (g_Create g hook xs d)) = rows d" "rows (snd (g_First g q d)) = rows d"
    "rows (snd (g_Find g q d)) = rows d" "rows (snd (g_Count g q d)) = rows d"
    "rows (snd (g_Updates g q u d)) = rows d" "rows (snd (g_Delete g q d)) = rows d"
  using assms by (simp_all add: other_table_def keeps_rows_def)

lemma log_readsD:
  assumes "log_reads g rows"
  shows "rows (snd (g_Find g q d)) = rows d" "rows (snd (g_Count g q d)) = rows d"
    "rows (snd (g_Scan_float g e q d)) = rows d" "rows (snd (g_Raw_Scan_int g e x t t' d)) = rows d"
    "rows (snd (g_Rows_paths g e b q d)) = rows d" "rows (snd (g_Rows_hours g e b q d)) = rows d"
  using assms by (simp_all add: log_reads_def keeps_rows_def)

text \<open>The handlers of the administrators and of the analytics.\<close>

definition spares :: "('d \<Rightarrow> 'b) \<Rightarrow> 'd handler \<Rightarrow> bool" where
  "spares rows h \<longleftrightarrow> (\<forall>d c. rows (result_world (h d c)) = rows d)"

lemma snd_not_found_nil [simp]: "snd (not_found_nil out) = snd out"
  by (simp add: not_found_nil_def split: prod.splits sum.splits)

lemma snd_eqD: "f d = (x, d') \<Longrightarrow> rows (snd (f d)) = rows d \<Longrightarrow> rows d' = rows d"
  by simp

lemma auth_spares:
  assumes "other_table (auth_repo s) rows"
  shows "spares rows (AuthHandler_Register fw bc s salt fresh)" "spares rows (AuthHandler_Login fw bc lib s ts)"
    "spares rows (AuthHandler_Me fw s)"
proof -
  have find: "rows (snd (FindByEmail (auth_repo s) m d)) = rows d" "rows (snd (FindById (auth_repo s) i d)) = rows d"
    "rows (snd (AuthRepository_Create (auth_repo s) fresh u d)) = rows d" for m i u d
    by (simp_all add: FindByEmail_def FindById_def AuthRepository_Create_def other_tableD [OF assms])
  have reg: "rows (snd (Register bc s salt fresh m p n d)) = rows d" for m p n d
    using find(1) [of m d] find(3)
    by (auto simp: Register_def split: prod.splits sum.splits option.splits)
  have log: "rows (snd (Login bc lib s ts m p d)) = rows d" for m p d
    using find(1) [of m d] by (auto simp: Login_def split: prod.splits sum.splits option.splits)
  show "spares rows (AuthHandler_Register fw bc s salt fresh)"
    unfolding spares_def
    using reg by (auto simp: AuthHandler_Register_def respond_def split: sum.splits prod.splits option.splits) (metis snd_conv)+
  show "spares rows (AuthHandler_Login fw bc lib s ts)"
    unfolding spares_def
    using log by (auto simp: AuthHandler_Login_def respond_def split: sum.splits prod.splits) (metis snd_conv)+
  show "spares rows (AuthHandler_Me fw s)"
    unfolding spares_def
    using find(2) by (auto simp: AuthHandler_Me_def GetUserByID_def respond_def
        split: sum.splits prod.splits option.splits ctx_value.splits) (metis snd_conv)+
qed

lemma summary_keeps:
  assumes "log_reads g rows"
  shows "rows (snd (AnalyticsService_GetSummary (NewAnalyticsService g) from to d)) = rows d"
proof -
  note reads = log_readsD [OF assms]
  have top: "rows (snd (GetTopEndpoints g from to n d)) = rows d" for n d
    using reads(5) by (auto simp: GetTopEndpoints_def split: prod.splits sum.splits) (metis snd_conv)+
  have step: "rows (snd (CountByTimeRange g from to d)) = rows d"
    "rows (snd (GetAverageResponseTime g from to d)) = rows d" "rows (snd (GetPercentile g from to x d)) = rows d"
    "rows (snd (CountByStatusCodeRange g a b from to d)) = rows d" for d x a b
    by (simp_all add: CountByTimeRange_def GetAverageResponseTime_def GetPercentile_def CountByStatusCodeRange_def
        reads)
  show ?thesis
    unfolding AnalyticsService_GetSummary_def NewAnalyticsService_def
    by (auto simp: Let_def split: prod.splits option.splits sum.splits
        dest!: snd_eqD [where rows = rows, OF _ top] snd_eqD [where rows = rows, OF _ step(1)]
          snd_eqD [where rows = rows, OF _ step(2)] snd_eqD [where rows = rows, OF _ step(3)]
          snd_eqD [where rows = rows, OF _ step(4)])
qed

lemma analytics_spares:
  assumes "log_reads g rows"
  shows "spares rows (AnalyticsHandler_GetSummary fw lib (NewAnalyticsService g) now)"
    "spares rows (GetTimeSeries fw lib (NewAnalyticsService g) now)"
    "spares rows (AnalyticsHandler_GetAPIKeyStats fw lib up (NewAnalyticsService g) now)"
    "spares rows (AnalyticsHandler_GetLogs fw lib (NewAnalyticsService g) now)"
proof -
  note reads = log_readsD [OF assms]
  have series: "rows (snd (GetTimeSeriesData (NewAnalyticsService g) t0 t1 d)) = rows d" for t0 t1 d
    using reads(6)
    by (auto simp: GetTimeSeriesData_def GetHourlyStatus_def NewAnalyticsService_def split: prod.splits sum.splits)
      (metis snd_conv)+
  have stats: "rows (snd (AnalyticsService_GetAPIKeyStats (NewAnalyticsService g) k t0 t1 d)) = rows d" for k t0 t1 d
    using reads(1)
    by (auto simp: AnalyticsService_GetAPIKeyStats_def FindByAPIKey_def NewAnalyticsService_def Let_def
        split: prod.splits option.splits) (metis snd_conv)+
  have logs: "rows (snd (AnalyticsService_GetLogs (NewAnalyticsService g) t0 t1 st l ofs d)) = rows d" for t0 t1 st l ofs d
    using reads(1)
    by (auto simp: AnalyticsService_GetLogs_def FindByStatusCode_def FindByTimeRange_def NewAnalyticsService_def
        split: prod.splits option.splits) (metis snd_conv)+
  show "spares rows (AnalyticsHandler_GetSummary fw lib (NewAnalyticsService g) now)"
    unfolding spares_def
    by (auto simp: AnalyticsHandler_GetSummary_def respond_def split: sum.splits prod.splits
        dest!: snd_eqD [where rows = rows, OF _ summary_keeps [OF assms]])
  show "spares rows (GetTimeSeries fw lib (NewAnalyticsService g) now)"
    unfolding spares_def
    by (auto simp: GetTimeSeries_def respond_def split: sum.splits prod.splits
        dest!: snd_eqD [where rows = rows, OF _ series])
  show "spares rows (AnalyticsHandler_GetAPIKeyStats fw lib up (NewAnalyticsService g) now)"
    unfolding spares_def
    by (auto simp: AnalyticsHandler_GetAPIKeyStats_def respond_def split: sum.splits prod.splits
        dest!: snd_eqD [where rows = rows, OF _ stats])
  show "spares rows (AnalyticsHandler_GetLogs fw lib (NewAnalyticsService g) now)"
    unfolding spares_def
    by (auto simp: AnalyticsHandler_GetLogs_def respond_def Let_def split: sum.splits prod.splits
        dest!: snd_eqD [where rows = rows, OF _ logs])
qed

section \<open>The invariant\<close>

definition keys_good ::
    "'g platform \<Rightarrow> ('r \<Rightarrow> rdb) \<Rightarrow> ('d \<Rightarrow> APIKey list) \<Rightarrow> ('r, 'd) stores \<Rightarrow> bool" where
  "keys_good pf view rows st \<longleftrightarrow>
     keys_inv (pf_keys pf) (rows (s_db st)) (view (s_redis st)) \<and> list_all canonical_uuid (s_pending st)"

text \<open>The cache is what Redis holds under the keys of the cache.\<close>

lemma keys_good_cong:
  assumes "keys_good pf view rows st" "rows (s_db st') = rows (s_db st)" "s_pending st' = s_pending st"
    and "\<And>h. view (s_redis st') (cache_key h) = view (s_redis st) (cache_key h)"
  shows "keys_good pf view rows st'"
  using assms by (simp add: keys_good_def keys_inv_def coherent_def)

text \<open>A request to the administration of the keys names a key by the canonical form of its identifier
  and gives names and tiers in ASCII.\<close>

definition plain_request :: "'g platform \<Rightarrow> inputs \<Rightarrow> endpoint \<Rightarrow> gin_ctx \<Rightarrow> bool" where
  "plain_request pf inp ep c \<longleftrightarrow>
     (ep = EKeyCreate \<longrightarrow> canonical_uuid (in_uuid inp) \<and>
        (\<forall>req. ShouldBindJSON (pf_fw pf) CreateKeyRequest_decoder CreateKeyRequest_tags
             \<lparr>ckr_Name = '''', ckr_CreatedBy = '''', ckr_Tier = ''''\<rparr> c = Inr req \<longrightarrow>
           ascii (ckr_Name req) \<and> ascii (ckr_CreatedBy req) \<and> ascii (ckr_Tier req))) \<and>
     (ep = EKeyUpdate \<longrightarrow>
        (\<forall>req tier. ShouldBindJSON (pf_fw pf) UpdateKeyRequest_decoder [] \<lparr>ukr_Tier = None, ukr_IsActive = None\<rparr> c = Inr req \<and>
           ukr_Tier req = Some tier \<longrightarrow> ascii tier)) \<and>
     (ep \<in> {EKeyGet, EKeyUpdate, EKeyDelete} \<longrightarrow> canonical_uuid (ctx_Param ''id'' c))"

lemma plain_request_cong:
  "Body c' = Body c \<Longrightarrow> Param c' = Param c \<Longrightarrow> plain_request pf inp ep c' = plain_request pf inp ep c"
  by (simp add: plain_request_def ShouldBindJSON_def ctx_Param_def)

definition good_server ::
    "'g platform \<Rightarrow> ('r, 'd) Server \<Rightarrow> ('r \<Rightarrow> rdb) \<Rightarrow> (time \<Rightarrow> duration \<Rightarrow> time) \<Rightarrow> ('d \<Rightarrow> APIKey list) \<Rightarrow> bool" where
  "good_server pf s view ttl rows \<longleftrightarrow>
     keys_ready (pf_keys pf) (sv_apiKeyService s) view ttl rows \<and> aks_redis (sv_apiKeyService s) = sv_redis s \<and>
     keys_apart (sv_postgres s) rows \<and>
     auth_repo (sv_authService s) = gdb_users (pg_DB (sv_postgres s)) \<and>
     sv_analyticsService s = NewAnalyticsService (gdb_request_logs (pg_DB (sv_postgres s)))"

lemma good_serverD:
  assumes "good_server pf s view ttl rows"
  shows "keys_ready (pf_keys pf) (sv_apiKeyService s) view ttl rows"
    "key_stores (pf_keys pf) (sv_apiKeyService s) view ttl rows"
    "redis_conforms (sv_redis s) view ttl" "aks_redis (sv_apiKeyService s) = sv_redis s"
    "other_table (auth_repo (sv_authService s)) rows" "other_log (gdb_request_logs (pg_DB (sv_postgres s))) rows"
    "sv_analyticsService s = NewAnalyticsService (gdb_request_logs (pg_DB (sv_postgres s)))"
    "rows (snd (Postgres_Ping (sv_postgres s) d)) = rows d"
  using assms by (auto simp: good_server_def keys_ready_stores keys_ready_def keys_apart_def keeps_rows_def)

definition keeps_keys :: "'g platform \<Rightarrow> ('r \<Rightarrow> rdb) \<Rightarrow> ('d \<Rightarrow> APIKey list) \<Rightarrow> (gin_ctx \<Rightarrow> bool) \<Rightarrow>
    ('r, 'd, 'g) world handler \<Rightarrow> bool" where
  "keeps_keys pf view rows P h \<longleftrightarrow>
     (\<forall>w c. P c \<and> keys_good pf view rows (w_stores w) \<longrightarrow> keys_good pf view rows (w_stores (result_world (h w c))))"

lemma keeps_keys_stores:
  fixes h :: "('r, 'd) stores handler" and pf :: "'g platform"
  assumes "\<And>st c. P c \<Longrightarrow> keys_good pf view rows st \<Longrightarrow> keys_good pf view rows (result_world (h st c))"
  shows "keeps_keys pf view rows P (on_part w_stores put_stores h)"
  unfolding keeps_keys_def
proof (intro allI impI)
  fix w :: "('r, 'd, 'g) world" and c assume "P c \<and> keys_good pf view rows (w_stores w)"
  then show "keys_good pf view rows (w_stores (result_world (on_part w_stores put_stores h w c)))"
    using assms [of c "w_stores w"] by (cases "h (w_stores w) c") (simp_all add: on_part_def put_stores_def)
qed

lemma keeps_keys_db:
  fixes h :: "'d handler" and pf :: "'g platform" and view :: "'r \<Rightarrow> rdb"
  assumes "spares rows h"
  shows "keeps_keys pf view rows P (on_part get_db put_db h)"
  unfolding keeps_keys_def
proof (intro allI impI)
  fix w :: "('r, 'd, 'g) world" and c assume "P c \<and> keys_good pf view rows (w_stores w)"
  then show "keys_good pf view rows (w_stores (result_world (on_part get_db put_db h w c)))"
    using assms [unfolded spares_def, rule_format, of "get_db w" c]
    by (cases "h (get_db w) c") (auto simp: on_part_def put_db_def get_db_def elim!: keys_good_cong)
qed

lemma keeps_keys_proxies: "keeps_keys pf view rows P (on_part w_proxies put_proxies h)"
  by (auto simp: keeps_keys_def on_part_def put_proxies_def split: result.splits)

lemma keeps_keys_RequireAuth:
  assumes "keeps_keys pf view rows P h" "\<And>k v c. P c \<Longrightarrow> P (ctx_Set k v c)"
  shows "keeps_keys pf view rows P (RequireAuth lib s t h)"
  using assms by (auto simp: keeps_keys_def RequireAuth_def reject_def Let_def split: sum.splits)

text \<open>An operation of the service is a step of its system.\<close>

lemma keys_good_step:
  assumes "good_server pf s view ttl rows" "key_step (pf_keys pf) (sv_apiKeyService s) st e st'"
    and "keys_good pf view rows st" "s_pending st' = s_pending st"
  shows "keys_good pf view rows st'"
  using key_step_inv [OF good_serverD(1) [OF assms(1)] assms(2)] assms(3,4) by (simp add: keys_good_def)

section \<open>Every part of the gateway keeps it\<close>

lemma via_pending:
  "via_db f st = (x, st') \<Longrightarrow> s_pending st' = s_pending st"
  "s_pending (invalidateCache s t i st) = s_pending st"
  by (auto simp: via_db_eq invalidateCache_def via_redis_def split: prod.splits sum.splits option.splits)

lemma pending_kept:
  "APIKeyService_Create env s rand fresh name createdBy tier st = (x, st') \<Longrightarrow> s_pending st' = s_pending st"
  "APIKeyService_Update s ts i u st = (err, st') \<Longrightarrow> s_pending st' = s_pending st"
  "APIKeyService_Delete s t i st = (err, st') \<Longrightarrow> s_pending st' = s_pending st"
  by (auto simp: APIKeyService_Create_def APIKeyService_Update_def APIKeyService_Delete_def Let_def via_pending
      split: sum.splits prod.splits option.splits if_splits dest!: via_pending(1))

lemma Validate_pending: "s_pending (snd (Validate env s ts key st)) = s_pending st"
  by (auto simp: Validate_def Validate_lookup_def Validate_store_def via_redis_def via_db_def Let_def
      split: prod.splits sum.splits option.splits lookup.splits)

lemma key_reads:
  assumes "good_server pf s view ttl rows" "keys_good pf view rows st"
  shows "keys_good pf view rows (snd (APIKeyService_List (sv_apiKeyService s) st))"
    and "canonical_uuid i \<Longrightarrow> keys_good pf view rows (snd (APIKeyService_Get (sv_apiKeyService s) i st))"
proof -
  have table: "gorm_conforms api_keys (aks_repository (sv_apiKeyService s)) rows"
    using good_serverD(1) [OF assms(1)] by (simp add: keys_ready_def)
  obtain xs err d where l: "g_Find (aks_repository (sv_apiKeyService s)) (Order ''created_at'' DESC all_rows) (s_db st) = ((xs, err), d)"
    by (metis surj_pair)
  have "query_ok api_keys (Order ''created_at'' DESC all_rows)" by (simp add: query_ok_def Order_def all_rows_def)
  from conforms_Find(1) [OF table l this] show "keys_good pf view rows (snd (APIKeyService_List (sv_apiKeyService s) st))"
    by (auto simp: APIKeyService_List_def APIKeyRepository_List_def via_db_def l intro: keys_good_cong [OF assms(2)])
  assume i: "canonical_uuid i"
  obtain res d where g: "FindByID (aks_repository (sv_apiKeyService s)) i (s_db st) = (res, d)" by fastforce
  from FindByID_spec(1) [OF table g i] show "keys_good pf view rows (snd (APIKeyService_Get (sv_apiKeyService s) i st))"
    by (auto simp: APIKeyService_Get_def via_db_def g intro: keys_good_cong [OF assms(2)])
qed

lemma health_keeps:
  assumes "good_server pf s view ttl rows" "keys_good pf view rows st"
  shows "keys_good pf view rows (result_world (healthCheck fw s ts st c))"
proof -
  obtain p1 st1 where 1: "via_redis (Redis_Ping (sv_redis s) (ts 0)) st = (p1, st1)" by fastforce
  obtain p2 st2 where 2: "via_db (Postgres_Ping (sv_postgres s)) st1 = (p2, st2)" by fastforce
  have redis: "view (s_redis st1) = view (s_redis st)" "s_db st1 = s_db st" "s_pending st1 = s_pending st"
    using 1 law_Ping [OF good_serverD(3) [OF assms(1)], of "ts 0" "s_redis st"]
    by (auto simp: via_redis_eq Redis_Ping_def)
  have "rows (s_db st2) = rows (s_db st1)"
    using 2 good_serverD(8) [OF assms(1), of "s_db st1"] by (auto simp: via_db_eq)
  then have "keys_good pf view rows st2"
    using assms(2) redis via_db_redis [OF 2] via_pending(1) [OF 2] by (auto elim!: keys_good_cong)
  then show ?thesis by (simp add: healthCheck_def 1 2 respond_def Let_def)
qed

lemma key_handlers_keep:
  assumes good: "good_server pf s view ttl rows" and st: "keys_good pf view rows st"
  shows "plain_request pf inp EKeyCreate c \<Longrightarrow> keys_good pf view rows (result_world
      (APIKeyHandler_Create (pf_fw pf) (pf_keys pf) (sv_apiKeyService s) rand (in_uuid inp) st c))" (is "_ \<Longrightarrow> ?create")
    and "plain_request pf inp EKeyUpdate c \<Longrightarrow> keys_good pf view rows (result_world
      (APIKeyHandler_Update (pf_fw pf) (sv_apiKeyService s) ts st c))" (is "_ \<Longrightarrow> ?update")
    and "plain_request pf inp EKeyDelete c \<Longrightarrow> keys_good pf view rows (result_world
      (APIKeyHandler_Delete (pf_fw pf) (sv_apiKeyService s) t st c))" (is "_ \<Longrightarrow> ?delete")
    and "plain_request pf inp EKeyGet c \<Longrightarrow> keys_good pf view rows (result_world
      (APIKeyHandler_Get (pf_fw pf) (sv_apiKeyService s) st c))" (is "_ \<Longrightarrow> ?get")
    and "keys_good pf view rows (result_world (APIKeyHandler_List (pf_fw pf) (sv_apiKeyService s) st c))"
    and "keys_good pf view rows (result_world (adminStatus t0 s ts st c))"
proof -
  have create: "keys_good pf view rows st'"
    if "APIKeyService_Create (pf_keys pf) (sv_apiKeyService s) rand u name creator tier st = (x, st')"
      "canonical_uuid u" "ascii name" "ascii creator" "ascii tier" for u name creator tier x st'
    using keys_good_step [OF good step_Create [OF that] st] pending_kept(1) [OF that(1)] by blast
  show ?create if "plain_request pf inp EKeyCreate c"
    using that st create
    by (auto simp: APIKeyHandler_Create_def plain_request_def respond_def split: sum.splits prod.splits)
  have update: "keys_good pf view rows st'"
    if "APIKeyService_Update (sv_apiKeyService s) ts i (key_updates req) st = (x, st')" "canonical_uuid i"
      "ukr_Tier req \<noteq> None \<or> ukr_IsActive req \<noteq> None" "\<And>tier. ukr_Tier req = Some tier \<Longrightarrow> ascii tier" for i req x st'
    using keys_good_step [OF good step_Update [OF that] st] pending_kept(2) [OF that(1)] by blast
  show ?update if "plain_request pf inp EKeyUpdate c"
    using that st update
    by (auto simp: APIKeyHandler_Update_def plain_request_def respond_def split: sum.splits prod.splits option.splits)
  have delete: "keys_good pf view rows st'"
    if "APIKeyService_Delete (sv_apiKeyService s) t i st = (x, st')" "canonical_uuid i" for i x st'
    using keys_good_step [OF good step_Delete [OF that] st] pending_kept(3) [OF that(1)] by blast
  show ?delete if "plain_request pf inp EKeyDelete c"
    using that delete by (auto simp: APIKeyHandler_Delete_def plain_request_def respond_def split: prod.splits option.splits)
  show ?get if "plain_request pf inp EKeyGet c"
    using that key_reads(2) [OF good st, of "ctx_Param ''id'' c"]
    by (auto simp: APIKeyHandler_Get_def plain_request_def respond_def split: prod.splits sum.splits option.splits)
  show "keys_good pf view rows (result_world (APIKeyHandler_List (pf_fw pf) (sv_apiKeyService s) st c))"
    and "keys_good pf view rows (result_world (adminStatus t0 s ts st c))"
    using key_reads(1) [OF good st]
    by (auto simp: APIKeyHandler_List_def adminStatus_def respond_def split: prod.splits option.splits)
qed

lemma dispatch_keeps_keys:
  assumes good: "good_server pf s view ttl rows"
  shows "keeps_keys pf view rows (plain_request pf inp ep) (dispatch pf s inp ep)"
  by (cases ep)
     (auto intro!: keeps_keys_stores key_handlers_keep [OF good] health_keeps [OF good] keeps_keys_proxies
       keeps_keys_db auth_spares [OF good_serverD(5) [OF good]] analytics_spares [OF good_serverD(6) [OF good, unfolded other_log_def, THEN conjunct2]]
       simp: good_serverD(7) [OF good])

lemma same_key_fields: "same_key a k \<Longrightarrow> ID a = ID k \<and> Tier a = Tier k"
  by (cases a; cases k) (simp add: same_key_def)

lemma Validate_keeps:
  assumes good: "good_server pf s view ttl rows" and st: "keys_good pf view rows st"
    and val: "Validate (pf_keys pf) (sv_apiKeyService s) ts key st = (res, st')"
  shows "keys_good pf view rows st'"
    and "res = Inr (Some a) \<Longrightarrow> keys_good pf view rows (st'\<lparr>s_pending := s_pending st' @ [ID a]\<rparr>)"
proof -
  have "s_pending st' = s_pending st"
    using Validate_pending [of "pf_keys pf" "sv_apiKeyService s" ts key st] val by simp
  from keys_good_step [OF good step_Validate [OF val] st this] show st': "keys_good pf view rows st'" .
  have inv: "keys_inv (pf_keys pf) (rows (s_db st)) (view (s_redis st))" using st by (simp add: keys_good_def)
  assume "res = Inr (Some a)"
  from key_stores.validate_cases(4) [OF good_serverD(2) [OF good] inv val this]
  obtain k where "k \<in> set (rows (s_db st))" "same_key a k" by (auto simp: active_key_def)
  then have "canonical_uuid (ID a)"
    using inv same_key_fields by (auto simp: keys_inv_def list_all_iff plain_key_def)
  with st' show "keys_good pf view rows (st'\<lparr>s_pending := s_pending st' @ [ID a]\<rparr>)"
    by (simp add: keys_good_def)
qed

text \<open>The counters of the limiters and the cache have different keys.\<close>

lemma Allow_spares_cache:
  assumes "redis_conforms client view ttl" "NewLimiter algorithm limit Minute = Inr l"
    and "Limiter_Allow client codec l ts key r = (out, r')"
  shows "view r' (cache_key h) = view r (cache_key h)"
proof -
  have "redis_limiter client view ttl l" using assms(1) NewLimiter_ok [OF assms(2)] by (rule redis_limiter.intro)
  moreover have "cache_key h \<notin> limiter_keys l key"
    by (cases l) (auto simp: cache_key_def fixed_key_def sliding_key_def bucket_key_def)
  ultimately show ?thesis using assms(3) by (blast intro: redis_limiter.allow_frame)
qed

definition carries_input :: "(gin_ctx \<Rightarrow> bool) \<Rightarrow> bool" where
  "carries_input P \<longleftrightarrow> (\<forall>c c'. P c \<and> same_input c c' \<longrightarrow> P c')"

lemma limiter_keeps:
  fixes w :: "('r, 'd, 'g) world" and pf :: "'g platform"
  assumes conf: "redis_conforms redis view ttl" and h: "keeps_keys pf view rows P h" and P: "carries_input P"
    and w: "P c" "keys_good pf view rows (w_stores w)"
  shows "keys_good pf view rows (w_stores (result_world
           (RateLimitWithTier redis codec cfg ts get_redis put_redis h w c)))"
proof (cases "rate_parameters_of cfg c")
  case (Inl panic)
  then show ?thesis using w by (simp add: RateLimitWithTier_def)
next
  case (Inr p)
  let ?limit = "RateLimitWithTier redis codec cfg ts get_redis put_redis"
  show ?thesis
  proof (rule RateLimitWithTier_cases [OF conf Inr, of codec ts w])
    fix l ok err r
    assume l: "NewLimiter (rp_algorithm p) (rp_limit p) Minute = Inr l"
      "Limiter_Allow redis codec l (ts 0) (rp_key p) (get_redis w) = (Inr (ok, err), r)"
    have put: "keys_good pf view rows (w_stores (put_redis r' w))" if "view r' = view r" for r'
      using Allow_spares_cache [OF conf l] that
      by (intro keys_good_cong [OF w(2)]) (simp_all add: put_redis_def get_redis_def)
    have headers: "P (rate_headers p l n t c)" for n t
      using P w(1) by (auto simp: carries_input_def same_input_def rate_headers_def Let_def)
    assume "ok \<and> err = None \<and> (\<exists>r' n t. view r' = view r \<and> (\<forall>h. ?limit h w c = h (put_redis r' w) (rate_headers p l n t c))) \<or>
      \<not> (ok \<and> err = None) \<and> (\<exists>r' c'. view r' = view r \<and> (\<forall>h. ?limit h w c = Returned (put_redis r' w) c'))"
    then show ?thesis
    proof (elim disjE conjE exE)
      fix r' n t assume "view r' = view r" "\<forall>h. ?limit h w c = h (put_redis r' w) (rate_headers p l n t c)"
      then show ?thesis using h put [of r'] headers [of n t] by (simp add: keeps_keys_def)
    next
      fix r' c' assume "view r' = view r" "\<forall>h. ?limit h w c = Returned (put_redis r' w) c'"
      then show ?thesis using put by simp
    qed
  qed
qed

lemma inner_keeps:
  fixes w :: "('r, 'd, 'g) world"
  assumes good: "good_server pf s view ttl rows" and h: "keeps_keys pf view rows P h" and P: "carries_input P"
    and w: "P c" "keys_good pf view rows (w_stores w)"
  shows "keys_good pf view rows (w_stores (result_world (inner pf s inp h w c)))"
proof -
  let ?key = "TrimSpace (Header_Get ''X-Api-Key'' (Request c))"
  obtain res st where val: "Validate (pf_keys pf) (sv_apiKeyService s) (in_clock inp 2) ?key (w_stores w) = (res, st)"
    by fastforce
  note keeps = Validate_keeps [OF good w(2) val]
  have limit: "keys_good pf view rows (w_stores (result_world (RateLimitWithTier (sv_redis s) (pf_codec pf) (sv_config s)
      (limiter_clock inp) get_redis put_redis h w' c')))" if "same_input c c'" "keys_good pf view rows (w_stores w')" for w' c'
    using limiter_keeps [OF good_serverD(3) [OF good] h P _ that(2)] P w(1) that(1) by (simp add: carries_input_def)
  have "same_input c c" "same_input c (ctx_Set k1 v1 (ctx_Set k2 v2 (ctx_Set k3 v3 c)))" for k1 v1 k2 v2 k3 v3
    by (simp_all add: same_input_def)
  with limit keeps w(2) show ?thesis
    by (auto simp: inner_def APIKeyValidator_def val [simplified] reject_def put_stores_def Let_def
        split: sum.splits option.splits)
qed

definition plain_event :: "'g platform \<Rightarrow> ('r, 'd) Server \<Rightarrow> gateway_event \<Rightarrow> bool" where
  "plain_event pf s e \<longleftrightarrow>
     (case e of
        Request_served inp c c' \<Rightarrow>
          (\<forall>rt params. matched_route pf s c = Some (rt, params) \<longrightarrow>
             plain_request pf inp (rt_endpoint rt) (c\<lparr>Param := params\<rparr>))
      | _ \<Rightarrow> True)"

lemma chain_keeps:
  fixes w :: "('r, 'd, 'g) world"
  assumes good: "good_server pf s view ttl rows" and h: "keeps_keys pf view rows P h" and P: "carries_input P"
    and w: "P c" "keys_good pf view rows (w_stores w)"
  shows "keys_good pf view rows (w_stores (result_world (chain (setupMiddleware pf s inp) h w c)))"
proof (rule chain_inner [of pf s inp w c])
  fix r assume "\<And>h. chain (setupMiddleware pf s inp) h w c = r" "w_stores (result_world r) = w_stores w"
  then show ?thesis using w(2) by simp
next
  fix F c0
  assume F: "\<And>h. chain (setupMiddleware pf s inp) h w c = F (inner pf s inp h w c0)"
    "\<And>r. w_stores (result_world (F r)) = w_stores (result_world r)" and c0: "same_input c c0"
  have "P c0" using P w(1) c0 by (simp add: carries_input_def)
  then show ?thesis using inner_keeps [OF good h P _ w(2)] F by simp
qed

lemma plain_carries: "carries_input (plain_request pf inp ep)"
  unfolding carries_input_def same_input_def using plain_request_cong by metis

lemma request_keeps_keys:
  fixes w :: "('r, 'd, 'g) world"
  assumes good: "good_server pf s view ttl rows" and w: "keys_good pf view rows (w_stores w)"
    and plain: "plain_event pf s (Request_served inp c c')"
    and handled: "handle_request pf s inp w c = Returned w' c'"
  shows "keys_good pf view rows (w_stores w')"
proof (cases "matched_route pf s c")
  case None
  have "keeps_keys pf view rows (\<lambda>_. True) Returned" "carries_input (\<lambda>_. True)"
    by (simp_all add: keeps_keys_def carries_input_def)
  from chain_keeps [OF good this TrueI w, of inp c] show ?thesis
    using handled None by (simp add: handle_request_def handle_with_def)
next
  case (Some m)
  obtain rt params where m: "m = (rt, params)" by fastforce
  let ?P = "plain_request pf inp (rt_endpoint rt)"
  have set: "?P (ctx_Set k v c)" if "?P c" for k v c
    using plain_carries [of pf inp "rt_endpoint rt"] that by (auto simp: carries_input_def same_input_def)
  have h: "keeps_keys pf view rows ?P (route_handlers pf s inp (dispatch pf s inp) rt)"
    by (simp add: route_handlers_def dispatch_keeps_keys [OF good]
        keeps_keys_RequireAuth [OF dispatch_keeps_keys [OF good] set])
  have "?P (c\<lparr>Param := params\<rparr>)" using plain Some m by (simp add: plain_event_def)
  from chain_keeps [OF good h plain_carries this w, of inp] show ?thesis
    using handled Some m by (simp add: handle_request_def handle_with_def)
qed

lemma worker_spares:
  assumes "\<forall>hook xs. keeps_rows rows (g_Create g hook xs)"
  shows "worker_receive g l d = Some (f, l', d') \<Longrightarrow> rows d' = rows d"
    and "worker_tick g l d = (f, l', d') \<Longrightarrow> rows d' = rows d"
proof -
  have "insertBatch g b d0 = (x, d1) \<Longrightarrow> rows d1 = rows d0" for b d0 x d1
    using assms [rule_format, of id b] by (auto simp: insertBatch_def keeps_rows_def split: if_splits dest!: spec [of _ d0])
  then show "worker_receive g l d = Some (f, l', d') \<Longrightarrow> rows d' = rows d"
    and "worker_tick g l d = (f, l', d') \<Longrightarrow> rows d' = rows d"
    by (auto simp: worker_receive_def worker_tick_def Let_def split: list.splits prod.splits if_splits)
qed

lemma gateway_step_keeps_keys:
  fixes w :: "('r, 'd, 'g) world"
  assumes good: "good_server pf s view ttl rows" and "gateway_step pf s w e w'" "plain_event pf s e"
    and w: "keys_good pf view rows (w_stores w)"
  shows "keys_good pf view rows (w_stores w')"
  using assms(2)
proof cases
  case (request inp c c')
  then show ?thesis using request_keeps_keys [OF good w] assms(3) by blast
next
  case (check path p jobs http hc)
  then show ?thesis using w by (simp add: put_proxies_def)
next
  case (receive f l d)
  have "\<forall>hook xs. keeps_rows rows (g_Create (log_table s) hook xs)"
    using good_serverD(6) [OF good] by (simp add: other_log_def other_table_def log_table_def gorm.truncate_def)
  from worker_spares(1) [OF this receive(3)] show ?thesis
    using receive(2) by (auto simp: put_db_def put_logger_def get_db_def intro: keys_good_cong [OF w])
next
  case (tick f l d)
  have "\<forall>hook xs. keeps_rows rows (g_Create (log_table s) hook xs)"
    using good_serverD(6) [OF good] by (simp add: other_log_def other_table_def log_table_def gorm.truncate_def)
  from worker_spares(2) [OF this tick(3)] show ?thesis
    using tick(2) by (auto simp: put_db_def put_logger_def get_db_def intro: keys_good_cong [OF w])
next
  case (record_use now)
  show ?thesis
  proof (cases "s_pending (w_stores w)")
    case Nil
    then show ?thesis using record_use w by (simp add: run_pending_def put_stores_def)
  next
    case (Cons i rest)
    let ?st = "(w_stores w)\<lparr>s_pending := rest\<rparr>"
    have st: "keys_good pf view rows ?st" "canonical_uuid i" using w Cons by (simp_all add: keys_good_def)
    have "s_pending (UpdateLastUsed (sv_apiKeyService s) now i ?st) = s_pending ?st"
      by (simp add: UpdateLastUsed_def via_db_def split: prod.splits)
    from keys_good_step [OF good step_Last_used [OF refl st(2)] st(1) this] show ?thesis
      using record_use Cons by (simp add: run_pending_def put_stores_def)
  qed
qed

lemma gateway_run_keeps_keys:
  assumes "run (gateway_step pf s) w es w'" "good_server pf s view ttl rows" "list_all (plain_event pf s) es"
    and "keys_good pf view rows (w_stores w)"
  shows "keys_good pf view rows (w_stores w')"
  using assms by (induction rule: run.induct) (auto intro: gateway_step_keeps_keys)

lemma Server_New_good:
  assumes "Server_New pf si order cfg redis postgres = Inr (s, ps, l)"
    and "keys_ready (pf_keys pf) (NewAPIKeyService (gdb_api_keys (pg_DB postgres)) redis) view ttl rows"
    and "keys_apart postgres rows"
  shows "good_server pf s view ttl rows"
  using assms
  by (auto simp: Server_New_def good_server_def NewAPIKeyService_def NewAuthService_def Let_def split: sum.splits)

text \<open>A request whose key is refused is decided by the middleware.\<close>

lemma refused_key_stops:
  fixes w :: "('r, 'd, 'g) world"
  assumes "Header_Get ''X-Api-Key'' (Request c) \<noteq> ''''" "reaches pf s inp w c"
  shows "\<exists>a. fst (Validate (pf_keys pf) (sv_apiKeyService s) (in_clock inp 2)
    (TrimSpace (Header_Get ''X-Api-Key'' (Request c))) (w_stores w)) = Inr (Some a)"
proof (rule ccontr)
  let ?val = "Validate (pf_keys pf) (sv_apiKeyService s) (in_clock inp 2)
    (TrimSpace (Header_Get ''X-Api-Key'' (Request c))) (w_stores w)"
  assume no: "\<not> ?thesis"
  obtain route c1 where route: "\<And>D. handle_with D pf s inp w c = chain (setupMiddleware pf s inp) (route D) w c1"
      "\<And>D. route D = Returned \<or> (\<exists>rt. route D = route_handlers pf s inp D rt)" "like_new c c1"
    using handle_with_chain [of pf s inp w c] by blast
  have "\<exists>r. \<forall>h. chain (setupMiddleware pf s inp) h w c1 = r"
  proof (rule chain_inner [of pf s inp w c1])
    fix r assume "\<And>h. chain (setupMiddleware pf s inp) h w c1 = r"
    then show ?thesis by blast
  next
    fix F c2 assume F: "\<And>h. chain (setupMiddleware pf s inp) h w c1 = F (inner pf s inp h w c2)" "like_new c1 c2"
    have "Request c2 = Request c" using F(2) route(3) by (simp add: like_new_def)
    then have "inner pf s inp h w c2 = reject 401 (error_body ''Invalid API key'') (put_stores (snd ?val) w) c2" for h
      using assms(1) no by (auto simp: inner_def APIKeyValidator_def split: prod.splits sum.splits option.splits)
    then show ?thesis using F(1) by simp
  qed
  then show False using assms(2) by (auto simp: reaches_def route(1))
qed

text \<open>The keys that are accepted after a run.\<close>

lemma run_validates:
  assumes start: "Server_New pf si order cfg redis postgres = Inr (s, ps, l)"
      "keys_ready (pf_keys pf) (NewAPIKeyService (gdb_api_keys (pg_DB postgres)) redis) view ttl rows"
      "keys_apart postgres rows"
      "keys_init (rows (get_db w0)) (view (get_redis w0))" "s_pending (w_stores w0) = []"
    and run: "run (gateway_step pf s) w0 es w" "list_all (plain_event pf s) es"
    and val: "Validate (pf_keys pf) (sv_apiKeyService s) ts key (w_stores w) = (res, st)"
  shows "case res of
           Inl err \<Rightarrow> False
         | Inr None \<Rightarrow> \<not> (\<exists>k. active_key (rows (get_db w)) (key_hash (pf_keys pf) key) k)
         | Inr (Some a) \<Rightarrow> \<exists>k. active_key (rows (get_db w)) (key_hash (pf_keys pf) key) k \<and> same_key a k"
proof -
  note good = Server_New_good [OF start(1-3)]
  have "keys_good pf view rows (w_stores w0)"
    using start(4,5) keys_init_inv by (simp add: keys_good_def get_db_def get_redis_def)
  from gateway_run_keeps_keys [OF run(1) good run(2) this]
  have inv: "keys_inv (pf_keys pf) (rows (s_db (w_stores w))) (view (s_redis (w_stores w)))"
    by (simp add: keys_good_def)
  have "stores_answer (sv_apiKeyService s)" using good_serverD(1) [OF good] by (simp add: keys_ready_def)
  from Validate_answers [OF this val] key_stores.validate_cases(3, 4) [OF good_serverD(2) [OF good] inv val]
  show ?thesis by (auto simp: get_db_def split: option.split)
qed

section \<open>Results\<close>



section \<open>Instances\<close>

text \<open>A gateway whose database holds the keys in memory and no users and logs, visited with a key.\<close>

definition key_platform :: "unit platform" where
  "key_platform = demo_platform\<lparr>pf_keys := demo_key_env\<rparr>"

definition key_postgres :: "APIKey list Postgres" where
  "key_postgres =
     \<lparr>pg_DB = \<lparr>gdb_api_keys = mem_gorm api_keys 0, gdb_users = empty_gorm,
        gdb_request_logs = gorm.extend empty_gorm
          (log_gorm.fields (\<lambda>sel q d. ((0, None), d)) (\<lambda>sel p t0 t1 d. ((0, None), d))
             (\<lambda>sel grp q d. (Inr \<lparr>cur_rows = [], cur_Err = None\<rparr>, d))
             (\<lambda>sel grp q d. (Inr \<lparr>cur_rows = [], cur_Err = None\<rparr>, d))),
        gdb_DB = (\<lambda>d. (Inl (Sentinel ''no pool''), d)), gdb_AutoMigrate = (\<lambda>ts d. (None, d)),
        gdb_Transaction = (\<lambda>f d. f d)\<rparr>\<rparr>"

definition key_world :: "unit proxy_map \<Rightarrow> Logger_state \<Rightarrow> (rdb, APIKey list, unit) world" where
  "key_world ps l = \<lparr>w_stores = demo_stores [demo_key], w_logger = l, w_proxies = ps\<rparr>"

definition key_visit :: gin_ctx where
  "key_visit = (demo_visit ''/health'')\<lparr>Request := (Request (demo_visit ''/health''))
     \<lparr>Header := [''X-Api-Key'' \<mapsto> ''gw_a'']\<rparr>\<rparr>"

lemma key_platform_ready:
  "keys_ready (pf_keys key_platform) (NewAPIKeyService (gdb_api_keys (pg_DB key_postgres)) mem_client) id (\<lambda>t d. t + d) id"
  "keys_apart key_postgres id"
proof -
  show "keys_ready (pf_keys key_platform) (NewAPIKeyService (gdb_api_keys (pg_DB key_postgres)) mem_client) id (\<lambda>t d. t + d) id"
    using demo_ready by (simp add: key_platform_def key_postgres_def demo_service_def)
  show "keys_apart key_postgres id"
    by (simp add: keys_apart_def other_table_def other_log_def log_reads_def keeps_rows_def key_postgres_def empty_gorm_def
        gorm.extend_def log_gorm.fields_def Postgres_Ping_def)
qed

lemma key_world_init:
  "keys_init (id (get_db (key_world ps l))) (id (get_redis (key_world ps l)))" "s_pending (w_stores (key_world ps l)) = []"
  using demo_init_key by (simp_all add: key_world_def get_db_def get_redis_def demo_stores_def)

lemma key_gateway:
  obtains s ps l rest where "Server_New key_platform demo_service_input id demo_config mem_client key_postgres = Inr (s, ps, l)"
    and "sv_router s = public_routes demo_engine @ admin_routes demo_engine @ rest"
proof -
  obtain s ps l where "Server_New demo_platform demo_service_input id demo_config mem_client demo_postgres = Inr (s, ps, l)"
    using demo_gateway by metis
  moreover have "pf_engine demo_platform = demo_engine" "\<not> ge_conflict demo_engine rs r" for rs r
    by (simp_all add: demo_platform_def demo_engine_def)
  ultimately have "\<exists>s. Server_New key_platform demo_service_input id demo_config mem_client key_postgres = Inr (s, ps, l) \<and>
      (\<exists>rest. sv_router s = public_routes demo_engine @ admin_routes demo_engine @ rest)"
    by (auto simp: Server_New_def key_platform_def setupRoutes_def setupProxyRoutes_def add_routes_free Let_def
        split: sum.splits)
  then show thesis using that by blast
qed

lemma key_visit_simps:
  "Header_Get ''X-Api-Key'' (Request key_visit) = ''gw_a''" "Method (Request key_visit) \<noteq> ''OPTIONS''"
  "Keys key_visit ''api_key'' = None"
  by (simp_all add: key_visit_def demo_visit_def Header_Get_def)

lemma key_visit_trimmed: "TrimSpace ''gw_a'' = ''gw_a''"
  by (rule TrimSpace_no_space) (auto simp: space_runes_def suffix_def append_eq_Cons_conv char_of_def)

lemma key_route:
  assumes "sv_router s = public_routes demo_engine @ admin_routes demo_engine @ rest"
  shows "\<exists>rt. matched_route key_platform s key_visit = Some (rt, Map.empty) \<and> rt_endpoint rt = EHealth"
proof -
  have "matched_route key_platform s key_visit = matched_route demo_platform s (demo_visit ''/health'')"
    by (simp add: matched_route_def key_platform_def key_visit_def)
  then show ?thesis using demo_health_route [OF assms] by auto
qed

lemma key_active: "active_key (id (get_db (key_world ps l))) (key_hash (pf_keys key_platform) ''gw_a'') demo_key"
  by (simp add: active_key_def get_db_def key_world_def demo_stores_def key_platform_def demo_key_simps)

lemma key_allowed:
  assumes New: "Server_New key_platform demo_service_input id demo_config mem_client key_postgres = Inr (s, ps, l)"
  shows "limiter_allows key_platform s demo_inputs (key_world ps l) key_visit"
proof -
  let ?w = "key_world ps l"
  have s: "sv_config s = demo_config" "sv_redis s = mem_client" "aks_redis (sv_apiKeyService s) = mem_client"
    using New by (auto simp: Server_New_def NewAPIKeyService_def Let_def split: sum.splits)
  obtain res st where val: "Validate (pf_keys key_platform) (sv_apiKeyService s) (in_clock demo_inputs 2) ''gw_a'' (w_stores ?w) = (res, st)"
    by fastforce
  obtain a where a: "res = Inr (Some a)"
    using run_validates [OF New key_platform_ready key_world_init run_Nil _ val] key_active [of ps l]
    by (auto split: sum.splits option.splits)
  have "s_redis st (fixed_key k 0) = None" for k
    using key_checked_frame(1) [of s id "\<lambda>t d. t + d" key_platform "in_clock demo_inputs 2" "''gw_a''" ?w k 0] mem_conforms val
    by (simp add: s get_redis_def key_world_def demo_stores_def)
  then show ?thesis
    using demo_first_allowed [of "s_redis st"]
    by (simp add: limiter_allows_def limiter_parameters_def key_visit_simps key_visit_trimmed val a s key_parameters_def NewLimiter_def
        demo_config_def zero_Config_def) (simp add: demo_inputs_def)
qed



end
