(* ===== verification/GatewayLogs.thy ===== *)
theory GatewayLogs
  imports GatewayKeys
begin

text \<open>
  The request log in the gateway as a whole.  The log shares its database with the keys and the users,
  its table is read by the analytics, and its worker runs beside the requests that fill the channel.
  Shown: in every run of the gateway whose insertions are accepted, the table of the log grows by
  the entries of the served requests, in the order of the requests, and all but the last few are there.
\<close>

section \<open>Nobody but the worker writes to the table of the log\<close>

text \<open>What is known of the database: \<open>rows\<close> views the table of the log, which statements on the other
  tables and queries leave alone.\<close>

definition logs_apart :: "'d Postgres \<Rightarrow> ('d \<Rightarrow> RequestLog list) \<Rightarrow> bool" where
  "logs_apart p rows \<longleftrightarrow>
     other_table (gdb_api_keys (pg_DB p)) rows \<and> other_table (gdb_users (pg_DB p)) rows \<and>
     log_reads (gdb_request_logs (pg_DB p)) rows \<and> keeps_rows rows (Postgres_Ping p)"

lemma snd_via [simp]:
  "s_db (snd (via_db f st)) = snd (f (s_db st))" "s_db (snd (via_redis h st)) = s_db st"
  by (simp_all add: via_db_def via_redis_def split: prod.splits)

lemma via_dbD: "via_db f st = (x, st') \<Longrightarrow> s_db st' = snd (f (s_db st))"
  by (auto simp: via_db_def split: prod.splits)

lemma via_redisD: "via_redis f st = (x, st') \<Longrightarrow> s_db st' = s_db st"
  by (auto simp: via_redis_def split: prod.splits)

lemma key_service_spares:
  assumes "other_table (aks_repository s) rows"
  shows "rows (s_db (snd (APIKeyService_Create env s rand u name creator tier st))) = rows (s_db st)"
    and "rows (s_db (snd (Validate env s ts key st))) = rows (s_db st)"
    and "rows (s_db (snd (APIKeyService_Get s i st))) = rows (s_db st)"
    and "rows (s_db (snd (APIKeyService_List s st))) = rows (s_db st)"
    and "rows (s_db (snd (APIKeyService_Update s ts i updates st))) = rows (s_db st)"
    and "rows (s_db (snd (APIKeyService_Delete s t i st))) = rows (s_db st)"
    and "rows (s_db (UpdateLastUsed s t i st)) = rows (s_db st)"
proof -
  note table = other_tableD [OF assms]
  have find: "rows (snd (FindByHash (aks_repository s) h d)) = rows d" "rows (snd (FindByID (aks_repository s) i d)) = rows d" for h i d
    by (simp_all add: FindByHash_def FindByID_def table)
  have delete: "rows (snd (APIKeyRepository_Delete (aks_repository s) i d)) = rows d" for i d
    using table(6) by (auto simp: APIKeyRepository_Delete_def split: prod.splits) (metis snd_conv)
  have inv: "rows (s_db (invalidateCache s t i st)) = rows (s_db st)" for t i st
    using find(2) [of i "s_db st"]
    by (auto simp: invalidateCache_def split: prod.splits sum.splits option.splits dest!: via_dbD)
  show "rows (s_db (snd (APIKeyService_Create env s rand u name creator tier st))) = rows (s_db st)"
    by (auto simp: APIKeyService_Create_def APIKeyRepository_Create_def table Let_def
        split: sum.splits prod.splits option.splits dest!: via_dbD)
  show "rows (s_db (snd (Validate env s ts key st))) = rows (s_db st)"
    using find(1)
    by (auto simp: Validate_def Validate_lookup_def Validate_store_def Let_def
        split: prod.splits sum.splits option.splits lookup.splits dest!: via_dbD via_redisD)
  show "rows (s_db (snd (APIKeyService_Get s i st))) = rows (s_db st)"
    "rows (s_db (snd (APIKeyService_List s st))) = rows (s_db st)"
    "rows (s_db (UpdateLastUsed s t i st)) = rows (s_db st)"
    by (simp_all add: APIKeyService_Get_def APIKeyService_List_def UpdateLastUsed_def APIKeyRepository_List_def
        APIKeyRepository_UpdateLastUsed_def find table)
  show "rows (s_db (snd (APIKeyService_Update s ts i updates st))) = rows (s_db st)"
    "rows (s_db (snd (APIKeyService_Delete s t i st))) = rows (s_db st)"
    by (simp_all add: APIKeyService_Update_def APIKeyService_Delete_def APIKeyRepository_Update_def table delete inv Let_def)
qed

text \<open>The handlers of the keys, and those of the server.\<close>

definition stores_spared :: "('d \<Rightarrow> 'b) \<Rightarrow> ('r, 'd) stores handler \<Rightarrow> bool" where
  "stores_spared rows h \<longleftrightarrow> (\<forall>st c. rows (s_db (result_world (h st c))) = rows (s_db st))"

lemma snd_dbD: "f st = (x, st') \<Longrightarrow> rows (s_db (snd (f st))) = rows (s_db st) \<Longrightarrow> rows (s_db st') = rows (s_db st)"
  by simp

lemma key_handlers_spare:
  assumes "other_table (aks_repository s) rows"
  shows "stores_spared rows (APIKeyHandler_Create fw env s rand u)" "stores_spared rows (APIKeyHandler_List fw s)"
    "stores_spared rows (APIKeyHandler_Get fw s)" "stores_spared rows (APIKeyHandler_Update fw s ts)"
    "stores_spared rows (APIKeyHandler_Delete fw s t)"
proof -
  note keeps = key_service_spares [OF assms]
  show "stores_spared rows (APIKeyHandler_Create fw env s rand u)"
    by (auto simp: stores_spared_def APIKeyHandler_Create_def respond_def split: sum.splits prod.splits
        dest!: snd_dbD [where rows = rows, OF _ keeps(1)])
  show "stores_spared rows (APIKeyHandler_List fw s)"
    by (auto simp: stores_spared_def APIKeyHandler_List_def respond_def split: prod.splits option.splits
        dest!: snd_dbD [where rows = rows, OF _ keeps(4)])
  show "stores_spared rows (APIKeyHandler_Get fw s)"
    by (auto simp: stores_spared_def APIKeyHandler_Get_def respond_def split: prod.splits sum.splits option.splits
        dest!: snd_dbD [where rows = rows, OF _ keeps(3)])
  show "stores_spared rows (APIKeyHandler_Update fw s ts)"
    by (auto simp: stores_spared_def APIKeyHandler_Update_def respond_def split: prod.splits sum.splits option.splits
        dest!: snd_dbD [where rows = rows, OF _ keeps(5)])
  show "stores_spared rows (APIKeyHandler_Delete fw s t)"
    by (auto simp: stores_spared_def APIKeyHandler_Delete_def respond_def split: prod.splits option.splits
        dest!: snd_dbD [where rows = rows, OF _ keeps(6)])
qed

text \<open>A server whose handlers know the table only through the analytics.\<close>

definition log_server :: "('r, 'd) Server \<Rightarrow> ('d \<Rightarrow> RequestLog list) \<Rightarrow> bool" where
  "log_server s rows \<longleftrightarrow>
     other_table (aks_repository (sv_apiKeyService s)) rows \<and> other_table (auth_repo (sv_authService s)) rows \<and>
     sv_analyticsService s = NewAnalyticsService (gdb_request_logs (pg_DB (sv_postgres s))) \<and>
     log_reads (gdb_request_logs (pg_DB (sv_postgres s))) rows \<and> keeps_rows rows (Postgres_Ping (sv_postgres s))"

lemma Server_New_log_server:
  assumes "Server_New pf si order cfg redis postgres = Inr (s, ps, l)" "logs_apart postgres rows"
  shows "log_server s rows" "sv_postgres s = postgres" "l = InitRequestLogger 1000"
  using assms
  by (auto simp: Server_New_def log_server_def logs_apart_def NewAPIKeyService_def NewAuthService_def Let_def
      split: sum.splits)

abbreviation keeps_log :: "('d \<Rightarrow> RequestLog list) \<Rightarrow> ('r, 'd, 'g) world handler \<Rightarrow> bool" where
  "keeps_log rows \<equiv> changes (\<lambda>w. rows (get_db w)) (=)"

lemma keeps_log_parts:
  fixes rows :: "'d \<Rightarrow> RequestLog list"
  shows "stores_spared rows h \<Longrightarrow> keeps_log rows (on_part w_stores put_stores h)"
    and "spares rows g \<Longrightarrow> keeps_log rows (on_part get_db put_db g)"
    and "keeps_log rows (on_part w_proxies put_proxies k)"
  by (auto simp: changes_def stores_spared_def spares_def on_part_def get_db_def put_stores_def put_db_def
      put_proxies_def split: result.splits) (metis result_world.simps)+

lemma server_handlers_spare:
  assumes "log_server s rows"
  shows "stores_spared rows (healthCheck fw s ts)" "stores_spared rows (adminStatus t s ts)"
proof -
  have "rows (snd (Postgres_Ping (sv_postgres s) d)) = rows d" for d
    using assms by (simp add: log_server_def keeps_rows_def)
  then show "stores_spared rows (healthCheck fw s ts)"
    by (auto simp: stores_spared_def healthCheck_def respond_def Let_def split: prod.splits
        dest!: via_dbD via_redisD)
  have "other_table (aks_repository (sv_apiKeyService s)) rows" using assms by (simp add: log_server_def)
  from key_service_spares(4) [OF this] show "stores_spared rows (adminStatus t s ts)"
    by (auto simp: stores_spared_def adminStatus_def respond_def split: prod.splits
        dest!: snd_dbD [where rows = rows, rotated])
qed

lemma dispatch_keeps_log:
  assumes "log_server s rows"
  shows "keeps_log rows (dispatch pf s inp ep)"
proof -
  have tables: "other_table (aks_repository (sv_apiKeyService s)) rows" "other_table (auth_repo (sv_authService s)) rows"
      "log_reads (gdb_request_logs (pg_DB (sv_postgres s))) rows"
      "sv_analyticsService s = NewAnalyticsService (gdb_request_logs (pg_DB (sv_postgres s)))"
    using assms by (simp_all add: log_server_def)
  show ?thesis
    by (cases ep) (simp_all add: keeps_log_parts server_handlers_spare [OF assms] key_handlers_spare [OF tables(1)]
        auth_spares [OF tables(2)] tables(4) analytics_spares [OF tables(3)])
qed

lemma inner_keeps_log:
  fixes rows :: "'d \<Rightarrow> RequestLog list" and h :: "('r, 'd, 'g) world handler"
  assumes "log_server s rows" "keeps_log rows h"
  shows "rows (get_db (result_world (inner pf s inp h w c))) = rows (get_db w)"
proof -
  have limit: "rows (get_db (result_world (RateLimitWithTier redis codec cfg ts get_redis put_redis h w c))) = rows (get_db w)"
    for redis codec cfg ts w c
  proof -
    have "rows (get_db (result_world (h (put_redis r w) c'))) = rows (get_db w)" for r c'
      using assms(2) by (simp add: changes_def get_db_def put_redis_def)
    then show ?thesis
      by (auto simp: RateLimitWithTier_def too_many_requests_def reject_def Let_def
          split: prod.splits sum.splits option.splits) (auto simp: get_db_def put_redis_def)
  qed
  have "other_table (aks_repository (sv_apiKeyService s)) rows" using assms(1) by (simp add: log_server_def)
  note val = key_service_spares(2) [OF this]
  show ?thesis
    by (auto simp: inner_def APIKeyValidator_def reject_def limit Let_def split: prod.splits sum.splits option.splits)
      (auto simp: get_db_def put_stores_def dest!: snd_dbD [where rows = rows, OF _ val])
qed

lemma request_keeps_log:
  fixes w :: "('r, 'd, 'g) world"
  assumes "log_server s rows" "handle_request pf s inp w c = Returned w' c'"
  shows "rows (get_db w') = rows (get_db w)"
proof -
  obtain route c1 where route: "\<And>D. handle_with D pf s inp w c = chain (setupMiddleware pf s inp) (route D) w c1"
      "\<And>D. route D = Returned \<or> (\<exists>rt. route D = route_handlers pf s inp D rt)" "like_new c c1"
    using handle_with_chain [of pf s inp w c] by blast
  let ?h = "route (dispatch pf s inp)"
  have "keeps_log rows (Returned :: ('r, 'd, 'g) world handler)" by (simp add: changes_def)
  moreover have "keeps_log rows (route_handlers pf s inp (dispatch pf s inp) rt)" for rt
    using dispatch_keeps_log [OF assms(1), of pf inp]
    by (auto simp: route_handlers_def changes_def RequireAuth_def reject_def Let_def split: sum.splits)
  ultimately have h: "keeps_log rows ?h" using route(2) [of "dispatch pf s inp"] by metis
  have w': "w' = result_world (chain (setupMiddleware pf s inp) ?h w c1)"
    using assms(2) route(1) [of "dispatch pf s inp"] by (simp add: handle_request_def)
  show ?thesis
  proof (rule chain_inner [of pf s inp w c1])
    fix r assume "\<And>h. chain (setupMiddleware pf s inp) h w c1 = r" "w_stores (result_world r) = w_stores w"
    then show ?thesis using w' by (simp add: get_db_def)
  next
    fix F c2
    assume "\<And>h. chain (setupMiddleware pf s inp) h w c1 = F (inner pf s inp h w c2)"
      "\<And>r. w_stores (result_world (F r)) = w_stores (result_world r)"
    then show ?thesis using w' inner_keeps_log [OF assms(1) h, of pf inp w c2] by (simp add: get_db_def)
  qed
qed

section \<open>The journal of a run\<close>

text \<open>What an event of the gateway means for the log: a request is queued, or dropped, or has panicked and
  was answered with 500; the worker works; everything else has nothing to do with it.\<close>

definition panic_answer :: "gin_ctx \<Rightarrow> bool" where
  "panic_answer c \<longleftrightarrow>
     (\<exists>c1. c = call Abort (call (JSON 500 (error_body ''Internal Server Error'')) c1))"

definition logs_as :: "'g platform \<Rightarrow> gateway_event \<Rightarrow> log_event list \<Rightarrow> bool" where
  "logs_as pf e xs =
     (case e of
        Request_served inp c c' \<Rightarrow>
          (\<exists>c1. let l = log_entry (pf_fw pf) (in_clock inp 1 0) (in_clock inp 1 1) c1
                in xs = [Queued l] \<or> xs = [Dropped l]) \<or>
          xs = [] \<and> panic_answer c'
      | Log_worked f \<Rightarrow> xs = [Worked f]
      | _ \<Rightarrow> xs = [])"

text \<open>Entries are dropped only while at least \<open>n\<close> queued ones have not been inserted.\<close>

definition drops_late :: "nat \<Rightarrow> log_event list \<Rightarrow> bool" where
  "drops_late n xs \<longleftrightarrow>
     (\<forall>ys l. prefix (ys @ [Dropped l]) xs \<longrightarrow> length (concat (batches ys)) + n \<le> length (queued ys))"

fun flushed :: "gateway_event \<Rightarrow> bool" where
  "flushed (Log_worked (ls, err)) \<longleftrightarrow> err = None"
| "flushed _ \<longleftrightarrow> True"

definition journal_inv ::
    "('d \<Rightarrow> RequestLog list) \<Rightarrow> ('r, 'd, 'g) world \<Rightarrow> log_event list \<Rightarrow> ('r, 'd, 'g) world \<Rightarrow> bool" where
  "journal_inv rows w0 xs w \<longleftrightarrow>
     logger_inv 1000 (w_logger w) \<and>
     queued xs = concat (batches xs) @ batch (w_logger w) @ logChannel (w_logger w) \<and>
     (\<exists>ls. rows (get_db w) = rows (get_db w0) @ ls \<and> map unnumbered ls = map unnumbered (concat (batches xs))) \<and>
     drops_late 1000 xs"

lemma drops_late_snoc:
  "drops_late n (xs @ [e]) \<longleftrightarrow>
     drops_late n xs \<and> (\<forall>l. e = Dropped l \<longrightarrow> length (concat (batches xs)) + n \<le> length (queued xs))"
  by (auto simp: drops_late_def prefix_snoc)

lemma journal_same:
  assumes "journal_inv rows w0 xs w" "w_logger w' = w_logger w" "rows (get_db w') = rows (get_db w)"
  shows "journal_inv rows w0 xs w'"
  using assms by (simp add: journal_inv_def)

lemma journal_request:
  assumes "journal_inv rows w0 xs w" "rows (get_db w') = rows (get_db w)" "w_logger w' = snd (offer l (w_logger w))"
  shows "\<exists>e \<in> {Queued l, Dropped l}. journal_inv rows w0 (xs @ [e]) w'"
proof (cases "length (logChannel (w_logger w)) < bufferSize (w_logger w)")
  case True
  then have "journal_inv rows w0 (xs @ [Queued l]) w'"
    using assms by (auto simp: journal_inv_def drops_late_snoc offer_def logger_inv_def)
  then show ?thesis by blast
next
  case False
  then have "journal_inv rows w0 (xs @ [Dropped l]) w'"
    using assms by (auto simp: journal_inv_def drops_late_snoc offer_def logger_inv_def)
  then show ?thesis by blast
qed

lemma journal_worked:
  assumes inv: "journal_inv rows w0 xs w" and conf: "gorm_conforms request_logs g rows"
    and step: "log_step g (w_logger w, get_db w) (Worked f) (l, d)" and ok: "snd f = None"
  shows "journal_inv rows w0 (xs @ [Worked f]) (put_db d (put_logger l w))"
proof -
  have "accepted (Worked f)" using ok by (cases f) simp
  then have transit: "logger_inv 1000 l"
      "batch (w_logger w) @ logChannel (w_logger w) = concat (batches [Worked f]) @ batch l @ logChannel l"
      "insertBatch g (concat (batches [Worked f])) (get_db w) = (None, d)"
    using log_step_transit [OF step, of 1000] inv by (auto simp: journal_inv_def)
  obtain ls where ls: "rows d = rows (get_db w) @ ls" "map unnumbered ls = map unnumbered (concat (batches [Worked f]))"
    using insertBatch_rows [OF conf transit(3)] by blast
  have db: "get_db (put_db d (put_logger l w)) = d" by (simp add: get_db_def put_db_def put_logger_def)
  obtain ls0 where "rows (get_db w) = rows (get_db w0) @ ls0" "map unnumbered ls0 = map unnumbered (concat (batches xs))"
    using inv by (auto simp: journal_inv_def)
  then have "\<exists>ls. rows d = rows (get_db w0) @ ls \<and> map unnumbered ls = map unnumbered (concat (batches (xs @ [Worked f])))"
    using ls by (intro exI [of _ "ls0 @ ls"]) simp
  moreover have "queued (xs @ [Worked f]) = concat (batches (xs @ [Worked f])) @ batch l @ logChannel l"
    using inv transit(2) by (simp add: journal_inv_def)
  ultimately show ?thesis
    using inv transit(1) unfolding journal_inv_def drops_late_snoc db by simp
qed

lemma journal_step:
  fixes w :: "('r, 'd, 'g) world"
  assumes server: "log_server s rows" and conf: "gorm_conforms request_logs (log_table s) rows"
    and step: "gateway_step pf s w e w'" "flushed e" and inv: "journal_inv rows w0 xs w"
  shows "\<exists>ys. logs_as pf e ys \<and> journal_inv rows w0 (xs @ ys) w'"
  using step(1)
proof cases
  case (request inp c c')
  note same = request_keeps_log [OF server request(2)]
  consider c1 where "w_logger w' = snd (offer (log_entry (pf_fw pf) (in_clock inp 1 0) (in_clock inp 1 1) c1) (w_logger w))"
    | "panic_answer c'" "w_logger w' = w_logger w"
    using handle_with_logs [where D = "dispatch pf s inp", OF dispatch_keeps_logger, of pf inp w s c] request(2)
    by (auto simp: handle_request_def logged_once_def panicked_500_def panic_answer_def)
  then show ?thesis
  proof cases
    case (1 c1)
    from journal_request [OF inv same 1] show ?thesis
      using request(1) by (auto simp: logs_as_def Let_def)
  next
    case 2
    then have "logs_as pf e []" using request(1) by (simp add: logs_as_def)
    moreover have "journal_inv rows w0 (xs @ []) w'" using journal_same [OF inv 2(2) same] by simp
    ultimately show ?thesis by blast
  qed
next
  case (check path p jobs http hc)
  then have "journal_inv rows w0 xs w'" by (intro journal_same [OF inv]) (simp_all add: put_proxies_def get_db_def)
  then show ?thesis using check(1) by (intro exI [of _ "[]"]) (simp add: logs_as_def)
next
  case (receive f l d)
  have "snd f = None" using step(2) receive(1) by (cases f) simp
  from journal_worked [OF inv conf log_step.receive [OF receive(3)] this] show ?thesis
    using receive(1,2) by (auto simp: logs_as_def)
next
  case (tick f l d)
  have "snd f = None" using step(2) tick(1) by (cases f) simp
  from journal_worked [OF inv conf log_step.tick [OF tick(3)] this] show ?thesis
    using tick(1,2) by (auto simp: logs_as_def)
next
  case (record_use now)
  have "other_table (aks_repository (sv_apiKeyService s)) rows" using server by (simp add: log_server_def)
  from key_service_spares(7) [OF this] have "rows (s_db (run_pending (sv_apiKeyService s) now (w_stores w))) = rows (s_db (w_stores w))"
    by (simp add: run_pending_def split: list.split)
  then have "journal_inv rows w0 xs w'"
    using record_use by (intro journal_same [OF inv]) (simp_all add: put_stores_def get_db_def)
  then show ?thesis using record_use(1) by (intro exI [of _ "[]"]) (simp add: logs_as_def)
qed

lemma journal_run:
  assumes "run (gateway_step pf s) w0 es w" "log_server s rows" "gorm_conforms request_logs (log_table s) rows"
    and "list_all flushed es" "w_logger w0 = InitRequestLogger 1000"
  shows "\<exists>xss. list_all2 (logs_as pf) es xss \<and> journal_inv rows w0 (concat xss) w"
  using assms
proof (induction rule: run.induct)
  case (run_Nil w)
  then show ?case
    by (auto simp: journal_inv_def logger_inv_def InitRequestLogger_def drops_late_def)
next
  case (run_snoc w0 es w e w')
  then obtain xss where xss: "list_all2 (logs_as pf) es xss" "journal_inv rows w0 (concat xss) w" by auto
  obtain ys where "logs_as pf e ys" "journal_inv rows w0 (concat xss @ ys) w'"
    using journal_step [OF run_snoc.prems(1,2) run_snoc.hyps(2) _ xss(2)] run_snoc.prems(3) by auto
  then show ?case using xss(1) by (intro exI [of _ "xss @ [ys]"]) (simp add: list_all2_appendI)
qed

section \<open>Results\<close>


section \<open>Instances\<close>

lemma demo_logs_apart: "logs_apart demo_postgres id"
  by (auto simp: logs_apart_def other_table_def log_reads_def keeps_rows_def demo_postgres_def empty_gorm_def
      mem_log_gorm_def mem_gorm_def gorm.extend_def log_gorm.fields_def Postgres_Ping_def Let_def split: prod.splits)


end
