(* ===== verification/Spec2Isabelle.thy ===== *)
theory Spec2Isabelle
  imports Process GatewayLogs
begin

text \<open>
  \<^bold>\<open>A verification development for the API gateway under \<open>src/\<close>.\<close>

  \<^bold>\<open>The program.\<close> The gateway is an HTTP server in Go.  \<open>main\<close> loads the configuration, connects
  Redis and PostgreSQL, builds the server and serves until a signal.  A request runs through
  seven middleware (recovery, request identifier, access log, request log, CORS, API key, rate
  limit) to the handler of its route: the public routes, the administration (keys, circuit breakers,
  health, analytics, behind a check of tokens), or the proxy of one of the configured services.  A
  proxy asks its health checker for the healthy targets, its load balancer for one of them, and
  forwards the request within its circuit breaker.  Beside the requests run the periodic health
  checks, the worker that writes the request log in batches, and goroutines that record the last
  use of a key.

  \<^bold>\<open>Theories and sources.\<close> Paths are below \<open>src/internal\<close> unless they start with \<open>cmd\<close>.

  \<^item> \<open>Prelude\<close>: 64-bit integers, time, errors, panics.  \<open>Systems\<close>: runs of step relations, invariants
    and simulations as locales.  \<open>GoText\<close>, \<open>Json\<close>, \<open>Float64\<close>: what the program uses of the
    standard library: decimal text, struct tags, rounding to 53 bits.  \<open>Gin\<close>: the context of a
    request as the handlers see it.
  \<^item> \<open>CircuitBreaker\<close> (\<open>circuitbreaker/\<close>), \<open>LoadBalancer\<close> (\<open>loadbalancer/\<close>), \<open>HealthCheck\<close>
    (\<open>healthcheck/\<close>), \<open>Proxy\<close> (\<open>proxy/\<close>).
  \<^item> \<open>Config\<close> (\<open>config/\<close>), \<open>Models\<close> (\<open>models/\<close>).
  \<^item> \<open>RedisStore\<close> (\<open>storage/redis.go\<close>), \<open>Database\<close> (the database as the repositories use it),
    \<open>Postgres\<close> (\<open>storage/postgres.go\<close>), \<open>Repositories\<close> (\<open>repository/apikey.go\<close>,
    \<open>repository/authRepository.go\<close> and the part of \<open>requestLogRepository.go\<close> that inserts).
  \<^item> \<open>FixedWindow\<close>, \<open>SlidingWindow\<close>, \<open>TokenBucket\<close>, \<open>RateLimit\<close> (\<open>ratelimit/\<close>).
  \<^item> \<open>ApiKeys\<close>, \<open>ApiKeyCache\<close> (\<open>service/apikey.go\<close>, \<open>handler/apikey.go\<close>, \<open>middleware/apikey.go\<close>),
    \<open>Auth\<close> (\<open>service/authService.go\<close>, \<open>handler/authHandler.go\<close>, \<open>middleware/authMiddleware.go\<close>),
    \<open>RequestLogger\<close> (\<open>middleware/requestlogger.go\<close>), \<open>Middleware\<close> (the rest of \<open>middleware/\<close>),
    \<open>Analytics\<close> (\<open>repository/requestLogRepository.go\<close>, \<open>service/analytics.go\<close>,
    \<open>handler/analytics.go\<close>), \<open>SystemHandler\<close> (\<open>handler/systemHandler.go\<close>).
  \<^item> \<open>GatewayServer\<close> (\<open>server/server.go\<close>), \<open>Gateway\<close> (properties of the whole server),
    \<open>GatewayLimits\<close>, \<open>GatewayKeys\<close> and \<open>GatewayLogs\<close> (rate limits, API keys and the request log in runs of
    the whole server), \<open>Process\<close> (\<open>cmd/gateway/main.go\<close>).

  \<^bold>\<open>How the code is represented.\<close> A struct is a record with the fields of the source, a method a
  function with the name of the method (with the type first where several types share it) that
  takes the receiver and returns it updated.  Every call of \<open>time.Now()\<close> is an argument of its own.  A
  panic is a value (\<open>Inl\<close> of \<open>outcome\<close>, \<open>Panicked\<close> of a handler), an \<open>error\<close> an optional \<open>go_error\<close>.
  A handler maps a state and a context to both updated; the context records what was written to the
  response.  A middleware takes the rest of the chain.  Code under a mutex is one step; where the
  source releases the mutex or sends two commands to a store, a step relation (\<open>cb_step\<close>, \<open>lc_step\<close>,
  \<open>hc_step\<close>, \<open>fw_step\<close>, \<open>sw_step\<close>, \<open>tb_step\<close>, \<open>key_step\<close>, \<open>log_step\<close>, \<open>gateway_step\<close>, \<open>process_step\<close>) has
  the interleavings.

  \<^bold>\<open>Libraries and services\<close> are arguments, records with one operation for each method the code
  calls.  What is relied on are named hypotheses: \<open>redis_conforms\<close> (each command has its documented
  effect, or reports an error and has had its effect or none), \<open>gorm_conforms\<close> and \<open>log_conforms\<close>
  (likewise for the mapper), \<open>keys_apart\<close> and \<open>logs_apart\<close> (a statement on one table leaves the others as
  they are, and a query leaves its own), \<open>bcrypt_ok\<close>, \<open>jwt_signs\<close>, \<open>jwt_verifies\<close>, \<open>env_ok\<close>, \<open>bucket_codec\<close>, \<open>Intn_law\<close>.  Each
  has an instance in memory (\<open>mem_client\<close>, \<open>mem_gorm\<close>, \<open>mem_log_gorm\<close> and others) on which the witnesses
  are evaluated.  Two hypotheses are about inputs: \<open>on_time\<close> (the counter of a request is incremented in
  the window that was computed for it) and \<open>plain_event\<close> (identifiers in requests for keys are canonical
  and names and tiers are ASCII, so that the cached document of a key decodes to the key).

  \<^bold>\<open>What is shown.\<close>

  \<^item> Circuit breaker: it refines a specification with three phases under every interleaving of
    callers; it opens on a streak of failures, and recovers.
  \<^item> Load balancing: every strategy selects a member of the list it is given; round robin is fair;
    the connection counters are the numbers of requests in flight.
  \<^item> Health checks: a target is healthy exactly while it has few failures in a row; the published
    list is that of the healthy targets; no interleaving of starts, stops and checks breaks the state.
  \<^item> Proxy: a request is rejected once or passed on once, to a healthy target, and the breaker
    records the outcome; the state stays well-formed, which includes that nothing panics.
  \<^item> Rate limits: bounds on the requests admitted by each of the three algorithms, by any number of
    gateways for the fixed window, and for the middleware as a whole; clients do not affect each other.
  \<^item> API keys: the cache is transparent; a created key validates; a revoked key that a race has put
    back into the cache dies with its entry.
  \<^item> Administrators: registering and logging in gives a token that is accepted until it expires; only
    verified tokens pass; the administration cannot be reached without one.
  \<^item> Request log and analytics: no accepted entry is lost, repeated or reordered on its way to the
    table; summaries, statistics, time series and pages are those of the table.
  \<^item> Configuration and start: what \<open>Load\<close> accepts; what holds when the server starts.
  \<^item> Gateway: every request is answered and logged at most once; the whole state stays well-formed from
    construction to shutdown.  With all components sharing one Redis server and one database, and
    requests that administer keys interleaved with those that use them, a request reaches its handler
    exactly when its key is active and its limiter admits it, no client exceeds its limit, and the entries
    of the requests reach the table of the log in order.

  \<^bold>\<open>Bounds.\<close> A round-robin counter is a signed 64-bit integer that is never reset: results on
  sequences of requests allow 2 to the power of 63 of them, after which the index is negative and the
  balancer panics.  Counters of failures and windows are wrapped the same way and stay in range.
  \<open>float64\<close> is exact on integers below 2 to the power of 53; nanoseconds since the epoch are beyond
  that, which gives the 1024 ns of the sliding window.  The statistics of a key read at most 10000
  entries, as the code does.  No definition uses fuel: every loop of the sources that is modelled runs
  over a list, and loops without an end (the worker, the periodic checks) are step relations.

  \<^bold>\<open>Not modelled.\<close>

  \<^item> The insides of gin (which route matches a path, how a response is written to the socket), gorm and
    PostgreSQL, go-redis and Redis, bcrypt, the JWT library, \<open>net/http\<close> and \<open>httputil.ReverseProxy\<close>: not part
    of \<open>src/\<close>.
  \<^item> The text of JSON documents; the decoding by struct tags and the order of keys are modelled.
  \<^item> Lines written by the \<open>log\<close> package at the start and by background goroutines.  What handlers
    and middleware log is recorded in the context.
  \<^item> Cancellation of a request's context, and the time a call to a store takes: a call that is cut off
    is a call that reports an error.
  \<^item> Data races on unsynchronised memory (the random generator, \<open>httpServer\<close>): steps are atomic.
  \<^item> The constructors of handlers and repositories, which only store their arguments, the seeding of the
    random generator (its state is a parameter), the listening on the socket in \<open>Run\<close>, and the test
    scripts, the dummy backend and the deployment files.
\<close>

end
